(* ===== verification/Kernel_Prelude.thy ===== *)
theory Kernel_Prelude
  imports Main "HOL-Library.Word"
begin

text \<open>
  Shared vocabulary of the jingOS development.

  \<^item> the machine integers of the Rust sources as words of their width, with the
    saturating and checked operations the kernel calls;
  \<^item> \<open>'a run\<close>, the outcome of code that may not return. Either it panics: indexing out of bounds, an
    arithmetic overflow in a checked build, a division by zero, a slice of the wrong length, an invalid
    address, a failed allocation, a misaligned pointer in a checked build. Or the processor raises an exception: a
    page fault, which has a handler, or one without a gate in the interrupt descriptor table;
  \<^item> \<open>('a, 'e) result\<close>, Rust's \<open>Result\<close>, with \<open>Inl\<close> for \<open>Err\<close> and \<open>Inr\<close> for \<open>Ok\<close>;
  \<^item> the generic facts on lists and words that several components use.

  A \<open>usize\<close> that indexes or counts a fixed array is a \<open>nat\<close>: the component
  invariants bound it by the array's capacity, far below \<open>2 ^ 64\<close>.
\<close>

unbundle bit_operations_syntax

type_synonym u8 = "8 word"
type_synonym u16 = "16 word"
type_synonym u32 = "32 word"
type_synonym u64 = "64 word"

section \<open>Outcomes\<close>

type_synonym ('a, 'e) result = "'e + 'a"

datatype panic =
    IndexOutOfBounds
  | ArithmeticOverflow
  | DivideByZero
  | SliceLengthMismatch
  | InvalidAddress
  | AllocationFailed
  | UnsafePrecondition
  | PageFault u64
  | UnhandledException

datatype 'a run = Ret 'a | Panic panic

fun bind_run :: "'a run \<Rightarrow> ('a \<Rightarrow> 'b run) \<Rightarrow> 'b run" where
  "bind_run (Ret x) f = f x"
| "bind_run (Panic p) f = Panic p"

definition arr_get :: "'a list \<Rightarrow> nat \<Rightarrow> 'a run" where
  "arr_get xs i = (if i < length xs then Ret (xs ! i) else Panic IndexOutOfBounds)"

definition arr_set :: "'a list \<Rightarrow> nat \<Rightarrow> 'a \<Rightarrow> 'a list run" where
  "arr_set xs i x = (if i < length xs then Ret (xs[i := x]) else Panic IndexOutOfBounds)"

text \<open>\<open>usize\<close> arithmetic as a checked build performs it.\<close>

definition add_usize :: "nat \<Rightarrow> nat \<Rightarrow> nat run" where
  "add_usize a b = (if a + b < 2 ^ 64 then Ret (a + b) else Panic ArithmeticOverflow)"

definition mul_usize :: "nat \<Rightarrow> nat \<Rightarrow> nat run" where
  "mul_usize a b = (if a * b < 2 ^ 64 then Ret (a * b) else Panic ArithmeticOverflow)"

definition sub_usize :: "nat \<Rightarrow> nat \<Rightarrow> nat run" where
  "sub_usize a b = (if b \<le> a then Ret (a - b) else Panic ArithmeticOverflow)"

section \<open>Integer operations of the Rust core library\<close>

definition add_checked_build :: "'a::len word \<Rightarrow> 'a word \<Rightarrow> 'a word run" where
  "add_checked_build a b =
     (if unat a + unat b < 2 ^ LENGTH('a) then Ret (a + b) else Panic ArithmeticOverflow)"

definition mul_checked_build :: "'a::len word \<Rightarrow> 'a word \<Rightarrow> 'a word run" where
  "mul_checked_build a b =
     (if unat a * unat b < 2 ^ LENGTH('a) then Ret (a * b) else Panic ArithmeticOverflow)"

definition rem_word :: "'a::len word \<Rightarrow> 'a word \<Rightarrow> 'a word run" where
  "rem_word a b = (if b = 0 then Panic DivideByZero else Ret (a mod b))"

definition div_word :: "'a::len word \<Rightarrow> 'a word \<Rightarrow> 'a word run" where
  "div_word a b = (if b = 0 then Panic DivideByZero else Ret (a div b))"

definition checked_add :: "'a::len word \<Rightarrow> 'a word \<Rightarrow> 'a word option" where
  "checked_add a b = (if unat a + unat b < 2 ^ LENGTH('a) then Some (a + b) else None)"

definition saturating_add :: "'a::len word \<Rightarrow> 'a word \<Rightarrow> 'a word" where
  "saturating_add a b = (if unat a + unat b < 2 ^ LENGTH('a) then a + b else - 1)"

definition saturating_sub :: "'a::len word \<Rightarrow> 'a word \<Rightarrow> 'a word" where
  "saturating_sub a b = (if b \<le> a then a - b else 0)"

definition saturating_mul :: "'a::len word \<Rightarrow> 'a word \<Rightarrow> 'a word" where
  "saturating_mul a b = (if unat a * unat b < 2 ^ LENGTH('a) then a * b else - 1)"

definition clamp_word :: "'a::len word \<Rightarrow> 'a word \<Rightarrow> 'a word \<Rightarrow> 'a word" where
  "clamp_word x lo hi = (if x < lo then lo else if hi < x then hi else x)"

text \<open>Little-endian bytes, the first \<open>n\<close> of a word.\<close>

fun to_le_bytes :: "nat \<Rightarrow> 'a::len word \<Rightarrow> u8 list" where
  "to_le_bytes 0 w = []"
| "to_le_bytes (Suc n) w = ucast w # to_le_bytes n (drop_bit 8 w)"

fun from_le_bytes :: "u8 list \<Rightarrow> 'a::len word" where
  "from_le_bytes [] = 0"
| "from_le_bytes (b # bs) = ucast b OR push_bit 8 (from_le_bytes bs)"

section \<open>Proof collections\<close>

named_theorems run_simps \<open>rewrite rules that evaluate panicking code\<close>

named_theorems word_nat \<open>rules that move word goals to the naturals\<close>

section \<open>Outcomes: rewriting and inversion\<close>

lemma bind_run_Ret_iff:
  "bind_run m f = Ret y \<longleftrightarrow> (\<exists>x. m = Ret x \<and> f x = Ret y)"
  by (cases m) auto

lemma bind_run_assoc: "bind_run (bind_run m f) g = bind_run m (\<lambda>x. bind_run (f x) g)"
  by (cases m) auto

lemma arr_get_in [run_simps, simp]: "i < length xs \<Longrightarrow> arr_get xs i = Ret (xs ! i)"
  by (simp add: arr_get_def)

lemma arr_set_in [run_simps, simp]: "i < length xs \<Longrightarrow> arr_set xs i x = Ret (xs[i := x])"
  by (simp add: arr_set_def)

lemma sub_usize_in [run_simps, simp]: "b \<le> a \<Longrightarrow> sub_usize a b = Ret (a - b)"
  by (simp add: sub_usize_def)

lemma add_usize_in [run_simps, simp]: "a + b < 2 ^ 64 \<Longrightarrow> add_usize a b = Ret (a + b)"
  by (simp add: add_usize_def)

lemma mul_usize_in [run_simps, simp]: "a * b < 2 ^ 64 \<Longrightarrow> mul_usize a b = Ret (a * b)"
  by (simp add: mul_usize_def)

lemma arr_get_Ret_iff: "arr_get xs i = Ret x \<longleftrightarrow> i < length xs \<and> x = xs ! i"
  by (auto simp: arr_get_def)

lemma arr_set_Ret_iff: "arr_set xs i x = Ret ys \<longleftrightarrow> i < length xs \<and> ys = xs[i := x]"
  by (auto simp: arr_set_def)

section \<open>Words as numbers\<close>

lemma unat_max_word: "unat (- 1 :: 'a::len word) = 2 ^ LENGTH('a) - 1"
  by (simp add: unsigned_minus_1_eq_mask mask_eq_exp_minus_1)

lemma unat_saturating_add [word_nat]:
  fixes a b :: "'a::len word"
  shows "unat (saturating_add a b) = min (unat a + unat b) (2 ^ LENGTH('a) - 1)"
proof (cases "unat a + unat b < 2 ^ LENGTH('a)")
  case True
  then show ?thesis
    by (simp add: saturating_add_def unat_word_ariths)
next
  case False
  then show ?thesis
    by (simp add: saturating_add_def unat_max_word)
qed

lemma unat_saturating_sub [word_nat]: "unat (saturating_sub a b) = unat a - unat b"
proof (cases "b \<le> a")
  case True
  then show ?thesis
    by (simp add: saturating_sub_def unat_sub)
next
  case False
  then show ?thesis
    by (simp add: saturating_sub_def word_le_nat_alt)
qed

lemma unat_saturating_mul [word_nat]:
  fixes a b :: "'a::len word"
  shows "unat (saturating_mul a b) = min (unat a * unat b) (2 ^ LENGTH('a) - 1)"
proof (cases "unat a * unat b < 2 ^ LENGTH('a)")
  case True
  then show ?thesis
    by (simp add: saturating_mul_def unat_word_ariths)
next
  case False
  then show ?thesis
    by (simp add: saturating_mul_def unat_max_word)
qed

lemma checked_add_Some_iff:
  fixes a b :: "'a::len word"
  shows "checked_add a b = Some c \<longleftrightarrow> unat a + unat b < 2 ^ LENGTH('a) \<and> c = a + b"
  by (auto simp: checked_add_def)

lemma unat_add_small [word_nat]:
  fixes a b :: "'a::len word"
  shows "unat a + unat b < 2 ^ LENGTH('a) \<Longrightarrow> unat (a + b) = unat a + unat b"
  by (simp add: unat_word_ariths)

lemma unat_less_2p: "unat (a :: 'a::len word) < 2 ^ LENGTH('a)"
  by (rule unsigned_less)

lemma unat_le_max: "unat (a :: 'a::len word) \<le> 2 ^ LENGTH('a) - 1"
  using unat_less_2p[of a] by linarith

lemma saturating_add_mono1: "a \<le> saturating_add a b"
  using unat_le_max[of a] by (simp add: word_le_nat_alt unat_saturating_add)

lemma clamp_word_bounds: "lo \<le> hi \<Longrightarrow> lo \<le> clamp_word x lo hi \<and> clamp_word x lo hi \<le> hi"
  by (auto simp: clamp_word_def not_less)

lemma unat_clamp_word [word_nat]:
  "lo \<le> hi \<Longrightarrow> unat (clamp_word x lo hi) = max (unat lo) (min (unat hi) (unat x))"
  by (auto simp: clamp_word_def word_le_nat_alt word_less_nat_alt)

section \<open>Lists\<close>

lemma find_append:
  "find P (xs @ ys) = (case find P xs of None \<Rightarrow> find P ys | Some x \<Rightarrow> Some x)"
  by (induction xs) auto

lemma length_filter_map_conv: "length (filter P (map f xs)) = length (filter (P \<circ> f) xs)"
  by (induction xs) auto

text \<open>
  The position of the \<open>k\<close>-th element of a ring of size \<open>n\<close> that starts at \<open>r\<close>
  and its inverse, the distance from \<open>r\<close> going forward.
\<close>

definition ring_dist :: "nat \<Rightarrow> nat \<Rightarrow> nat \<Rightarrow> nat" where
  "ring_dist n r i = (i + n - r) mod n"

lemma ring_dist_less: "0 < n \<Longrightarrow> ring_dist n r i < n"
  by (simp add: ring_dist_def)

lemma ring_dist_cases:
  "r < n \<Longrightarrow> i < n \<Longrightarrow> ring_dist n r i = (if r \<le> i then i - r else i + n - r)"
  by (auto simp: ring_dist_def mod_if)

lemma ring_pos_dist: "r < n \<Longrightarrow> i < n \<Longrightarrow> (r + ring_dist n r i) mod n = i"
  by (auto simp: ring_dist_cases mod_if)

lemma ring_dist_pos: "r < n \<Longrightarrow> k < n \<Longrightarrow> ring_dist n r ((r + k) mod n) = k"
  by (auto simp: ring_dist_def mod_if)

lemma ring_dist_step:
  assumes "r < n" "i < n" "j < n" "i \<noteq> j" "ring_dist n r j \<le> ring_dist n r i"
  shows "ring_dist n ((j + 1) mod n) i < ring_dist n r i"
proof -
  have "(j + 1) mod n = (if j + 1 = n then 0 else j + 1)"
    using assms(3) by auto
  moreover have "(j + 1) mod n < n"
    using assms(1) by simp
  ultimately show ?thesis
    using assms by (auto simp: ring_dist_cases split: if_splits)
qed

lemma list_update_append_drop:
  "i < length xs \<Longrightarrow> xs[i := x] = take i xs @ x # drop (Suc i) xs"
  by (rule upd_conv_take_nth_drop)


section \<open>Little-endian bytes\<close>

lemma length_to_le_bytes [simp]: "length (to_le_bytes n w) = n"
  by (induction n arbitrary: w) auto

lemma from_to_le_bytes: "from_le_bytes (to_le_bytes n w) = take_bit (8 * n) (w :: 'a::len word)"
proof (induction n arbitrary: w)
  case (Suc n)
  have "ucast (ucast w :: u8) OR push_bit 8 (take_bit (8 * n) (drop_bit 8 w)) = take_bit (8 + 8 * n) w"
    by (rule bit_word_eqI) (auto simp: bit_simps)
  with Suc show ?case by simp
qed simp

lemma from_to_le_bytes_u64 [simp]: "from_le_bytes (to_le_bytes 8 w) = (w :: u64)"
  by (simp add: from_to_le_bytes take_bit_word_eq_self)

end
