(* ===== verification/Round_Robin.thy ===== *)
theory Round_Robin
  imports Kernel_Prelude
begin

text \<open>
  The contract of a round-robin scheduler over a ring of \<open>n\<close> slots, as a client sees it:
  a cursor, a set of candidate slots, and an operation that serves the candidate nearest to
  the cursor going forward and leaves the cursor just behind it. Under this contract no
  candidate starves: among any \<open>n\<close> consecutive operations each candidate is served.
  \<open>Task\<close> interprets the contract on \<open>TaskTable::step\<close>.
\<close>

text \<open>The slots served by a sequence of operations, in order.\<close>

primrec served_by :: "('e \<Rightarrow> 's \<Rightarrow> nat \<times> 's) \<Rightarrow> 'e list \<Rightarrow> 's \<Rightarrow> nat list" where
  "served_by f [] s = []"
| "served_by f (e # es) s = fst (f e s) # served_by f es (snd (f e s))"

locale round_robin =
  fixes n :: nat
    and cursor :: "'s \<Rightarrow> nat"
    and cand :: "'s \<Rightarrow> nat \<Rightarrow> bool"
    and serve :: "'e \<Rightarrow> 's \<Rightarrow> nat \<times> 's"
    and ok :: "'e \<Rightarrow> 's \<Rightarrow> bool"
    and inv :: "'s \<Rightarrow> bool"
  assumes cursor_less: "inv s \<Longrightarrow> cursor s < n"
    and serve_less: "inv s \<Longrightarrow> ok e s \<Longrightarrow> cand s i \<Longrightarrow> i < n \<Longrightarrow> fst (serve e s) < n"
    and serve_nearest: "inv s \<Longrightarrow> ok e s \<Longrightarrow> cand s i \<Longrightarrow> i < n \<Longrightarrow>
          ring_dist n (cursor s) (fst (serve e s)) \<le> ring_dist n (cursor s) i"
    and serve_cursor: "inv s \<Longrightarrow> ok e s \<Longrightarrow> cand s i \<Longrightarrow> i < n \<Longrightarrow>
          cursor (snd (serve e s)) = (fst (serve e s) + 1) mod n"
    and serve_cand: "inv s \<Longrightarrow> ok e s \<Longrightarrow> cand s i \<Longrightarrow> i < n \<Longrightarrow> cand (snd (serve e s)) i"
    and serve_ok: "inv s \<Longrightarrow> ok e s \<Longrightarrow> ok e' s \<Longrightarrow> ok e' (snd (serve e s))"
    and serve_inv: "inv s \<Longrightarrow> ok e s \<Longrightarrow> inv (snd (serve e s))"
begin

lemma served_within_distance:
  "inv s \<Longrightarrow> cand s i \<Longrightarrow> i < n \<Longrightarrow> (\<And>e. e \<in> set es \<Longrightarrow> ok e s) \<Longrightarrow>
   ring_dist n (cursor s) i < length es \<Longrightarrow> i \<in> set (served_by serve es s)"
proof (induction es arbitrary: s)
  case Nil
  then show ?case by simp
next
  case (Cons e es)
  let ?j = "fst (serve e s)" and ?s' = "snd (serve e s)"
  have ok: "ok e s" and inv: "inv s"
    using Cons.prems by auto
  show ?case
  proof (cases "i = ?j")
    case True
    then show ?thesis by simp
  next
    case False
    have closer: "ring_dist n (cursor ?s') i < ring_dist n (cursor s) i"
      using ring_dist_step[of "cursor s" n i ?j] False Cons.prems(2,3) inv ok
        cursor_less serve_less serve_nearest serve_cursor by simp
    have "i \<in> set (served_by serve es ?s')"
    proof (rule Cons.IH)
      show "inv ?s'" using inv ok by (rule serve_inv)
      show "cand ?s' i" using inv ok Cons.prems(2,3) by (rule serve_cand)
      show "i < n" by (rule Cons.prems(3))
      show "ok e' ?s'" if "e' \<in> set es" for e'
        using inv ok Cons.prems(4)[of e'] that by (auto intro: serve_ok)
      show "ring_dist n (cursor ?s') i < length es"
        using closer Cons.prems(5) by simp
    qed
    then show ?thesis by simp
  qed
qed

theorem no_starvation:
  assumes "inv s" "cand s i" "i < n" "\<And>e. e \<in> set es \<Longrightarrow> ok e s" "n \<le> length es"
  shows "i \<in> set (served_by serve es s)"
proof (rule served_within_distance)
  have "ring_dist n (cursor s) i < n"
    using assms(3) by (intro ring_dist_less) auto
  then show "ring_dist n (cursor s) i < length es"
    using assms(5) by simp
qed (use assms in auto)

end

end
