(* ===== verification/Task.thy ===== *)
theory Task
  imports Round_Robin
begin

text \<open>
  The task scheduler of \<open>kernel/src/task.rs\<close>: a table of \<open>MAX_TASKS\<close> slots, a
  priority scheduler with a round-robin cursor, sleeping tasks that are woken by tick,
  and the operations behind the monitor's \<open>task*\<close> commands. Every operation takes the
  table (the contents of the \<open>TASK_TABLE\<close> mutex) and returns its result with the new table.
\<close>

section \<open>Data\<close>

definition MAX_TASKS :: nat where
  "MAX_TASKS = 8"

definition DEFAULT_TASK_PRIORITY :: u8 where
  "DEFAULT_TASK_PRIORITY = 10"

datatype TaskState = Ready | Running | Sleeping

datatype TaskKind = KernelMonitor | UserDemo | FastSyscallSuccess | FastSyscallError

record TaskInfo =
  ti_id :: u64
  ti_kind :: TaskKind
  ti_state :: TaskState
  ti_run_count :: u64
  ti_priority :: u8
  ti_sleep_until_tick :: "u64 option"

record SchedulerSnapshot =
  sn_total :: nat
  sn_ready :: nat
  sn_running :: nat
  sn_sleeping :: nat
  sn_finished :: nat
  sn_capacity :: nat
  sn_next_id :: u64

record TaskStepReport =
  sr_id :: u64
  sr_kind :: TaskKind
  sr_run_count :: u64

type_synonym slot = "TaskInfo option"

record TaskTable =
  tt_slots :: "slot list"
  tt_next_id :: u64
  tt_next_rr_index :: nat

text \<open>The errors are the source's strings, under names.\<close>

type_synonym TaskError = string

abbreviation TaskTableFull :: TaskError where "TaskTableFull \<equiv> ''task table full''"
abbreviation SleepTicksZero :: TaskError where "SleepTicksZero \<equiv> ''sleep ticks must be > 0''"
abbreviation TaskIsRunning :: TaskError where "TaskIsRunning \<equiv> ''task is running''"
abbreviation TaskNotFound :: TaskError where "TaskNotFound \<equiv> ''task not found''"
abbreviation TaskNotSleeping :: TaskError where "TaskNotSleeping \<equiv> ''task is not sleeping''"
abbreviation CannotRemoveBootstrap :: TaskError where
  "CannotRemoveBootstrap \<equiv> ''cannot remove bootstrap task''"

section \<open>Operations\<close>

definition table_new :: TaskTable where
  "table_new = \<lparr>tt_slots = replicate MAX_TASKS None, tt_next_id = 1, tt_next_rr_index = 0\<rparr>"

definition fresh_task :: "u64 \<Rightarrow> TaskKind \<Rightarrow> TaskInfo" where
  "fresh_task i k = \<lparr>ti_id = i, ti_kind = k, ti_state = Ready, ti_run_count = 0,
     ti_priority = DEFAULT_TASK_PRIORITY, ti_sleep_until_tick = None\<rparr>"

fun tasks_of :: "slot list \<Rightarrow> TaskInfo list" where
  "tasks_of [] = []"
| "tasks_of (None # ss) = tasks_of ss"
| "tasks_of (Some t # ss) = t # tasks_of ss"

definition ensure_bootstrap_task :: "TaskTable \<Rightarrow> TaskTable run" where
  "ensure_bootstrap_task tt =
     (if list_ex (\<lambda>t. ti_id t = 1) (tasks_of (tt_slots tt)) then Ret tt
      else bind_run (arr_set (tt_slots tt) 0 (Some (fresh_task 1 KernelMonitor)))
        (\<lambda>ss. Ret (tt\<lparr>tt_slots := ss, tt_next_id := max (tt_next_id tt) 2\<rparr>)))"

fun first_free :: "slot list \<Rightarrow> nat \<Rightarrow> nat option" where
  "first_free [] i = None"
| "first_free (None # ss) i = Some i"
| "first_free (Some t # ss) i = first_free ss (Suc i)"

definition table_spawn ::
  "TaskKind \<Rightarrow> TaskTable \<Rightarrow> ((u64, TaskError) result \<times> TaskTable) run" where
  "table_spawn k tt =
     (case first_free (tt_slots tt) 0 of
        None \<Rightarrow> Ret (Inl TaskTableFull, tt)
      | Some index \<Rightarrow>
          (let i = tt_next_id tt
           in bind_run (arr_set (tt_slots tt) index (Some (fresh_task i k)))
             (\<lambda>ss. Ret (Inr i,
                tt\<lparr>tt_next_id := saturating_add (tt_next_id tt) 1, tt_slots := ss\<rparr>))))"

text \<open>The body of the wake-up loop, then the loop over the slots with its counter.\<close>

definition is_due :: "u64 \<Rightarrow> TaskInfo \<Rightarrow> bool" where
  "is_due now t \<longleftrightarrow>
     (case ti_sleep_until_tick t of None \<Rightarrow> False | Some until_tick \<Rightarrow> until_tick \<le> now)"

fun wake_slots :: "u64 \<Rightarrow> slot list \<Rightarrow> nat \<Rightarrow> nat \<times> slot list" where
  "wake_slots now [] woke = (woke, [])"
| "wake_slots now (None # ss) woke =
     (let (w, ss') = wake_slots now ss woke in (w, None # ss'))"
| "wake_slots now (Some t # ss) woke =
     (if ti_state t \<noteq> Sleeping then
        (let (w, ss') = wake_slots now ss woke in (w, Some t # ss'))
      else if is_due now t then
        (let (w, ss') = wake_slots now ss (Suc woke)
         in (w, Some (t\<lparr>ti_state := Ready, ti_sleep_until_tick := None\<rparr>) # ss'))
      else
        (let (w, ss') = wake_slots now ss woke in (w, Some t # ss')))"

definition table_wake_due :: "u64 \<Rightarrow> TaskTable \<Rightarrow> nat \<times> TaskTable" where
  "table_wake_due now tt =
     (let (w, ss) = wake_slots now (tt_slots tt) 0 in (w, tt\<lparr>tt_slots := ss\<rparr>))"

text \<open>The two loops of \<open>step\<close>: the highest ready priority, then the cyclic search.\<close>

fun select_priority :: "slot list \<Rightarrow> u8 option \<Rightarrow> u8 option" where
  "select_priority [] acc = acc"
| "select_priority (None # ss) acc = select_priority ss acc"
| "select_priority (Some t # ss) acc =
     (if ti_state t \<noteq> Ready then select_priority ss acc
      else select_priority ss
        (Some (case acc of Some current \<Rightarrow> max current (ti_priority t)
                         | None \<Rightarrow> ti_priority t)))"

definition is_candidate :: "u8 \<Rightarrow> slot \<Rightarrow> bool" where
  "is_candidate p s \<longleftrightarrow>
     (case s of Some t \<Rightarrow> ti_state t = Ready \<and> ti_priority t = p | None \<Rightarrow> False)"

fun select_index :: "slot list \<Rightarrow> nat \<Rightarrow> u8 \<Rightarrow> nat list \<Rightarrow> nat option run" where
  "select_index ss rr p [] = Ret None"
| "select_index ss rr p (offset # offsets) =
     (let index = (rr + offset) mod MAX_TASKS
      in bind_run (arr_get ss index)
        (\<lambda>s. if is_candidate p s then Ret (Some index) else select_index ss rr p offsets))"

definition table_step :: "u64 \<Rightarrow> TaskTable \<Rightarrow> (TaskStepReport option \<times> TaskTable) run" where
  "table_step now tt0 =
     (let tt = snd (table_wake_due now tt0)
      in case select_priority (tt_slots tt) None of
        None \<Rightarrow> Ret (None, tt)
      | Some p \<Rightarrow>
          bind_run (select_index (tt_slots tt) (tt_next_rr_index tt) p [0..<MAX_TASKS])
            (\<lambda>selected. case selected of
               None \<Rightarrow> Ret (None, tt)
             | Some index \<Rightarrow>
                 (let tt1 = tt\<lparr>tt_next_rr_index := (index + 1) mod MAX_TASKS\<rparr>
                  in bind_run (arr_get (tt_slots tt1) index)
                    (\<lambda>s. case s of
                       None \<Rightarrow> Ret (None, tt1)
                     | Some t \<Rightarrow>
                         (let t1 = t\<lparr>ti_state := Running,
                                ti_run_count := saturating_add (ti_run_count t) 1,
                                ti_sleep_until_tick := None\<rparr>
                          in bind_run (arr_set (tt_slots tt1) index (Some t1))
                            (\<lambda>ss1.
                              let report = \<lparr>sr_id = ti_id t1, sr_kind = ti_kind t1,
                                    sr_run_count = ti_run_count t1\<rparr>;
                                  t2 = t1\<lparr>ti_state := Ready, ti_sleep_until_tick := None\<rparr>
                              in bind_run (arr_set ss1 index (Some t2))
                                (\<lambda>ss2. Ret (Some report, tt1\<lparr>tt_slots := ss2\<rparr>))))))))"

text \<open>
  The loop that \<open>sleep\<close>, \<open>wake\<close>, \<open>remove\<close> and \<open>set_priority\<close> share: the body runs
  on the first slot whose task has the given id and its result is returned at once; when the
  loop falls through, the result is \<open>TaskNotFound\<close>.
\<close>

fun for_task ::
  "u64 \<Rightarrow> (TaskInfo \<Rightarrow> ('r, TaskError) result \<times> slot) \<Rightarrow> slot list \<Rightarrow>
   ('r, TaskError) result \<times> slot list" where
  "for_task i body [] = (Inl TaskNotFound, [])"
| "for_task i body (None # ss) = (let (r, ss') = for_task i body ss in (r, None # ss'))"
| "for_task i body (Some t # ss) =
     (if ti_id t \<noteq> i then (let (r, ss') = for_task i body ss in (r, Some t # ss'))
      else (let (r, s') = body t in (r, s' # ss)))"

definition run_on_task ::
  "u64 \<Rightarrow> (TaskInfo \<Rightarrow> ('r, TaskError) result \<times> slot) \<Rightarrow> TaskTable \<Rightarrow>
   ('r, TaskError) result \<times> TaskTable" where
  "run_on_task i body tt =
     (let (r, ss) = for_task i body (tt_slots tt) in (r, tt\<lparr>tt_slots := ss\<rparr>))"

definition sleep_body :: "u64 \<Rightarrow> u64 \<Rightarrow> TaskInfo \<Rightarrow> (u64, TaskError) result \<times> slot" where
  "sleep_body sleep_ticks now t =
     (if ti_state t = Running then (Inl TaskIsRunning, Some t)
      else (let until_tick = saturating_add now sleep_ticks
            in (Inr until_tick,
                Some (t\<lparr>ti_state := Sleeping, ti_sleep_until_tick := Some until_tick\<rparr>))))"

definition table_sleep ::
  "u64 \<Rightarrow> u64 \<Rightarrow> u64 \<Rightarrow> TaskTable \<Rightarrow> (u64, TaskError) result \<times> TaskTable" where
  "table_sleep i sleep_ticks now tt =
     (if sleep_ticks = 0 then (Inl SleepTicksZero, tt)
      else run_on_task i (sleep_body sleep_ticks now) (snd (table_wake_due now tt)))"

definition wake_body :: "TaskInfo \<Rightarrow> (TaskInfo, TaskError) result \<times> slot" where
  "wake_body t =
     (if ti_state t = Running then (Inl TaskIsRunning, Some t)
      else if ti_state t \<noteq> Sleeping then (Inl TaskNotSleeping, Some t)
      else (let t' = t\<lparr>ti_state := Ready, ti_sleep_until_tick := None\<rparr>
            in (Inr t', Some t')))"

definition table_wake ::
  "u64 \<Rightarrow> u64 \<Rightarrow> TaskTable \<Rightarrow> (TaskInfo, TaskError) result \<times> TaskTable" where
  "table_wake i now tt = run_on_task i wake_body (snd (table_wake_due now tt))"

definition remove_body :: "TaskInfo \<Rightarrow> (TaskInfo, TaskError) result \<times> slot" where
  "remove_body t =
     (if ti_state t = Running then (Inl TaskIsRunning, Some t) else (Inr t, None))"

definition table_remove ::
  "u64 \<Rightarrow> u64 \<Rightarrow> TaskTable \<Rightarrow> (TaskInfo, TaskError) result \<times> TaskTable" where
  "table_remove i now tt =
     (let tt' = snd (table_wake_due now tt)
      in if i = 1 then (Inl CannotRemoveBootstrap, tt') else run_on_task i remove_body tt')"

definition priority_body :: "u8 \<Rightarrow> TaskInfo \<Rightarrow> (TaskInfo, TaskError) result \<times> slot" where
  "priority_body p t =
     (if ti_state t = Running then (Inl TaskIsRunning, Some t)
      else (let t' = t\<lparr>ti_priority := p\<rparr> in (Inr t', Some t')))"

definition table_set_priority ::
  "u64 \<Rightarrow> u8 \<Rightarrow> u64 \<Rightarrow> TaskTable \<Rightarrow> (TaskInfo, TaskError) result \<times> TaskTable" where
  "table_set_priority i p now tt =
     run_on_task i (priority_body p) (snd (table_wake_due now tt))"

fun count_states :: "TaskInfo list \<Rightarrow> nat \<times> nat \<times> nat \<times> nat \<Rightarrow> nat \<times> nat \<times> nat \<times> nat" where
  "count_states [] acc = acc"
| "count_states (t # ts) (tot, ready, running, sleeping) =
     count_states ts
       (case ti_state t of
          Ready \<Rightarrow> (tot + 1, ready + 1, running, sleeping)
        | Running \<Rightarrow> (tot + 1, ready, running + 1, sleeping)
        | Sleeping \<Rightarrow> (tot + 1, ready, running, sleeping + 1))"

definition table_snapshot :: "TaskTable \<Rightarrow> SchedulerSnapshot" where
  "table_snapshot tt =
     (let (tot, ready, running, sleeping) = count_states (tasks_of (tt_slots tt)) (0, 0, 0, 0)
      in \<lparr>sn_total = tot, sn_ready = ready, sn_running = running, sn_sleeping = sleeping,
          sn_finished = 0, sn_capacity = MAX_TASKS, sn_next_id = tt_next_id tt\<rparr>)"

fun list_loop :: "TaskInfo list \<Rightarrow> nat \<Rightarrow> slot list \<Rightarrow> (nat \<times> slot list) run" where
  "list_loop [] count out_slots = Ret (count, out_slots)"
| "list_loop (t # ts) count out_slots =
     bind_run (arr_set out_slots count (Some t)) (\<lambda>out_slots1. list_loop ts (count + 1) out_slots1)"

definition table_list :: "TaskTable \<Rightarrow> slot list \<Rightarrow> (nat \<times> slot list) run" where
  "table_list tt out_slots = list_loop (tasks_of (tt_slots tt)) 0 out_slots"

section \<open>Names\<close>

definition task_kind_name :: "TaskKind \<Rightarrow> string" where
  "task_kind_name k =
     (case k of KernelMonitor \<Rightarrow> ''kernel_monitor'' | UserDemo \<Rightarrow> ''user_demo''
      | FastSyscallSuccess \<Rightarrow> ''fast_syscall_success''
      | FastSyscallError \<Rightarrow> ''fast_syscall_error'')"

definition task_state_name :: "TaskState \<Rightarrow> string" where
  "task_state_name s =
     (case s of Ready \<Rightarrow> ''ready'' | Running \<Rightarrow> ''running'' | Sleeping \<Rightarrow> ''sleeping'')"

definition parse_task_kind :: "string \<Rightarrow> TaskKind option" where
  "parse_task_kind text =
     (if text \<in> {''monitor'', ''kernel'', ''kernel_monitor''} then Some KernelMonitor
      else if text \<in> {''userdemo'', ''user'', ''user_demo''} then Some UserDemo
      else if text \<in> {''fastsyscall'', ''fast'', ''fast_ok'', ''fastsyscall_ok'',
                       ''fast_syscall_success''} then Some FastSyscallSuccess
      else if text \<in> {''fastfail'', ''fastsyscall_fail'', ''fast_syscall_error'',
                       ''fast_error''} then Some FastSyscallError
      else None)"




section \<open>Invariant and abstraction\<close>

text \<open>
  Between operations no task is \<open>Running\<close> (a step runs its task to the end while it holds
  the lock) and exactly the sleeping tasks carry a wake-up tick.
\<close>

definition task_ok :: "TaskInfo \<Rightarrow> bool" where
  "task_ok t \<longleftrightarrow> ti_state t \<noteq> Running \<and> (ti_state t = Sleeping \<longleftrightarrow> ti_sleep_until_tick t \<noteq> None)"

definition ids_of :: "slot list \<Rightarrow> u64 list" where
  "ids_of ss = map ti_id (tasks_of ss)"

definition has_bootstrap :: "slot list \<Rightarrow> bool" where
  "has_bootstrap ss \<longleftrightarrow> (\<exists>t \<in> set (tasks_of ss). ti_id t = 1 \<and> ti_kind t = KernelMonitor)"

definition wf_slots :: "u64 \<Rightarrow> slot list \<Rightarrow> bool" where
  "wf_slots next_id ss \<longleftrightarrow> length ss = MAX_TASKS \<and> distinct (ids_of ss) \<and>
     (\<forall>t \<in> set (tasks_of ss). 1 \<le> ti_id t \<and> ti_id t < next_id \<and> task_ok t)"

definition wf_table :: "TaskTable \<Rightarrow> bool" where
  "wf_table tt \<longleftrightarrow> wf_slots (tt_next_id tt) (tt_slots tt) \<and> has_bootstrap (tt_slots tt) \<and>
     tt_next_rr_index tt < MAX_TASKS"

text \<open>The abstract view of a table: which task an id names.\<close>

definition lookup_task :: "TaskTable \<Rightarrow> u64 \<Rightarrow> TaskInfo option" where
  "lookup_task tt i = find (\<lambda>t. ti_id t = i) (tasks_of (tt_slots tt))"

text \<open>What waking does to one task, as a function of the tick.\<close>

definition wake_task :: "u64 \<Rightarrow> TaskInfo \<Rightarrow> TaskInfo" where
  "wake_task now t =
     (if ti_state t = Sleeping \<and> is_due now t
      then t\<lparr>ti_state := Ready, ti_sleep_until_tick := None\<rparr> else t)"

definition woken :: "u64 \<Rightarrow> slot list \<Rightarrow> slot list" where
  "woken now ss = map (map_option (wake_task now)) ss"

section \<open>Slots\<close>

lemma tasks_of_append [simp]: "tasks_of (xs @ ys) = tasks_of xs @ tasks_of ys"
  by (induction xs rule: tasks_of.induct) auto

lemma tasks_of_map_option: "tasks_of (map (map_option f) ss) = map f (tasks_of ss)"
  by (induction ss rule: tasks_of.induct) auto

lemma in_tasks_of_iff: "t \<in> set (tasks_of ss) \<longleftrightarrow> Some t \<in> set ss"
  by (induction ss rule: tasks_of.induct) auto

lemma length_tasks_of_le: "length (tasks_of ss) \<le> length ss"
  by (induction ss rule: tasks_of.induct) auto

lemma tasks_of_replicate_None [simp]: "tasks_of (replicate k None) = []"
  by (induction k) auto

lemma wake_slots_conv:
  "wake_slots now ss w =
     (w + length (filter (\<lambda>t. ti_state t = Sleeping \<and> is_due now t) (tasks_of ss)), woken now ss)"
  by (induction now ss w rule: wake_slots.induct) (auto simp: woken_def wake_task_def)

lemma table_wake_due_conv:
  "table_wake_due now tt =
     (length (filter (\<lambda>t. ti_state t = Sleeping \<and> is_due now t) (tasks_of (tt_slots tt))),
      tt\<lparr>tt_slots := woken now (tt_slots tt)\<rparr>)"
  by (simp add: table_wake_due_def wake_slots_conv)

lemma wake_task_fields [simp]:
  "ti_id (wake_task now t) = ti_id t"
  "ti_kind (wake_task now t) = ti_kind t"
  "ti_priority (wake_task now t) = ti_priority t"
  "ti_run_count (wake_task now t) = ti_run_count t"
  by (simp_all add: wake_task_def)

lemma task_ok_wake_task [simp]: "task_ok t \<Longrightarrow> task_ok (wake_task now t)"
  by (auto simp: task_ok_def wake_task_def)

lemma wake_task_idem [simp]: "wake_task now (wake_task now t) = wake_task now t"
  by (simp add: wake_task_def)

lemma tasks_of_woken: "tasks_of (woken now ss) = map (wake_task now) (tasks_of ss)"
  by (simp add: woken_def tasks_of_map_option)

lemma length_woken [simp]: "length (woken now ss) = length ss"
  by (simp add: woken_def)

lemma nth_woken: "k < length ss \<Longrightarrow> woken now ss ! k = map_option (wake_task now) (ss ! k)"
  by (simp add: woken_def)

lemma ids_of_woken [simp]: "ids_of (woken now ss) = ids_of ss"
  by (simp add: ids_of_def tasks_of_woken)

lemma wf_slots_woken [simp]: "wf_slots n ss \<Longrightarrow> wf_slots n (woken now ss)"
  by (auto simp: wf_slots_def tasks_of_woken)

lemma has_bootstrap_woken [simp]: "has_bootstrap (woken now ss) \<longleftrightarrow> has_bootstrap ss"
  by (auto simp: has_bootstrap_def tasks_of_woken)

lemma wf_table_wake_due: "wf_table tt \<Longrightarrow> wf_table (snd (table_wake_due now tt))"
  by (simp add: wf_table_def table_wake_due_conv)

lemma find_map_wake:
  "find (\<lambda>t. ti_id t = i) (map (wake_task now) ts) =
   map_option (wake_task now) (find (\<lambda>t. ti_id t = i) ts)"
  by (induction ts) auto

lemma lookup_wake_due:
  "lookup_task (snd (table_wake_due now tt)) i = map_option (wake_task now) (lookup_task tt i)"
  by (simp add: lookup_task_def table_wake_due_conv tasks_of_woken find_map_wake)

text \<open>Both slot searches split the table at the slot they stop at.\<close>

lemma first_free_None_iff: "first_free ss k = None \<longleftrightarrow> None \<notin> set ss"
  by (induction ss k rule: first_free.induct) auto

lemma first_free_SomeD:
  "first_free ss k = Some j \<Longrightarrow> \<exists>xs ys. ss = xs @ None # ys \<and> None \<notin> set xs \<and> j = k + length xs"
proof (induction ss k rule: first_free.induct)
  case (3 t ss k)
  then obtain xs ys where "ss = xs @ None # ys" "None \<notin> set xs" "j = Suc k + length xs"
    by auto
  then show ?case
    by (intro exI[of _ "Some t # xs"] exI[of _ ys]) auto
qed auto

lemma for_task_missing: "i \<notin> set (ids_of ss) \<Longrightarrow> for_task i body ss = (Inl TaskNotFound, ss)"
  by (induction i body ss rule: for_task.induct) (auto simp: ids_of_def)

lemma for_task_found:
  "i \<in> set (ids_of ss) \<Longrightarrow>
   \<exists>xs t ys. ss = xs @ Some t # ys \<and> ti_id t = i \<and> i \<notin> set (ids_of xs) \<and>
     for_task i body ss = (fst (body t), xs @ snd (body t) # ys)"
proof (induction i body ss rule: for_task.induct)
  case (2 i body ss)
  then obtain xs t ys where
    "ss = xs @ Some t # ys" "ti_id t = i" "i \<notin> set (ids_of xs)"
    "for_task i body ss = (fst (body t), xs @ snd (body t) # ys)"
    by (auto simp: ids_of_def)
  then show ?case
    by (intro exI[of _ "None # xs"] exI[of _ t] exI[of _ ys]) (auto simp: ids_of_def)
next
  case (3 i body t ss)
  show ?case
  proof (cases "ti_id t = i")
    case True
    then show ?thesis
      by (intro exI[of _ "[]"] exI[of _ t] exI[of _ ss]) (auto simp: ids_of_def split_beta)
  next
    case False
    with 3 obtain xs t' ys where
      "ss = xs @ Some t' # ys" "ti_id t' = i" "i \<notin> set (ids_of xs)"
      "for_task i body ss = (fst (body t'), xs @ snd (body t') # ys)"
      by (auto simp: ids_of_def)
    with False show ?thesis
      by (intro exI[of _ "Some t # xs"] exI[of _ t'] exI[of _ ys]) (auto simp: ids_of_def)
  qed
qed (auto simp: ids_of_def)


section \<open>The contract of a slot operation\<close>

text \<open>
  \<open>sleep\<close>, \<open>wake\<close>, \<open>remove\<close> and \<open>set_priority\<close> apply one body to the slot of one
  task. The contract such a body keeps: the task it leaves in the slot has the same identity
  and is well formed. A body that also never empties the slot is an edit.
\<close>

locale slot_update =
  fixes body :: "TaskInfo \<Rightarrow> ('r, TaskError) result \<times> slot"
  assumes body_keeps: "task_ok t \<Longrightarrow> snd (body t) = Some t' \<Longrightarrow>
            ti_id t' = ti_id t \<and> ti_kind t' = ti_kind t \<and> task_ok t'"
begin

lemma run_on_task_lookup:
  assumes "wf_slots n (tt_slots tt)"
  shows "fst (run_on_task i body tt) =
           (case lookup_task tt i of None \<Rightarrow> Inl TaskNotFound | Some t \<Rightarrow> fst (body t))"
    and "lookup_task (snd (run_on_task i body tt)) =
           (lookup_task tt)(i := Option.bind (lookup_task tt i) (\<lambda>t. snd (body t)))"
proof -
  have *: "fst (run_on_task i body tt) =
           (case lookup_task tt i of None \<Rightarrow> Inl TaskNotFound | Some t \<Rightarrow> fst (body t)) \<and>
         lookup_task (snd (run_on_task i body tt)) =
           (lookup_task tt)(i := Option.bind (lookup_task tt i) (\<lambda>t. snd (body t)))"
  proof (cases "i \<in> set (ids_of (tt_slots tt))")
    case False
    then have "lookup_task tt i = None"
      by (auto simp: lookup_task_def find_None_iff ids_of_def)
    with False show ?thesis
      by (simp add: run_on_task_def for_task_missing fun_upd_idem)
  next
    case True
    then obtain xs t ys where split:
      "tt_slots tt = xs @ Some t # ys" "ti_id t = i" "i \<notin> set (ids_of xs)"
      "for_task i body (tt_slots tt) = (fst (body t), xs @ snd (body t) # ys)"
      using for_task_found[of i "tt_slots tt" body] by blast
    have ys: "i \<notin> set (ids_of ys)"
      using assms split(1,2) by (auto simp: wf_slots_def ids_of_def)
    have "task_ok t"
      using assms split(1) by (auto simp: wf_slots_def)
    then have new: "snd (body t) = Some t' \<Longrightarrow> ti_id t' = i" for t'
      using body_keeps split(2) by blast
    have nx: "find (\<lambda>t. ti_id t = i) (tasks_of xs) = None"
      "find (\<lambda>t. ti_id t = i) (tasks_of ys) = None"
      using split(3) ys by (auto simp: find_None_iff ids_of_def)
    have look: "lookup_task tt j =
        (case find (\<lambda>t. ti_id t = j) (tasks_of xs) of
           None \<Rightarrow> if j = i then Some t else find (\<lambda>t. ti_id t = j) (tasks_of ys)
         | Some u \<Rightarrow> Some u)" for j
      using split(1,2) by (auto simp: lookup_task_def find_append split: option.split)
    have look': "lookup_task (snd (run_on_task i body tt)) j =
        (case find (\<lambda>t. ti_id t = j) (tasks_of xs) of
           None \<Rightarrow> if j = i then snd (body t) else find (\<lambda>t. ti_id t = j) (tasks_of ys)
         | Some u \<Rightarrow> Some u)" for j
      using split(4) new nx
      by (cases "snd (body t)") (auto simp: run_on_task_def lookup_task_def find_append split: option.split)
    have "lookup_task tt i = Some t"
      using look nx by simp
    then show ?thesis
      using split(4) look look' nx
      by (auto simp: run_on_task_def fun_eq_iff split: option.split)
  qed
  then show "fst (run_on_task i body tt) =
           (case lookup_task tt i of None \<Rightarrow> Inl TaskNotFound | Some t \<Rightarrow> fst (body t))"
    and "lookup_task (snd (run_on_task i body tt)) =
           (lookup_task tt)(i := Option.bind (lookup_task tt i) (\<lambda>t. snd (body t)))"
    by auto
qed

lemma run_on_task_wf_slots:
  assumes "wf_slots n (tt_slots tt)"
  shows "wf_slots n (tt_slots (snd (run_on_task i body tt)))"
proof (cases "i \<in> set (ids_of (tt_slots tt))")
  case False
  then show ?thesis
    using assms by (simp add: run_on_task_def for_task_missing)
next
  case True
  then obtain xs t ys where split:
    "tt_slots tt = xs @ Some t # ys"
    "for_task i body (tt_slots tt) = (fst (body t), xs @ snd (body t) # ys)"
    using for_task_found[of i "tt_slots tt" body] by blast
  have "task_ok t"
    using assms split(1) by (auto simp: wf_slots_def)
  then have keep: "snd (body t) = Some t' \<Longrightarrow> ti_id t' = ti_id t \<and> task_ok t'" for t'
    using body_keeps by blast
  have tt': "tt_slots (snd (run_on_task i body tt)) = xs @ snd (body t) # ys"
    using split(2) by (simp add: run_on_task_def)
  show ?thesis
  proof (cases "snd (body t)")
    case None
    then show ?thesis
      using assms unfolding tt' split(1) by (simp add: wf_slots_def ids_of_def)
  next
    case (Some t')
    then show ?thesis
      using assms keep[OF Some] unfolding tt' split(1) by (simp add: wf_slots_def ids_of_def)
  qed
qed

lemma run_on_task_has_bootstrap:
  assumes "wf_slots n (tt_slots tt)" "has_bootstrap (tt_slots tt)"
    and "i \<noteq> 1 \<or> (\<forall>t. snd (body t) \<noteq> None)"
  shows "has_bootstrap (tt_slots (snd (run_on_task i body tt)))"
proof (cases "i \<in> set (ids_of (tt_slots tt))")
  case False
  then show ?thesis
    using assms by (simp add: run_on_task_def for_task_missing)
next
  case True
  then obtain xs t ys where split:
    "tt_slots tt = xs @ Some t # ys" "ti_id t = i"
    "for_task i body (tt_slots tt) = (fst (body t), xs @ snd (body t) # ys)"
    using for_task_found[of i "tt_slots tt" body] by blast
  have "task_ok t"
    using assms(1) split(1) by (auto simp: wf_slots_def)
  then have keep: "snd (body t) = Some t' \<Longrightarrow> ti_id t' = ti_id t \<and> ti_kind t' = ti_kind t" for t'
    using body_keeps by blast
  have tt': "tt_slots (snd (run_on_task i body tt)) = xs @ snd (body t) # ys"
    using split(3) by (simp add: run_on_task_def)
  show ?thesis
  proof (cases "snd (body t)")
    case None
    with assms(3) split(2) have "ti_id t \<noteq> 1" by blast
    with None show ?thesis
      using assms(2) unfolding tt' split(1) by (simp add: has_bootstrap_def)
  next
    case (Some t')
    then show ?thesis
      using assms(2) keep[OF Some] unfolding tt' split(1) by (auto simp: has_bootstrap_def)
  qed
qed

lemma run_on_task_wf:
  "wf_table tt \<Longrightarrow> i \<noteq> 1 \<or> (\<forall>t. snd (body t) \<noteq> None) \<Longrightarrow> wf_table (snd (run_on_task i body tt))"
  using run_on_task_wf_slots run_on_task_has_bootstrap
  by (auto simp: wf_table_def run_on_task_def split_beta)

end

locale slot_edit = slot_update +
  assumes body_fills: "snd (body t) \<noteq> None"
begin

lemma edit_wf: "wf_table tt \<Longrightarrow> wf_table (snd (run_on_task i body tt))"
  using run_on_task_wf body_fills by blast

end

interpretation sleeping: slot_edit "sleep_body ticks now" for ticks now
  by unfold_locales (auto simp: sleep_body_def task_ok_def Let_def split: if_splits)

interpretation waking: slot_edit wake_body
  by unfold_locales (auto simp: wake_body_def task_ok_def Let_def split: if_splits)

interpretation prioritising: slot_edit "priority_body p" for p
  by unfold_locales (auto simp: priority_body_def task_ok_def Let_def split: if_splits)

interpretation removing: slot_update remove_body
  by unfold_locales (auto simp: remove_body_def split: if_splits)

section \<open>The operations keep the invariant\<close>

lemma wf_table_new_slots: "wf_slots 1 (tt_slots table_new)"
  by (simp add: wf_slots_def table_new_def ids_of_def)

lemma ensure_bootstrap_task_new:
  "ensure_bootstrap_task table_new =
     Ret \<lparr>tt_slots = [Some (fresh_task 1 KernelMonitor), None, None, None, None, None, None, None],
          tt_next_id = 2, tt_next_rr_index = 0\<rparr>"
  by (simp add: ensure_bootstrap_task_def table_new_def MAX_TASKS_def numeral_eq_Suc arr_set_def)

lemma wf_boot_table:
  "ensure_bootstrap_task table_new = Ret tt \<Longrightarrow> wf_table tt"
  by (auto simp: ensure_bootstrap_task_new wf_table_def wf_slots_def ids_of_def has_bootstrap_def
      MAX_TASKS_def fresh_task_def task_ok_def)

lemma table_sleep_wf: "wf_table tt \<Longrightarrow> wf_table (snd (table_sleep i ticks now tt))"
  by (simp add: table_sleep_def wf_table_wake_due sleeping.edit_wf)

lemma table_wake_wf: "wf_table tt \<Longrightarrow> wf_table (snd (table_wake i now tt))"
  by (simp add: table_wake_def wf_table_wake_due waking.edit_wf)

lemma table_set_priority_wf: "wf_table tt \<Longrightarrow> wf_table (snd (table_set_priority i p now tt))"
  by (simp add: table_set_priority_def wf_table_wake_due prioritising.edit_wf)

lemma table_remove_wf: "wf_table tt \<Longrightarrow> wf_table (snd (table_remove i now tt))"
  by (simp add: table_remove_def Let_def wf_table_wake_due removing.run_on_task_wf)


lemma table_spawn_full:
  "None \<notin> set (tt_slots tt) \<Longrightarrow> table_spawn k tt = Ret (Inl TaskTableFull, tt)"
  by (simp add: table_spawn_def first_free_None_iff[THEN iffD2])

lemma table_spawn_free:
  assumes "None \<in> set (tt_slots tt)"
  shows "\<exists>xs ys. tt_slots tt = xs @ None # ys \<and> None \<notin> set xs \<and>
    table_spawn k tt = Ret (Inr (tt_next_id tt),
      tt\<lparr>tt_next_id := saturating_add (tt_next_id tt) 1,
         tt_slots := xs @ Some (fresh_task (tt_next_id tt) k) # ys\<rparr>)"
proof -
  obtain j where j: "first_free (tt_slots tt) 0 = Some j"
    using assms first_free_None_iff[of "tt_slots tt" 0] by fastforce
  then obtain xs ys where "tt_slots tt = xs @ None # ys" "None \<notin> set xs" "j = length xs"
    using first_free_SomeD by fastforce
  with j show ?thesis
    by - (rule exI[of _ xs], rule exI[of _ ys], simp add: table_spawn_def Let_def)
qed

lemma next_id_step:
  fixes n :: u64
  assumes "n \<noteq> - 1" "1 \<le> n"
  shows "n < saturating_add n 1" "x < n \<Longrightarrow> x < saturating_add n 1" "1 \<le> saturating_add n 1"
proof -
  have "unat n \<noteq> unat (- 1 :: u64)"
    using assms(1) by (metis word_unat_eq_iff)
  then have "unat n < 2 ^ 64 - 1"
    using unat_le_max[of n] by (simp add: unat_max_word)
  then have u: "unat (saturating_add n 1) = unat n + 1"
    by (simp add: unat_saturating_add)
  then show less: "n < saturating_add n 1"
    by (simp add: word_less_nat_alt)
  then show "x < n \<Longrightarrow> x < saturating_add n 1"
    by (rule order.strict_trans[rotated])
  show "1 \<le> saturating_add n 1"
    using less assms(2) by (meson order.trans order.strict_implies_order)
qed

lemma wf_table_next_id: "wf_table tt \<Longrightarrow> 1 \<le> tt_next_id tt"
  by (auto simp: wf_table_def wf_slots_def has_bootstrap_def dest!: bspec)

lemma table_spawn_wf:
  assumes "wf_table tt" "tt_next_id tt \<noteq> - 1" "table_spawn k tt = Ret (r, tt')"
  shows "wf_table tt'"
proof (cases "None \<in> set (tt_slots tt)")
  case False
  then show ?thesis using assms by (simp add: table_spawn_full)
next
  case True
  then obtain xs ys where split: "tt_slots tt = xs @ None # ys"
    and tt': "tt' = tt\<lparr>tt_next_id := saturating_add (tt_next_id tt) 1,
         tt_slots := xs @ Some (fresh_task (tt_next_id tt) k) # ys\<rparr>"
    using assms(3) table_spawn_free[of tt k] by auto
  note n = next_id_step[OF assms(2) wf_table_next_id[OF assms(1)]]
  have old: "ti_id t < tt_next_id tt" if "t \<in> set (tasks_of xs) \<union> set (tasks_of ys)" for t
    using that assms(1) split by (auto simp: wf_table_def wf_slots_def)
  then have "tt_next_id tt \<notin> ti_id ` (set (tasks_of xs) \<union> set (tasks_of ys))"
    by (metis imageE order.irrefl)
  then show ?thesis
    using assms(1) n wf_table_next_id[OF assms(1)] unfolding tt' wf_table_def wf_slots_def split
    by (auto simp: ids_of_def has_bootstrap_def fresh_task_def task_ok_def)
qed

section \<open>What a scheduling step does\<close>

definition ran :: "TaskInfo \<Rightarrow> TaskInfo" where
  "ran t = t\<lparr>ti_run_count := saturating_add (ti_run_count t) 1\<rparr>"

text \<open>A slot whose task is ready and has the highest priority of all ready tasks.\<close>

definition top_ready :: "slot list \<Rightarrow> nat \<Rightarrow> bool" where
  "top_ready ss i \<longleftrightarrow> i < length ss \<and>
     (\<exists>t. ss ! i = Some t \<and> ti_state t = Ready \<and>
        (\<forall>u \<in> set (tasks_of ss). ti_state u = Ready \<longrightarrow> ti_priority u \<le> ti_priority t))"

lemma select_priority_acc:
  "select_priority ss acc = None \<longleftrightarrow>
     acc = None \<and> (\<forall>t \<in> set (tasks_of ss). ti_state t \<noteq> Ready)"
  by (induction ss acc rule: select_priority.induct) auto

lemma select_priority_SomeD:
  "select_priority ss acc = Some p \<Longrightarrow>
     (acc = Some p \<or> (\<exists>t \<in> set (tasks_of ss). ti_state t = Ready \<and> ti_priority t = p)) \<and>
     (\<forall>t \<in> set (tasks_of ss). ti_state t = Ready \<longrightarrow> ti_priority t \<le> p) \<and>
     (\<forall>a. acc = Some a \<longrightarrow> a \<le> p)"
proof (induction ss acc rule: select_priority.induct)
  case (3 t ss acc)
  show ?case
  proof (cases "ti_state t = Ready")
    case True
    let ?acc = "Some (case acc of Some current \<Rightarrow> max current (ti_priority t) | None \<Rightarrow> ti_priority t)"
    have "select_priority ss ?acc = Some p"
      using "3.prems" True by simp
    then show ?thesis
      using "3.IH"(2) True by (cases acc) (auto simp: max_def split: if_splits)
  next
    case False
    then show ?thesis using "3.IH"(1) "3.prems" by auto
  qed
qed auto

lemma select_index_conv:
  "length ss = MAX_TASKS \<Longrightarrow>
   select_index ss rr p offsets =
     Ret (map_option (\<lambda>k. (rr + k) mod MAX_TASKS)
       (find (\<lambda>k. is_candidate p (ss ! ((rr + k) mod MAX_TASKS))) offsets))"
  by (induction offsets) (auto simp: MAX_TASKS_def)

lemma candidate_top_ready:
  assumes "select_priority ss None = Some p" "i < length ss"
  shows "is_candidate p (ss ! i) \<longleftrightarrow> top_ready ss i"
proof -
  have p: "\<exists>t \<in> set (tasks_of ss). ti_state t = Ready \<and> ti_priority t = p"
    "\<forall>t \<in> set (tasks_of ss). ti_state t = Ready \<longrightarrow> ti_priority t \<le> p"
    using select_priority_SomeD[OF assms(1)] by auto
  have mem: "ss ! i = Some t \<Longrightarrow> t \<in> set (tasks_of ss)" for t
    using assms(2) by (metis in_tasks_of_iff nth_mem)
  show ?thesis
  proof
    assume "is_candidate p (ss ! i)"
    then show "top_ready ss i"
      using p(2) assms(2) by (auto simp: is_candidate_def top_ready_def split: option.splits)
  next
    assume "top_ready ss i"
    then obtain t where t: "ss ! i = Some t" "ti_state t = Ready"
      "\<forall>u \<in> set (tasks_of ss). ti_state u = Ready \<longrightarrow> ti_priority u \<le> ti_priority t"
      by (auto simp: top_ready_def)
    then have "ti_priority t = p"
      using p mem[OF t(1)] by (auto intro: order.antisym)
    with t show "is_candidate p (ss ! i)"
      by (simp add: is_candidate_def)
  qed
qed

text \<open>The cyclic search returns the nearest such slot, going forward from the cursor.\<close>

lemma select_index_nearest:
  assumes "length ss = MAX_TASKS" "rr < MAX_TASKS" "select_priority ss None = Some p"
  shows "\<exists>i. select_index ss rr p [0..<MAX_TASKS] = Ret (Some i) \<and> top_ready ss i \<and>
    (\<forall>j. top_ready ss j \<longrightarrow> ring_dist MAX_TASKS rr i \<le> ring_dist MAX_TASKS rr j)"
proof -
  let ?pos = "\<lambda>k. (rr + k) mod MAX_TASKS"
  let ?P = "\<lambda>k. is_candidate p (ss ! ?pos k)"
  have pos: "?pos k < length ss" for k
    using assms(1,2) by simp
  then have P: "?P k \<longleftrightarrow> top_ready ss (?pos k)" for k
    by (rule candidate_top_ready[OF assms(3)])
  obtain t where "Some t \<in> set ss" "ti_state t = Ready" "ti_priority t = p"
    using select_priority_SomeD[OF assms(3)] by (auto simp: in_tasks_of_iff)
  then obtain j where j: "j < MAX_TASKS" "is_candidate p (ss ! j)"
    using assms(1) by (fastforce simp: in_set_conv_nth is_candidate_def)
  have dist: "ring_dist MAX_TASKS rr j < MAX_TASKS" "?pos (ring_dist MAX_TASKS rr j) = j"
    if "j < MAX_TASKS" for j
    using ring_dist_less[of MAX_TASKS rr j] ring_pos_dist[OF assms(2) that] that by auto
  have "find ?P [0..<MAX_TASKS] \<noteq> None"
    using j(2) dist[OF j(1)] by (metis atLeastLessThan_upt atLeast0LessThan find_None_iff lessThan_iff)
  then obtain k where "find ?P [0..<MAX_TASKS] = Some k" by auto
  then have k: "k < MAX_TASKS" "?P k" "\<And>m. m < k \<Longrightarrow> \<not> ?P m"
    and sel: "select_index ss rr p [0..<MAX_TASKS] = Ret (Some (?pos k))"
    by (auto simp: find_Some_iff select_index_conv[OF assms(1)])
  have "ring_dist MAX_TASKS rr (?pos k) \<le> ring_dist MAX_TASKS rr j" if "top_ready ss j" for j
  proof -
    have "j < MAX_TASKS"
      using that assms(1) by (simp add: top_ready_def)
    then have "?P (ring_dist MAX_TASKS rr j)"
      using that P dist by metis
    then show ?thesis
      using k(3) ring_dist_pos[OF assms(2) k(1)] by (metis not_le)
  qed
  then show ?thesis
    using sel k(2) P by blast
qed


lemma table_step_idle:
  assumes "\<forall>t \<in> set (tasks_of (woken now (tt_slots tt))). ti_state t \<noteq> Ready"
  shows "table_step now tt = Ret (None, tt\<lparr>tt_slots := woken now (tt_slots tt)\<rparr>)"
  using assms select_priority_acc[of "woken now (tt_slots tt)" None]
  by (simp add: table_step_def table_wake_due_conv Let_def)

lemma table_step_runs:
  assumes wf: "wf_table tt"
    and ready: "t0 \<in> set (tasks_of (woken now (tt_slots tt)))" "ti_state t0 = Ready"
  obtains i t where "woken now (tt_slots tt) ! i = Some t" "top_ready (woken now (tt_slots tt)) i"
    and "\<forall>j. top_ready (woken now (tt_slots tt)) j \<longrightarrow>
          ring_dist MAX_TASKS (tt_next_rr_index tt) i \<le> ring_dist MAX_TASKS (tt_next_rr_index tt) j"
    and "table_step now tt =
      Ret (Some \<lparr>sr_id = ti_id t, sr_kind = ti_kind t,
                 sr_run_count = saturating_add (ti_run_count t) 1\<rparr>,
           tt\<lparr>tt_slots := (woken now (tt_slots tt))[i := Some (ran t)],
              tt_next_rr_index := (i + 1) mod MAX_TASKS\<rparr>)"
proof -
  let ?ss = "woken now (tt_slots tt)" and ?rr = "tt_next_rr_index tt"
  have len: "length ?ss = MAX_TASKS" and rr: "?rr < MAX_TASKS"
    using wf by (auto simp: wf_table_def wf_slots_def)
  obtain p where p: "select_priority ?ss None = Some p"
    using ready select_priority_acc[of ?ss None] by fastforce
  obtain i where i: "select_index ?ss ?rr p [0..<MAX_TASKS] = Ret (Some i)" "top_ready ?ss i"
    "\<forall>j. top_ready ?ss j \<longrightarrow> ring_dist MAX_TASKS ?rr i \<le> ring_dist MAX_TASKS ?rr j"
    using select_index_nearest[OF len rr p] by blast
  then obtain t where t: "?ss ! i = Some t" "ti_state t = Ready" "i < length ?ss"
    by (auto simp: top_ready_def)
  then have "t \<in> set (tasks_of ?ss)"
    by (metis in_tasks_of_iff nth_mem)
  then have "task_ok t"
    using wf wf_slots_woken[of "tt_next_id tt" "tt_slots tt" now]
    by (auto simp: wf_table_def wf_slots_def)
  then have "ti_sleep_until_tick t = None"
    using t(2) by (simp add: task_ok_def)
  then have "t\<lparr>ti_run_count := saturating_add (ti_run_count t) 1, ti_state := Ready,
      ti_sleep_until_tick := None\<rparr> = ran t"
    using t(2) by (simp add: ran_def)
  then have "table_step now tt =
      Ret (Some \<lparr>sr_id = ti_id t, sr_kind = ti_kind t,
                 sr_run_count = saturating_add (ti_run_count t) 1\<rparr>,
           tt\<lparr>tt_slots := ?ss[i := Some (ran t)], tt_next_rr_index := (i + 1) mod MAX_TASKS\<rparr>)"
    using p i(1) t(1,3) by (simp add: table_step_def table_wake_due_conv Let_def)
  then show thesis
    using that t(1) i(2,3) by blast
qed

lemma tasks_of_update:
  "i < length ss \<Longrightarrow> ss ! i = Some t \<Longrightarrow>
   \<exists>xs ys. tasks_of ss = xs @ t # ys \<and> tasks_of (ss[i := Some t']) = xs @ t' # ys"
  by (rule exI[of _ "tasks_of (take i ss)"], rule exI[of _ "tasks_of (drop (Suc i) ss)"])
    (metis (no_types) Cons_nth_drop_Suc append_take_drop_id list_update_append_drop
      tasks_of.simps(3) tasks_of_append)

lemma ran_fields [simp]:
  "ti_id (ran t) = ti_id t" "ti_kind (ran t) = ti_kind t" "ti_state (ran t) = ti_state t"
  "ti_priority (ran t) = ti_priority t" "ti_sleep_until_tick (ran t) = ti_sleep_until_tick t"
  "task_ok (ran t) = task_ok t"
  by (simp_all add: ran_def task_ok_def)

lemma wf_slots_ran:
  assumes "wf_slots n ss" "i < length ss" "ss ! i = Some t"
  shows "wf_slots n (ss[i := Some (ran t)])"
proof -
  obtain xs ys where "tasks_of ss = xs @ t # ys" "tasks_of (ss[i := Some (ran t)]) = xs @ ran t # ys"
    using tasks_of_update[OF assms(2,3)] by blast
  then show ?thesis
    using assms(1) by (auto simp: wf_slots_def ids_of_def)
qed

lemma has_bootstrap_ran:
  assumes "i < length ss" "ss ! i = Some t"
  shows "has_bootstrap (ss[i := Some (ran t)]) \<longleftrightarrow> has_bootstrap ss"
proof -
  obtain xs ys where "tasks_of ss = xs @ t # ys" "tasks_of (ss[i := Some (ran t)]) = xs @ ran t # ys"
    using tasks_of_update[OF assms] by blast
  then show ?thesis
    by (auto simp: has_bootstrap_def)
qed

lemma table_step_total:
  assumes "wf_table tt"
  shows "\<exists>r tt'. table_step now tt = Ret (r, tt') \<and> wf_table tt' \<and> tt_next_id tt' = tt_next_id tt"
proof (cases "\<forall>t \<in> set (tasks_of (woken now (tt_slots tt))). ti_state t \<noteq> Ready")
  case True
  then show ?thesis
    using assms wf_table_wake_due[OF assms, of now] by (simp add: table_step_idle table_wake_due_conv)
next
  case False
  then obtain t0 where "t0 \<in> set (tasks_of (woken now (tt_slots tt)))" "ti_state t0 = Ready"
    by blast
  then obtain i t where "woken now (tt_slots tt) ! i = Some t" "top_ready (woken now (tt_slots tt)) i"
    and "table_step now tt =
      Ret (Some \<lparr>sr_id = ti_id t, sr_kind = ti_kind t,
                 sr_run_count = saturating_add (ti_run_count t) 1\<rparr>,
           tt\<lparr>tt_slots := (woken now (tt_slots tt))[i := Some (ran t)],
              tt_next_rr_index := (i + 1) mod MAX_TASKS\<rparr>)"
    using table_step_runs[OF assms] by metis
  then show ?thesis
    using assms by (auto simp: wf_table_def wf_slots_ran has_bootstrap_ran top_ready_def MAX_TASKS_def)
qed


section \<open>Sequences of steps and reachable tables\<close>

text \<open>
  The scheduling steps taken at a list of ticks, with their reports, until no task is ready:
  the loop of the monitor's \<open>taskrun\<close> command on the table.
\<close>

fun run_steps :: "u64 list \<Rightarrow> TaskTable \<Rightarrow> (TaskStepReport list \<times> TaskTable) run" where
  "run_steps [] tt = Ret ([], tt)"
| "run_steps (now # nows) tt =
     bind_run (table_step now tt) (\<lambda>(r, tt').
       case r of None \<Rightarrow> Ret ([], tt')
       | Some report \<Rightarrow>
           bind_run (run_steps nows tt') (\<lambda>(reports, tt''). Ret (report # reports, tt'')))"

text \<open>
  The tables the kernel can reach: the boot table, then any sequence of calls of the module's
  functions at any ticks. The only guard is on \<open>spawn\<close>: the id counter is not exhausted,
  which takes \<open>2 ^ 64 - 2\<close> spawns.
\<close>

inductive reachable :: "TaskTable \<Rightarrow> bool" where
  boot: "ensure_bootstrap_task table_new = Ret tt \<Longrightarrow> reachable tt"
| spawn: "reachable tt \<Longrightarrow> tt_next_id tt \<noteq> - 1 \<Longrightarrow> table_spawn k tt = Ret (r, tt') \<Longrightarrow> reachable tt'"
| step: "reachable tt \<Longrightarrow> table_step now tt = Ret (report, tt') \<Longrightarrow> reachable tt'"
| sleep: "reachable tt \<Longrightarrow> reachable (snd (table_sleep i ticks now tt))"
| wake: "reachable tt \<Longrightarrow> reachable (snd (table_wake i now tt))"
| remove: "reachable tt \<Longrightarrow> reachable (snd (table_remove i now tt))"
| set_priority: "reachable tt \<Longrightarrow> reachable (snd (table_set_priority i prio now tt))"

lemma reachable_wf: "reachable tt \<Longrightarrow> wf_table tt"
proof (induction rule: reachable.induct)
  case (step tt now report tt')
  then show ?case using table_step_total[of tt now] by auto
qed (auto intro: wf_boot_table table_spawn_wf table_sleep_wf table_wake_wf table_remove_wf
    table_set_priority_wf)

section \<open>The table as a round-robin scheduler\<close>

definition slot_of :: "TaskTable \<Rightarrow> u64 \<Rightarrow> nat option" where
  "slot_of tt i =
     find (\<lambda>k. case tt_slots tt ! k of Some t \<Rightarrow> ti_id t = i | None \<Rightarrow> False) [0..<MAX_TASKS]"

definition serve_slot :: "u64 \<Rightarrow> TaskTable \<Rightarrow> nat \<times> TaskTable" where
  "serve_slot now tt =
     (case table_step now tt of
        Ret (Some report, tt') \<Rightarrow> (the (slot_of tt (sr_id report)), tt')
      | Ret (None, tt') \<Rightarrow> (0, tt')
      | Panic e \<Rightarrow> (0, tt))"

text \<open>No sleeping task is due at the tick.\<close>

definition none_due :: "u64 \<Rightarrow> TaskTable \<Rightarrow> bool" where
  "none_due now tt \<longleftrightarrow> (\<forall>t \<in> set (tasks_of (tt_slots tt)). ti_state t = Sleeping \<longrightarrow> \<not> is_due now t)"

lemma woken_none_due:
  assumes "none_due now tt"
  shows "woken now (tt_slots tt) = tt_slots tt"
proof -
  have "map_option (wake_task now) s = s" if "s \<in> set (tt_slots tt)" for s
    using assms by (cases s) (use that in \<open>auto simp: none_due_def in_tasks_of_iff wake_task_def\<close>)
  then show ?thesis
    by (simp add: woken_def map_idI)
qed

lemma distinct_ids_slot:
  "distinct (ids_of ss) \<Longrightarrow> j < length ss \<Longrightarrow> k < length ss \<Longrightarrow>
   ss ! j = Some u \<Longrightarrow> ss ! k = Some t \<Longrightarrow> ti_id u = ti_id t \<Longrightarrow> j = k"
proof (induction ss arbitrary: j k rule: tasks_of.induct)
  case (2 ss)
  then show ?case
    by (cases j; cases k) (auto simp: ids_of_def)
next
  case (3 v ss)
  have "ti_id w \<noteq> ti_id v" if "w \<in> set (tasks_of ss)" for w
    using that "3.prems"(1) by (metis distinct.simps(2) ids_of_def image_eqI list.set_map list.simps(9) tasks_of.simps(3))
  then have "ti_id w \<noteq> ti_id v" if "m < length ss" "ss ! m = Some w" for m w
    using that by (metis in_tasks_of_iff nth_mem)
  with 3 show ?case
    by (cases j; cases k) (auto simp: ids_of_def)
qed simp

lemma slot_of_unique:
  assumes "wf_table tt" "k < MAX_TASKS" "tt_slots tt ! k = Some t"
  shows "slot_of tt (ti_id t) = Some k"
proof -
  let ?P = "\<lambda>k. case tt_slots tt ! k of Some u \<Rightarrow> ti_id u = ti_id t | None \<Rightarrow> False"
  have len: "length (tt_slots tt) = MAX_TASKS" and dist: "distinct (ids_of (tt_slots tt))"
    using assms(1) by (auto simp: wf_table_def wf_slots_def)
  have other: "j = k" if "j < MAX_TASKS" "tt_slots tt ! j = Some u" "ti_id u = ti_id t" for j u
    using distinct_ids_slot[OF dist, of j k u t] that assms(2,3) len by simp
  have "find ?P [0..<MAX_TASKS] \<noteq> None"
    using assms(2,3) by (auto simp: find_None_iff)
  then obtain m where "find ?P [0..<MAX_TASKS] = Some m" by auto
  moreover from this have "m < MAX_TASKS" "?P m"
    by (auto simp: find_Some_iff)
  then have "m = k"
    by (cases "tt_slots tt ! m") (simp_all add: other)
  ultimately show ?thesis
    by (simp add: slot_of_def)
qed

lemma serve_slot_step:
  assumes wf: "wf_table tt" and due: "none_due now tt" and top: "top_ready (tt_slots tt) j"
  obtains i t where "i < MAX_TASKS" "tt_slots tt ! i = Some t" "ti_state t = Ready"
    and "ring_dist MAX_TASKS (tt_next_rr_index tt) i \<le> ring_dist MAX_TASKS (tt_next_rr_index tt) j"
    and "table_step now tt =
      Ret (Some \<lparr>sr_id = ti_id t, sr_kind = ti_kind t,
                 sr_run_count = saturating_add (ti_run_count t) 1\<rparr>,
           tt\<lparr>tt_slots := (tt_slots tt)[i := Some (ran t)],
              tt_next_rr_index := (i + 1) mod MAX_TASKS\<rparr>)"
    and "serve_slot now tt =
      (i, tt\<lparr>tt_slots := (tt_slots tt)[i := Some (ran t)],
             tt_next_rr_index := (i + 1) mod MAX_TASKS\<rparr>)"
proof -
  note w = woken_none_due[OF due]
  obtain t0 where t0: "t0 \<in> set (tasks_of (tt_slots tt))" "ti_state t0 = Ready"
    using top by (metis in_tasks_of_iff nth_mem top_ready_def)
  obtain i t where i: "tt_slots tt ! i = Some t" "top_ready (tt_slots tt) i"
    "\<forall>j. top_ready (tt_slots tt) j \<longrightarrow>
       ring_dist MAX_TASKS (tt_next_rr_index tt) i \<le> ring_dist MAX_TASKS (tt_next_rr_index tt) j"
    "table_step now tt =
      Ret (Some \<lparr>sr_id = ti_id t, sr_kind = ti_kind t,
                 sr_run_count = saturating_add (ti_run_count t) 1\<rparr>,
           tt\<lparr>tt_slots := (tt_slots tt)[i := Some (ran t)],
              tt_next_rr_index := (i + 1) mod MAX_TASKS\<rparr>)"
    using table_step_runs[OF wf, of t0 now, unfolded w, OF t0] by metis
  have less: "i < MAX_TASKS"
    using i(2) wf by (simp add: top_ready_def wf_table_def wf_slots_def)
  show thesis
  proof (rule that)
    show "serve_slot now tt =
      (i, tt\<lparr>tt_slots := (tt_slots tt)[i := Some (ran t)],
             tt_next_rr_index := (i + 1) mod MAX_TASKS\<rparr>)"
      using i(4) slot_of_unique[OF wf less i(1)] by (simp add: serve_slot_def)
  qed (use i less top in \<open>auto simp: top_ready_def\<close>)
qed


lemma top_ready_ran:
  assumes "i < length ss" "ss ! i = Some t" "top_ready ss j"
  shows "top_ready (ss[i := Some (ran t)]) j"
proof -
  obtain xs ys where "tasks_of ss = xs @ t # ys" "tasks_of (ss[i := Some (ran t)]) = xs @ ran t # ys"
    using tasks_of_update[OF assms(1,2)] by blast
  then show ?thesis
    using assms by (cases "i = j") (auto simp: top_ready_def)
qed

lemma none_due_ran:
  assumes "i < length (tt_slots tt)" "tt_slots tt ! i = Some t" "none_due now tt"
  shows "none_due now (tt\<lparr>tt_slots := (tt_slots tt)[i := Some (ran t)], tt_next_rr_index := r\<rparr>)"
proof -
  obtain xs ys where "tasks_of (tt_slots tt) = xs @ t # ys"
    "tasks_of ((tt_slots tt)[i := Some (ran t)]) = xs @ ran t # ys"
    using tasks_of_update[OF assms(1,2)] by blast
  then show ?thesis
    using assms(3) by (auto simp: none_due_def is_due_def)
qed

lemma serve_slot_idle:
  assumes "none_due now tt" "\<forall>t \<in> set (tasks_of (tt_slots tt)). ti_state t \<noteq> Ready"
  shows "serve_slot now tt = (0, tt)"
  using assms by (simp add: serve_slot_def table_step_idle woken_none_due)

lemma exists_top_ready:
  assumes "t0 \<in> set (tasks_of ss)" "ti_state t0 = Ready"
  shows "\<exists>j. top_ready ss j"
proof -
  let ?R = "{t \<in> set (tasks_of ss). ti_state t = Ready}"
  have "Max (ti_priority ` ?R) \<in> ti_priority ` ?R"
    using assms by (intro Max_in) auto
  then obtain t where t: "t \<in> ?R" "ti_priority t = Max (ti_priority ` ?R)"
    by auto
  have "\<forall>u \<in> ?R. ti_priority u \<le> ti_priority t"
    using t(2) by simp
  moreover obtain j where "j < length ss" "ss ! j = Some t"
    using t(1) by (metis (mono_tags) in_set_conv_nth in_tasks_of_iff mem_Collect_eq)
  ultimately show ?thesis
    using t(1) by (auto simp: top_ready_def)
qed

lemma serve_slot_cases:
  assumes "wf_table tt" "none_due now tt"
  obtains (idle) "serve_slot now tt = (0, tt)"
  | (ran) i t where "i < MAX_TASKS" "tt_slots tt ! i = Some t"
      "serve_slot now tt =
        (i, tt\<lparr>tt_slots := (tt_slots tt)[i := Some (ran t)],
               tt_next_rr_index := (i + 1) mod MAX_TASKS\<rparr>)"
proof (cases "\<forall>t \<in> set (tasks_of (tt_slots tt)). ti_state t \<noteq> Ready")
  case True
  then show thesis using serve_slot_idle assms(2) idle by blast
next
  case False
  then obtain j where "top_ready (tt_slots tt) j"
    using exists_top_ready by blast
  then show thesis
    using serve_slot_step[OF assms] ran by metis
qed

lemmas wf_ran = wf_slots_ran has_bootstrap_ran top_ready_ran none_due_ran

interpretation sched: round_robin
  where n = MAX_TASKS and cursor = tt_next_rr_index and cand = "\<lambda>tt. top_ready (tt_slots tt)"
    and serve = serve_slot and ok = none_due and inv = wf_table
proof
  fix tt :: TaskTable and now now' :: u64 and i :: nat
  assume wf: "wf_table tt"
  then have len: "length (tt_slots tt) = MAX_TASKS"
    by (simp add: wf_table_def wf_slots_def)
  show "tt_next_rr_index tt < MAX_TASKS"
    using wf by (simp add: wf_table_def)
  assume due: "none_due now tt"
  show "wf_table (snd (serve_slot now tt))"
    by (rule serve_slot_cases[OF wf due])
      (use wf len in \<open>auto simp: wf_table_def wf_ran MAX_TASKS_def\<close>)
  show "none_due now' (snd (serve_slot now tt))" if "none_due now' tt"
    by (rule serve_slot_cases[OF wf due]) (use that len in \<open>auto simp: wf_ran\<close>)
  assume top: "top_ready (tt_slots tt) i"
  obtain j t where j: "j < MAX_TASKS" "tt_slots tt ! j = Some t"
    "ring_dist MAX_TASKS (tt_next_rr_index tt) j \<le> ring_dist MAX_TASKS (tt_next_rr_index tt) i"
    "serve_slot now tt =
      (j, tt\<lparr>tt_slots := (tt_slots tt)[j := Some (ran t)],
             tt_next_rr_index := (j + 1) mod MAX_TASKS\<rparr>)"
    using serve_slot_step[OF wf due top] by metis
  show "fst (serve_slot now tt) < MAX_TASKS"
    and "ring_dist MAX_TASKS (tt_next_rr_index tt) (fst (serve_slot now tt))
          \<le> ring_dist MAX_TASKS (tt_next_rr_index tt) i"
    and "tt_next_rr_index (snd (serve_slot now tt)) = (fst (serve_slot now tt) + 1) mod MAX_TASKS"
    and "top_ready (tt_slots (snd (serve_slot now tt))) i"
    using j len top by (simp_all add: wf_ran)
qed


lemma slot_of_ran:
  assumes "i < length (tt_slots tt)" "tt_slots tt ! i = Some t"
  shows "slot_of (tt\<lparr>tt_slots := (tt_slots tt)[i := Some (ran t)], tt_next_rr_index := r\<rparr>) = slot_of tt"
proof -
  have "(case (tt_slots tt)[i := Some (ran t)] ! k of Some u \<Rightarrow> ti_id u = j | None \<Rightarrow> False) =
        (case tt_slots tt ! k of Some u \<Rightarrow> ti_id u = j | None \<Rightarrow> False)" for k j
    using assms by (cases "i = k") auto
  then show ?thesis
    by (simp add: slot_of_def fun_eq_iff)
qed

lemma run_steps_served:
  "wf_table tt \<Longrightarrow> top_ready (tt_slots tt) j \<Longrightarrow> (\<And>now. now \<in> set nows \<Longrightarrow> none_due now tt) \<Longrightarrow>
   \<exists>reports tt'. run_steps nows tt = Ret (reports, tt') \<and>
     map (\<lambda>r. slot_of tt (sr_id r)) reports = map Some (served_by serve_slot nows tt)"
proof (induction nows arbitrary: tt)
  case Nil
  then show ?case by simp
next
  case (Cons now nows)
  have due: "none_due now tt" using Cons.prems(3) by simp
  obtain i t where i: "i < MAX_TASKS" "tt_slots tt ! i = Some t"
    and step: "table_step now tt =
      Ret (Some \<lparr>sr_id = ti_id t, sr_kind = ti_kind t,
                 sr_run_count = saturating_add (ti_run_count t) 1\<rparr>,
           tt\<lparr>tt_slots := (tt_slots tt)[i := Some (ran t)],
              tt_next_rr_index := (i + 1) mod MAX_TASKS\<rparr>)"
    and serve: "serve_slot now tt =
      (i, tt\<lparr>tt_slots := (tt_slots tt)[i := Some (ran t)],
             tt_next_rr_index := (i + 1) mod MAX_TASKS\<rparr>)"
    using serve_slot_step[OF Cons.prems(1) due Cons.prems(2)] by metis
  let ?tt = "tt\<lparr>tt_slots := (tt_slots tt)[i := Some (ran t)],
                tt_next_rr_index := (i + 1) mod MAX_TASKS\<rparr>"
  have len: "i < length (tt_slots tt)"
    using i(1) Cons.prems(1) by (simp add: wf_table_def wf_slots_def)
  have "wf_table ?tt"
    using sched.serve_inv[OF Cons.prems(1) due] serve by simp
  moreover have "top_ready (tt_slots ?tt) j"
    using top_ready_ran[OF len i(2) Cons.prems(2)] by simp
  moreover have "none_due now' ?tt" if "now' \<in> set nows" for now'
    using none_due_ran[OF len i(2)] Cons.prems(3) that by simp
  ultimately obtain reports tt' where "run_steps nows ?tt = Ret (reports, tt')"
    "map (\<lambda>r. slot_of ?tt (sr_id r)) reports = map Some (served_by serve_slot nows ?tt)"
    using Cons.IH by blast
  then show ?case
    using step serve slot_of_ran[OF len i(2)] slot_of_unique[OF Cons.prems(1) i] by simp
qed

lemma slot_of_id:
  "slot_of tt i = Some k \<Longrightarrow> tt_slots tt ! k = Some t \<Longrightarrow> ti_id t = i"
  by (auto simp: slot_of_def find_Some_iff)

section \<open>The abstract task map\<close>

text \<open>
  What the module promises its clients, with the slots forgotten: a map from ids to tasks. Each
  operation first wakes every due task, then reads and updates the entry of one id.
\<close>

type_synonym task_map = "u64 \<rightharpoonup> TaskInfo"

definition abs_wake_due :: "u64 \<Rightarrow> task_map \<Rightarrow> task_map" where
  "abs_wake_due now m = (\<lambda>i. map_option (wake_task now) (m i))"

definition abs_sleep :: "u64 \<Rightarrow> u64 \<Rightarrow> u64 \<Rightarrow> task_map \<Rightarrow> (u64, TaskError) result \<times> task_map" where
  "abs_sleep i ticks now m =
     (if ticks = 0 then (Inl SleepTicksZero, m)
      else case abs_wake_due now m i of
        None \<Rightarrow> (Inl TaskNotFound, abs_wake_due now m)
      | Some t \<Rightarrow> (Inr (saturating_add now ticks),
          (abs_wake_due now m)(i \<mapsto> t\<lparr>ti_state := Sleeping,
             ti_sleep_until_tick := Some (saturating_add now ticks)\<rparr>)))"

definition abs_wake :: "u64 \<Rightarrow> u64 \<Rightarrow> task_map \<Rightarrow> (TaskInfo, TaskError) result \<times> task_map" where
  "abs_wake i now m =
     (case abs_wake_due now m i of
        None \<Rightarrow> (Inl TaskNotFound, abs_wake_due now m)
      | Some t \<Rightarrow>
          if ti_state t = Sleeping
          then let t' = t\<lparr>ti_state := Ready, ti_sleep_until_tick := None\<rparr>
               in (Inr t', (abs_wake_due now m)(i \<mapsto> t'))
          else (Inl TaskNotSleeping, abs_wake_due now m))"

definition abs_remove :: "u64 \<Rightarrow> u64 \<Rightarrow> task_map \<Rightarrow> (TaskInfo, TaskError) result \<times> task_map" where
  "abs_remove i now m =
     (if i = 1 then (Inl CannotRemoveBootstrap, abs_wake_due now m)
      else case abs_wake_due now m i of
        None \<Rightarrow> (Inl TaskNotFound, abs_wake_due now m)
      | Some t \<Rightarrow> (Inr t, (abs_wake_due now m)(i := None)))"

definition abs_set_priority ::
  "u64 \<Rightarrow> u8 \<Rightarrow> u64 \<Rightarrow> task_map \<Rightarrow> (TaskInfo, TaskError) result \<times> task_map" where
  "abs_set_priority i p now m =
     (case abs_wake_due now m i of
        None \<Rightarrow> (Inl TaskNotFound, abs_wake_due now m)
      | Some t \<Rightarrow> (Inr (t\<lparr>ti_priority := p\<rparr>),
          (abs_wake_due now m)(i \<mapsto> t\<lparr>ti_priority := p\<rparr>)))"

definition abs_view :: "'r \<times> TaskTable \<Rightarrow> 'r \<times> task_map" where
  "abs_view = (\<lambda>(r, tt). (r, lookup_task tt))"

lemma lookup_taskD: "lookup_task tt i = Some t \<Longrightarrow> t \<in> set (tasks_of (tt_slots tt)) \<and> ti_id t = i"
  by (auto simp: lookup_task_def find_Some_iff)

lemma lookup_task_wake_due_fun:
  "lookup_task (snd (table_wake_due now tt)) = abs_wake_due now (lookup_task tt)"
  by (simp add: fun_eq_iff lookup_wake_due abs_wake_due_def)

lemma woken_not_running:
  assumes "wf_table tt" "abs_wake_due now (lookup_task tt) i = Some t"
  shows "ti_state t \<noteq> Running"
proof -
  have "t \<in> set (tasks_of (tt_slots (snd (table_wake_due now tt))))"
    using assms(2) lookup_taskD by (metis lookup_task_wake_due_fun)
  then show ?thesis
    using wf_table_wake_due[OF assms(1), of now] by (auto simp: wf_table_def wf_slots_def task_ok_def)
qed

lemma wf_table_slots: "wf_table tt \<Longrightarrow> wf_slots (tt_next_id tt) (tt_slots (snd (table_wake_due now tt)))"
  by (simp add: wf_table_def table_wake_due_conv)

lemmas abs_defs = abs_sleep_def abs_wake_def abs_remove_def abs_set_priority_def abs_view_def
lemmas body_defs = sleep_body_def wake_body_def remove_body_def priority_body_def

text \<open>Every operation built from a slot body refines the map update the body describes.\<close>

context slot_update
begin

lemma run_on_task_refines:
  assumes "wf_table tt"
  shows "abs_view (run_on_task i body (snd (table_wake_due now tt))) =
    (case abs_wake_due now (lookup_task tt) i of
       None \<Rightarrow> (Inl TaskNotFound, abs_wake_due now (lookup_task tt))
     | Some t \<Rightarrow> (fst (body t), (abs_wake_due now (lookup_task tt))(i := snd (body t))))"
  using run_on_task_lookup[OF wf_table_slots[OF assms, of now], of i]
  by (auto simp: abs_view_def split_beta lookup_task_wake_due_fun fun_upd_idem split: option.split)

end

lemma abs_view_sleep:
  assumes "wf_table tt"
  shows "abs_view (table_sleep i ticks now tt) = abs_sleep i ticks now (lookup_task tt)"
  using sleeping.run_on_task_refines[OF assms] woken_not_running[OF assms]
  by (auto simp: table_sleep_def abs_sleep_def sleep_body_def Let_def abs_view_def split: option.splits)

lemma abs_view_wake:
  assumes "wf_table tt"
  shows "abs_view (table_wake i now tt) = abs_wake i now (lookup_task tt)"
  using waking.run_on_task_refines[OF assms] woken_not_running[OF assms]
  by (auto simp: table_wake_def abs_wake_def wake_body_def Let_def fun_upd_idem split: option.splits)

lemma abs_view_remove:
  assumes "wf_table tt"
  shows "abs_view (table_remove i now tt) = abs_remove i now (lookup_task tt)"
  using removing.run_on_task_refines[OF assms] woken_not_running[OF assms]
  by (auto simp: table_remove_def abs_remove_def remove_body_def Let_def abs_view_def
      lookup_task_wake_due_fun split: option.splits)

lemma abs_view_set_priority:
  assumes "wf_table tt"
  shows "abs_view (table_set_priority i p now tt) = abs_set_priority i p now (lookup_task tt)"
  using prioritising.run_on_task_refines[OF assms] woken_not_running[OF assms]
  by (auto simp: table_set_priority_def abs_set_priority_def priority_body_def Let_def split: option.splits)

section \<open>Sleeping tasks, listings\<close>

lemma lookup_task_Some_iff:
  assumes "wf_slots n (tt_slots tt)"
  shows "lookup_task tt i = Some t \<longleftrightarrow> t \<in> set (tasks_of (tt_slots tt)) \<and> ti_id t = i"
proof
  show "lookup_task tt i = Some t \<Longrightarrow> t \<in> set (tasks_of (tt_slots tt)) \<and> ti_id t = i"
    by (rule lookup_taskD)
next
  assume t: "t \<in> set (tasks_of (tt_slots tt)) \<and> ti_id t = i"
  then obtain u where u: "lookup_task tt i = Some u"
    by (cases "lookup_task tt i") (auto simp: lookup_task_def find_None_iff)
  have "inj_on ti_id (set (tasks_of (tt_slots tt)))"
    using assms by (simp add: wf_slots_def ids_of_def distinct_map)
  then have "u = t"
    using t lookup_taskD[OF u] by (auto dest: inj_onD)
  with u show "lookup_task tt i = Some t" by simp
qed

lemma step_keeps_sleeper:
  assumes wf: "wf_table tt" and t: "lookup_task tt i = Some t"
    and asleep: "ti_state t = Sleeping" "ti_sleep_until_tick t = Some until" "now < until"
    and step: "table_step now tt = Ret (r, tt')"
  shows "lookup_task tt' i = Some t \<and> (\<forall>report. r = Some report \<longrightarrow> sr_id report \<noteq> i)"
proof -
  let ?tt = "tt\<lparr>tt_slots := woken now (tt_slots tt)\<rparr>"
  have wf': "wf_table ?tt"
    using wf_table_wake_due[OF wf, of now] by (simp add: table_wake_due_conv)
  have "lookup_task ?tt i = map_option (wake_task now) (lookup_task tt i)"
    using lookup_wake_due[of now tt i] by (simp add: table_wake_due_conv)
  then have t': "lookup_task ?tt i = Some t"
    using t asleep by (simp add: wake_task_def is_due_def not_le)
  show ?thesis
  proof (cases "\<forall>t \<in> set (tasks_of (woken now (tt_slots tt))). ti_state t \<noteq> Ready")
    case True
    then show ?thesis using step t' by (simp add: table_step_idle)
  next
    case False
    then obtain k u where k: "woken now (tt_slots tt) ! k = Some u"
      "top_ready (woken now (tt_slots tt)) k"
      "table_step now tt =
      Ret (Some \<lparr>sr_id = ti_id u, sr_kind = ti_kind u,
                 sr_run_count = saturating_add (ti_run_count u) 1\<rparr>,
           tt\<lparr>tt_slots := (woken now (tt_slots tt))[k := Some (ran u)],
              tt_next_rr_index := (k + 1) mod MAX_TASKS\<rparr>)"
      using table_step_runs[OF wf] by metis
    then have u: "ti_state u = Ready" "k < length (woken now (tt_slots tt))"
      by (auto simp: top_ready_def)
    then have "u \<in> set (tasks_of (tt_slots ?tt))"
      using k(1) by (metis TaskTable.select_convs(1) TaskTable.surjective TaskTable.update_convs(1)
          in_tasks_of_iff nth_mem)
    then have "lookup_task ?tt (ti_id u) = Some u"
      using wf' by (subst lookup_task_Some_iff[of "tt_next_id ?tt"]) (auto simp: wf_table_def)
    then have other: "ti_id u \<noteq> i"
      using t' u(1) asleep(1) by auto
    obtain xs ys where "tasks_of (woken now (tt_slots tt)) = xs @ u # ys"
      "tasks_of ((woken now (tt_slots tt))[k := Some (ran u)]) = xs @ ran u # ys"
      using tasks_of_update[OF u(2) k(1)] by blast
    then have "lookup_task tt' i = lookup_task ?tt i"
      using step k(3) other by (auto simp: lookup_task_def find_append split: option.split)
    then show ?thesis
      using step k(3) t' other by auto
  qed
qed

lemma run_steps_keep_sleeper:
  "wf_table tt \<Longrightarrow> lookup_task tt i = Some t \<Longrightarrow> ti_state t = Sleeping \<Longrightarrow>
   ti_sleep_until_tick t = Some until \<Longrightarrow> \<forall>now \<in> set nows. now < until \<Longrightarrow>
   run_steps nows tt = Ret (reports, tt') \<Longrightarrow>
   lookup_task tt' i = Some t \<and> i \<notin> set (map sr_id reports)"
proof (induction nows arbitrary: tt reports)
  case Nil
  then show ?case by simp
next
  case (Cons now nows)
  obtain r tt1 where step: "table_step now tt = Ret (r, tt1)" "wf_table tt1"
    using table_step_total[OF Cons.prems(1)] by blast
  have keep: "lookup_task tt1 i = Some t" "\<forall>report. r = Some report \<longrightarrow> sr_id report \<noteq> i"
    using step_keeps_sleeper[OF Cons.prems(1-4) _ step(1)] Cons.prems(5) by auto
  show ?case
  proof (cases r)
    case None
    then show ?thesis using step(1) keep Cons.prems(6) by simp
  next
    case (Some report)
    then obtain reports1 where "run_steps nows tt1 = Ret (reports1, tt')" "reports = report # reports1"
      using step(1) Cons.prems(6) by (auto simp: bind_run_Ret_iff)
    then show ?thesis
      using Cons.IH[OF step(2) keep(1) Cons.prems(3,4)] Cons.prems(5) keep(2) Some by simp
  qed
qed

lemma count_states_conv:
  "count_states ts (a, b, c, d) =
     (a + length ts, b + length (filter (\<lambda>t. ti_state t = Ready) ts),
      c + length (filter (\<lambda>t. ti_state t = Running) ts),
      d + length (filter (\<lambda>t. ti_state t = Sleeping) ts))"
  by (induction ts arbitrary: a b c d) (auto split: TaskState.splits)

lemma list_loop_conv:
  "count + length ts \<le> length out_slots \<Longrightarrow>
   list_loop ts count out_slots =
     Ret (count + length ts, take count out_slots @ map Some ts @ drop (count + length ts) out_slots)"
proof (induction ts arbitrary: count out_slots)
  case (Cons t ts)
  have "take (Suc count) (out_slots[count := Some t]) = take count out_slots @ [Some t]"
    using Cons.prems by (simp add: take_Suc_conv_app_nth)
  with Cons show ?case by simp
qed simp

section \<open>Properties\<close>

text \<open>
  C3. Invariant of the scheduler. In every table the kernel can reach by any sequence of the
  module's operations there are eight slots and the cursor is one of them, task ids are
  unique, at least 1 and below the next id, no task is left \<open>Running\<close>, a task has a wake-up
  tick exactly when it sleeps, and the bootstrap task (id 1, kernel monitor) is present.
\<close>
theorem reachable_invariant:
  assumes "reachable tt"
  shows "length (tt_slots tt) = MAX_TASKS \<and> tt_next_rr_index tt < MAX_TASKS \<and>
    distinct (map ti_id (tasks_of (tt_slots tt))) \<and>
    (\<forall>t \<in> set (tasks_of (tt_slots tt)).
       1 \<le> ti_id t \<and> ti_id t < tt_next_id tt \<and> ti_state t \<noteq> Running \<and>
       (ti_state t = Sleeping \<longleftrightarrow> ti_sleep_until_tick t \<noteq> None)) \<and>
    (\<exists>t \<in> set (tasks_of (tt_slots tt)). ti_id t = 1 \<and> ti_kind t = KernelMonitor)"
  using reachable_wf[OF assms]
  by (auto simp: wf_table_def wf_slots_def ids_of_def has_bootstrap_def task_ok_def)

definition demo_table :: TaskTable where
  "demo_table = \<lparr>tt_slots = [Some (fresh_task 1 KernelMonitor), Some (fresh_task 2 UserDemo),
     None, None, None, None, None, None], tt_next_id = 3, tt_next_rr_index = 0\<rparr>"

lemma tasks_of_demo_table [simp]:
  "tasks_of (tt_slots demo_table) = [fresh_task 1 KernelMonitor, fresh_task 2 UserDemo]"
  by (simp add: demo_table_def)

lemmas step_eval = table_step_def table_wake_due_def fresh_task_def is_due_def upt_rec MAX_TASKS_def
  is_candidate_def saturating_add_def Let_def arr_get_def arr_set_def DEFAULT_TASK_PRIORITY_def

lemma demo_table_reachable: "reachable demo_table"
proof -
  let ?boot = "\<lparr>tt_slots = [Some (fresh_task 1 KernelMonitor), None, None, None, None, None, None, None],
          tt_next_id = 2, tt_next_rr_index = 0\<rparr>"
  have "reachable ?boot"
    by (rule reachable.boot[OF ensure_bootstrap_task_new])
  moreover have "table_spawn UserDemo ?boot = Ret (Inr 2, demo_table)"
    by (simp add: table_spawn_def demo_table_def saturating_add_def arr_set_def)
  ultimately show ?thesis
    using reachable.spawn[of ?boot UserDemo "Inr 2" demo_table] by simp
qed

theorem reachable_invariant_witness:
  "reachable demo_table \<and> length (tt_slots demo_table) = MAX_TASKS \<and>
   distinct (map ti_id (tasks_of (tt_slots demo_table)))"
  using reachable_invariant[OF demo_table_reachable] demo_table_reachable by simp

text \<open>
  C4. No starvation. Take any reachable table and a ready task of the highest priority among
  the ready ones. Whatever the ticks of the following scheduling steps, as long as no
  sleeping task falls due in between, the steps run without panic and any eight consecutive
  ones include a run of this task.
\<close>
theorem step_no_starvation:
  assumes "reachable tt" and "t \<in> set (tasks_of (tt_slots tt))" and "ti_state t = Ready"
    and "\<And>u. u \<in> set (tasks_of (tt_slots tt)) \<Longrightarrow> ti_state u = Ready \<Longrightarrow> ti_priority u \<le> ti_priority t"
    and "\<And>now. now \<in> set nows \<Longrightarrow> none_due now tt" and "MAX_TASKS \<le> length nows"
  shows "\<exists>reports tt'. run_steps nows tt = Ret (reports, tt') \<and> ti_id t \<in> set (map sr_id reports)"
proof -
  have wf: "wf_table tt" using assms(1) by (rule reachable_wf)
  obtain k where k: "k < length (tt_slots tt)" "tt_slots tt ! k = Some t"
    using assms(2) by (metis in_set_conv_nth in_tasks_of_iff)
  then have kM: "k < MAX_TASKS" and top: "top_ready (tt_slots tt) k"
    using wf assms(3,4) by (auto simp: wf_table_def wf_slots_def top_ready_def)
  obtain reports tt' where run: "run_steps nows tt = Ret (reports, tt')"
    "map (\<lambda>r. slot_of tt (sr_id r)) reports = map Some (served_by serve_slot nows tt)"
    using run_steps_served[OF wf top assms(5)] by blast
  have "k \<in> set (served_by serve_slot nows tt)"
    using sched.no_starvation[OF wf top kM assms(5,6)] by simp
  then have "Some k \<in> set (map (\<lambda>r. slot_of tt (sr_id r)) reports)"
    unfolding run(2) by simp
  then obtain r where "r \<in> set reports" "slot_of tt (sr_id r) = Some k"
    by force
  then have "ti_id t \<in> set (map sr_id reports)"
    using slot_of_id[OF _ k(2)] by simp
  with run(1) show ?thesis by blast
qed

theorem step_no_starvation_witness:
  "\<exists>reports tt'. run_steps (replicate 8 7) demo_table = Ret (reports, tt') \<and>
     (2::u64) \<in> set (map sr_id reports)"
proof -
  have "\<exists>reports tt'. run_steps (replicate 8 7) demo_table = Ret (reports, tt') \<and>
     ti_id (fresh_task 2 UserDemo) \<in> set (map sr_id reports)"
    by (rule step_no_starvation[OF demo_table_reachable])
      (auto simp: fresh_task_def none_due_def MAX_TASKS_def)
  then show ?thesis by (simp add: fresh_task_def)
qed

text \<open>
  C16. The scheduling policy. A step from a reachable table never panics. With the due sleepers
  woken, it reports nothing exactly when no task is ready, and then changes nothing else;
  otherwise it runs a ready task of the highest priority, among those the first one at or
  after the cursor going round the ring, adds one to that task's saturating run count, leaves
  every other slot alone and puts the cursor just behind it.
\<close>
theorem step_policy:
  fixes now :: u64
  assumes "reachable tt"
  defines "ss \<equiv> map (map_option (wake_task now)) (tt_slots tt)"
  shows "case table_step now tt of
      Panic e \<Rightarrow> False
    | Ret (None, tt') \<Rightarrow>
        (\<forall>t \<in> set (tasks_of ss). ti_state t \<noteq> Ready) \<and> tt' = tt\<lparr>tt_slots := ss\<rparr>
    | Ret (Some report, tt') \<Rightarrow> (\<exists>i t. i < MAX_TASKS \<and> ss ! i = Some t \<and> ti_state t = Ready \<and>
        (\<forall>u \<in> set (tasks_of ss). ti_state u = Ready \<longrightarrow> ti_priority u \<le> ti_priority t) \<and>
        (\<forall>j u. j < MAX_TASKS \<and> ss ! j = Some u \<and> ti_state u = Ready \<and> ti_priority u = ti_priority t \<longrightarrow>
           ring_dist MAX_TASKS (tt_next_rr_index tt) i \<le> ring_dist MAX_TASKS (tt_next_rr_index tt) j) \<and>
        report = \<lparr>sr_id = ti_id t, sr_kind = ti_kind t,
                  sr_run_count = saturating_add (ti_run_count t) 1\<rparr> \<and>
        tt' = tt\<lparr>tt_slots := ss[i := Some (t\<lparr>ti_run_count := saturating_add (ti_run_count t) 1\<rparr>)],
                 tt_next_rr_index := (i + 1) mod MAX_TASKS\<rparr>)"
proof -
  have wf: "wf_table tt" using assms(1) by (rule reachable_wf)
  have ss: "ss = woken now (tt_slots tt)" by (simp add: ss_def woken_def)
  have len: "length ss = MAX_TASKS"
    using wf by (simp add: ss wf_table_def wf_slots_def)
  show ?thesis
  proof (cases "\<forall>t \<in> set (tasks_of ss). ti_state t \<noteq> Ready")
    case True
    then show ?thesis by (simp add: ss table_step_idle)
  next
    case False
    then obtain i t where i: "ss ! i = Some t" "top_ready ss i"
      and near: "\<forall>j. top_ready ss j \<longrightarrow> ring_dist MAX_TASKS (tt_next_rr_index tt) i
          \<le> ring_dist MAX_TASKS (tt_next_rr_index tt) j"
      and step: "table_step now tt =
      Ret (Some \<lparr>sr_id = ti_id t, sr_kind = ti_kind t,
                 sr_run_count = saturating_add (ti_run_count t) 1\<rparr>,
           tt\<lparr>tt_slots := ss[i := Some (ran t)], tt_next_rr_index := (i + 1) mod MAX_TASKS\<rparr>)"
      unfolding ss using table_step_runs[OF wf] by metis
    have top: "i < MAX_TASKS" "ti_state t = Ready"
      "\<forall>u \<in> set (tasks_of ss). ti_state u = Ready \<longrightarrow> ti_priority u \<le> ti_priority t"
      using i len by (auto simp: top_ready_def)
    have "top_ready ss j" if "j < MAX_TASKS" "ss ! j = Some u" "ti_state u = Ready"
      "ti_priority u = ti_priority t" for j u
      using that top(3) len by (simp add: top_ready_def)
    then show ?thesis
      unfolding step run.case prod.case option.case using i(1) top near
      by (intro exI[of _ i] exI[of _ t]) (simp add: ran_def)
  qed
qed

theorem step_policy_witness:
  "reachable demo_table \<and>
   (case table_step 7 demo_table of Panic e \<Rightarrow> False
    | Ret (None, tt') \<Rightarrow> False
    | Ret (Some report, tt') \<Rightarrow> sr_id report = 1 \<and> tt_next_rr_index tt' = 1)"
proof -
  have "table_step 7 demo_table \<noteq> Panic e" for e
    using step_policy[OF demo_table_reachable, of 7] by auto
  moreover have "case table_step 7 demo_table of Panic e \<Rightarrow> False
    | Ret (None, tt') \<Rightarrow> False
    | Ret (Some report, tt') \<Rightarrow> sr_id report = 1 \<and> tt_next_rr_index tt' = 1"
    by (simp add: demo_table_def step_eval)
  ultimately show ?thesis
    using demo_table_reachable by simp
qed

text \<open>
  C17. A sleeping task stays asleep until its tick. When \<open>sleep\<close> succeeds on a reachable
  table it returns the saturated wake-up tick, and no sequence of scheduling steps at ticks
  before it runs the task or changes its entry.
\<close>
theorem sleep_holds_until_tick:
  assumes "reachable tt" and "table_sleep i ticks now tt = (Inr until, tt1)"
    and "\<forall>now' \<in> set nows. now' < until" and "run_steps nows tt1 = Ret (reports, tt2)"
  shows "until = saturating_add now ticks \<and> i \<notin> set (map sr_id reports) \<and>
    lookup_task tt2 i = lookup_task tt1 i \<and>
    (\<exists>t. lookup_task tt1 i = Some t \<and> ti_state t = Sleeping \<and> ti_sleep_until_tick t = Some until)"
proof -
  have wf: "wf_table tt" using assms(1) by (rule reachable_wf)
  then have wf1: "wf_table tt1"
    using table_sleep_wf[of tt i ticks now] assms(2) by simp
  have "fst (abs_sleep i ticks now (lookup_task tt)) = Inr until"
    and "lookup_task tt1 = snd (abs_sleep i ticks now (lookup_task tt))"
    using abs_view_sleep[OF wf, of i ticks now, symmetric] assms(2) by (simp_all add: abs_view_def)
  then obtain t where "until = saturating_add now ticks" "lookup_task tt1 i = Some t"
    "ti_state t = Sleeping" "ti_sleep_until_tick t = Some until"
    by (auto simp: abs_sleep_def split: if_splits option.splits)
  then show ?thesis
    using run_steps_keep_sleeper[OF wf1 _ _ _ assms(3,4)] by auto
qed

theorem sleep_holds_until_tick_witness:
  "2 \<notin> set (map sr_id (case run_steps [5, 9] (snd (table_sleep 2 10 0 demo_table)) of
                        Ret (reports, _) \<Rightarrow> reports | Panic e \<Rightarrow> []))"
proof -
  let ?tt1 = "snd (table_sleep 2 10 0 demo_table)"
  have "fst (table_sleep 2 10 0 demo_table) = Inr 10"
    by (simp add: demo_table_def step_eval table_sleep_def run_on_task_def sleep_body_def)
  then have sl: "table_sleep 2 10 0 demo_table = (Inr 10, ?tt1)"
    by (simp add: prod_eq_iff)
  obtain reports tt2 where run: "run_steps [5, 9] ?tt1 = Ret (reports, tt2)"
  proof -
    have "(case run_steps [5, 9] ?tt1 of Ret _ \<Rightarrow> True | Panic e \<Rightarrow> False)"
      by (simp add: demo_table_def step_eval table_sleep_def run_on_task_def sleep_body_def)
    then show thesis using that by (auto split: run.splits)
  qed
  show ?thesis
    using sleep_holds_until_tick[OF demo_table_reachable sl _ run] run by simp
qed

text \<open>
  C18. Refinement. On reachable tables, \<open>sleep\<close>, \<open>wake\<close>, \<open>remove\<close> and \<open>set_priority\<close>
  implement the operations of the abstract task map, results and errors included: the slots,
  the order of the search and the cursor are invisible to a client.
\<close>
theorem table_refines_task_map:
  assumes "reachable tt"
  shows "abs_view (table_sleep i ticks now tt) = abs_sleep i ticks now (lookup_task tt) \<and>
    abs_view (table_wake i now tt) = abs_wake i now (lookup_task tt) \<and>
    abs_view (table_remove i now tt) = abs_remove i now (lookup_task tt) \<and>
    abs_view (table_set_priority i p now tt) = abs_set_priority i p now (lookup_task tt)"
  using reachable_wf[OF assms]
  by (simp add: abs_view_sleep abs_view_wake abs_view_remove abs_view_set_priority)

theorem table_refines_task_map_witness:
  "reachable demo_table \<and>
   abs_view (table_remove 2 0 demo_table) = abs_remove 2 0 (lookup_task demo_table)"
  using table_refines_task_map[OF demo_table_reachable] demo_table_reachable by blast

text \<open>
  C19. Creating a task. On a reachable table whose id counter is not exhausted, \<open>spawn\<close>
  fails exactly when all eight slots are taken, changing nothing; otherwise it returns the
  next id, which no task had, and adds one ready task with that id and no other change to the
  map of tasks.
\<close>
theorem spawn_adds_fresh_task:
  assumes "reachable tt" "tt_next_id tt \<noteq> - 1"
  shows "case table_spawn k tt of
      Panic e \<Rightarrow> False
    | Ret (Inl e, tt') \<Rightarrow> e = TaskTableFull \<and> tt' = tt \<and> length (tasks_of (tt_slots tt)) = MAX_TASKS
    | Ret (Inr i, tt') \<Rightarrow> length (tasks_of (tt_slots tt)) < MAX_TASKS \<and> i = tt_next_id tt \<and>
        lookup_task tt i = None \<and> lookup_task tt' = (lookup_task tt)(i \<mapsto> fresh_task i k) \<and>
        unat (tt_next_id tt') = unat (tt_next_id tt) + 1"
proof (cases "None \<in> set (tt_slots tt)")
  case False
  have "length (tasks_of ss) = length ss" if "None \<notin> set ss" for ss
    using that by (induction ss rule: tasks_of.induct) auto
  then show ?thesis
    using False reachable_wf[OF assms(1)] by (simp add: table_spawn_full wf_table_def wf_slots_def)
next
  case True
  then obtain xs ys where split: "tt_slots tt = xs @ None # ys"
    and sp: "table_spawn k tt = Ret (Inr (tt_next_id tt),
      tt\<lparr>tt_next_id := saturating_add (tt_next_id tt) 1,
         tt_slots := xs @ Some (fresh_task (tt_next_id tt) k) # ys\<rparr>)" (is "_ = Ret (_, ?tt')")
    using table_spawn_free by metis
  have wf: "wf_table tt" using assms(1) by (rule reachable_wf)
  have "ti_id t < tt_next_id tt" if "t \<in> set (tasks_of xs) \<union> set (tasks_of ys)" for t
    using that wf split by (auto simp: wf_table_def wf_slots_def)
  then have new: "ti_id t \<noteq> tt_next_id tt" if "t \<in> set (tasks_of xs) \<union> set (tasks_of ys)" for t
    using that by (metis order.irrefl)
  then have none: "lookup_task tt (tt_next_id tt) = None"
    using split by (auto simp: lookup_task_def find_None_iff)
  have "find (\<lambda>t. ti_id t = tt_next_id tt) (tasks_of xs) = None"
    using new by (auto simp: find_None_iff)
  then have "lookup_task ?tt' = (lookup_task tt)(tt_next_id tt \<mapsto> fresh_task (tt_next_id tt) k)"
    using split by (auto simp: fun_eq_iff lookup_task_def find_append fresh_task_def split: option.split)
  moreover have "length (tasks_of (tt_slots tt)) < MAX_TASKS"
    using split wf length_tasks_of_le[of xs] length_tasks_of_le[of ys]
    by (auto simp: wf_table_def wf_slots_def)
  moreover have "unat (tt_next_id tt) \<noteq> 2 ^ 64 - 1"
    using assms(2) word_unat_eq_iff[of "tt_next_id tt" "- 1"] unat_max_word[where 'a = 64] by simp
  then have "unat (saturating_add (tt_next_id tt) 1) = unat (tt_next_id tt) + 1"
    using unat_le_max[of "tt_next_id tt"] by (simp add: unat_saturating_add)
  ultimately show ?thesis
    using none by (simp add: sp)
qed

theorem spawn_adds_fresh_task_witness:
  "reachable demo_table \<and> tt_next_id demo_table \<noteq> - 1 \<and>
   (\<exists>tt'. table_spawn FastSyscallError demo_table = Ret (Inr 3, tt') \<and>
      lookup_task tt' = (lookup_task demo_table)(3 \<mapsto> fresh_task 3 FastSyscallError))"
proof -
  have n: "tt_next_id demo_table \<noteq> - 1" by (simp add: demo_table_def)
  obtain tt' where "table_spawn FastSyscallError demo_table = Ret (Inr 3, tt')"
    by (simp add: table_spawn_def demo_table_def Let_def)
  then show ?thesis
    using spawn_adds_fresh_task[OF demo_table_reachable n, of FastSyscallError] demo_table_reachable n
    by auto
qed

text \<open>
  The \<open>tasks\<close> listing. The snapshot of a reachable table counts every task once: total is
  ready plus sleeping, nothing is running and total is at most the capacity. \<open>list\<close> into
  an array of \<open>MAX_TASKS\<close> entries never indexes out of bounds, returns that total, and
  fills the front of the array with the tasks in slot order.
\<close>
lemma snapshot_and_list_agree:
  assumes "reachable tt" and "length out_slots = MAX_TASKS"
  shows "sn_total (table_snapshot tt) = sn_ready (table_snapshot tt) + sn_sleeping (table_snapshot tt) \<and>
    sn_running (table_snapshot tt) = 0 \<and>
    sn_total (table_snapshot tt) \<le> sn_capacity (table_snapshot tt) \<and>
    table_list tt out_slots =
      Ret (sn_total (table_snapshot tt),
           map Some (tasks_of (tt_slots tt)) @ drop (sn_total (table_snapshot tt)) out_slots)"
proof -
  let ?ts = "tasks_of (tt_slots tt)"
  have wf: "wf_table tt" using assms(1) by (rule reachable_wf)
  have le: "length ?ts \<le> MAX_TASKS"
    using length_tasks_of_le[of "tt_slots tt"] wf by (simp add: wf_table_def wf_slots_def)
  have run: "\<forall>t \<in> set ?ts. ti_state t \<noteq> Running"
    using wf by (simp add: wf_table_def wf_slots_def task_ok_def)
  have "length ts = length (filter (\<lambda>t. ti_state t = Ready) ts) +
      length (filter (\<lambda>t. ti_state t = Sleeping) ts)" if "\<forall>t \<in> set ts. ti_state t \<noteq> Running" for ts
    using that by (induction ts) (auto, metis TaskState.exhaust)
  note this[OF run]
  moreover have "filter (\<lambda>t. ti_state t = Running) ?ts = []"
    using run by (simp add: filter_empty_conv)
  ultimately show ?thesis
    using le assms(2) by (simp add: table_snapshot_def count_states_conv table_list_def list_loop_conv)
qed

end
