(* ===== verification/Keyboard.thy ===== *)
theory Keyboard
  imports Kernel_Prelude
begin

text \<open>
  The scancode decoder of \<open>kernel/src/keyboard.rs\<close>: set-1 scancodes to key events, with the
  state of the modifier keys and the \<open>0xE0\<close> prefix. The decoder produces ASCII characters
  only, so a Rust \<open>char\<close> is a HOL \<open>char\<close>.
\<close>

unbundle bit_operations_syntax

section \<open>Definitions\<close>

datatype KeyEvent =
    Key_Char char
  | Key_Ctrl char
  | Key_Alt char
  | Key_CtrlAlt char
  | Key_Enter
  | Key_Backspace
  | Key_Tab
  | Key_Escape
  | Key_ArrowUp
  | Key_ArrowDown
  | Key_ArrowLeft
  | Key_ArrowRight
  | Key_WordLeft
  | Key_WordRight
  | Key_Insert
  | Key_Delete
  | Key_WordDeleteLeft
  | Key_WordDeleteRight
  | Key_Home
  | Key_End
  | Key_PageUp
  | Key_PageDown
  | Key_Function u8
  | Key_Unknown u8

record KeyboardDecoder =
  kd_extended :: bool
  kd_left_shift :: bool
  kd_right_shift :: bool
  kd_left_ctrl :: bool
  kd_right_ctrl :: bool
  kd_left_alt :: bool
  kd_right_alt :: bool
  kd_caps_lock :: bool

definition decoder_new :: KeyboardDecoder where
  "decoder_new = \<lparr>kd_extended = False, kd_left_shift = False, kd_right_shift = False,
     kd_left_ctrl = False, kd_right_ctrl = False, kd_left_alt = False, kd_right_alt = False,
     kd_caps_lock = False\<rparr>"

definition to_ascii_uppercase :: "char \<Rightarrow> char" where
  "to_ascii_uppercase c =
     (if 97 \<le> (of_char c :: nat) \<and> (of_char c :: nat) \<le> 122 then char_of ((of_char c :: nat) - 32) else c)"

definition shift_active :: "KeyboardDecoder \<Rightarrow> bool" where
  "shift_active d \<longleftrightarrow> kd_left_shift d \<or> kd_right_shift d"

definition ctrl_active :: "KeyboardDecoder \<Rightarrow> bool" where
  "ctrl_active d \<longleftrightarrow> kd_left_ctrl d \<or> kd_right_ctrl d"

definition alt_active :: "KeyboardDecoder \<Rightarrow> bool" where
  "alt_active d \<longleftrightarrow> kd_left_alt d \<or> kd_right_alt d"

definition classify_char :: "KeyboardDecoder \<Rightarrow> char \<Rightarrow> KeyEvent" where
  "classify_char d c =
     (case (ctrl_active d, alt_active d) of
        (True, True) \<Rightarrow> Key_CtrlAlt c
      | (True, False) \<Rightarrow> Key_Ctrl c
      | (False, True) \<Rightarrow> Key_Alt c
      | (False, False) \<Rightarrow> Key_Char c)"

definition letter_codes :: "(u8 \<times> char) list" where
  "letter_codes =
     [(0x1E, CHR ''a''), (0x30, CHR ''b''), (0x2E, CHR ''c''), (0x20, CHR ''d''), (0x12, CHR ''e''),
      (0x21, CHR ''f''), (0x22, CHR ''g''), (0x23, CHR ''h''), (0x17, CHR ''i''), (0x24, CHR ''j''),
      (0x25, CHR ''k''), (0x26, CHR ''l''), (0x32, CHR ''m''), (0x31, CHR ''n''), (0x18, CHR ''o''),
      (0x19, CHR ''p''), (0x10, CHR ''q''), (0x13, CHR ''r''), (0x1F, CHR ''s''), (0x14, CHR ''t''),
      (0x16, CHR ''u''), (0x2F, CHR ''v''), (0x11, CHR ''w''), (0x2D, CHR ''x''), (0x15, CHR ''y''),
      (0x2C, CHR ''z'')]"

definition decode_letter :: "u8 \<Rightarrow> char option" where
  "decode_letter code = map_of letter_codes code"

definition symbol_codes :: "(u8 \<times> char \<times> char) list" where
  "symbol_codes =
     [(0x02, CHR ''1'', CHR ''!''), (0x03, CHR ''2'', CHR ''@''), (0x04, CHR ''3'', CHR ''#''),
      (0x05, CHR ''4'', CHR ''$''), (0x06, CHR ''5'', CHR ''%''), (0x07, CHR ''6'', CHR ''^''),
      (0x08, CHR ''7'', CHR ''&''), (0x09, CHR ''8'', CHR ''*''), (0x0A, CHR ''9'', CHR ''(''),
      (0x0B, CHR ''0'', CHR '')''), (0x39, CHR '' '', CHR '' ''), (0x0C, CHR ''-'', CHR ''_''),
      (0x0D, CHR ''='', CHR ''+''), (0x1A, CHR ''['', CHR ''{''), (0x1B, CHR '']'', CHR ''}''),
      (0x27, CHR '';'', CHR '':''), (0x28, CHR 0x27, CHR 0x22), (0x29, CHR 0x60, CHR ''~''),
      (0x2B, CHR 0x5C, CHR ''|''), (0x33, CHR '','', CHR ''<''), (0x34, CHR ''.'', CHR ''>''),
      (0x35, CHR ''/'', CHR ''?'')]"

definition decode_symbol_pair :: "u8 \<Rightarrow> (char \<times> char) option" where
  "decode_symbol_pair code = map_of symbol_codes code"

definition decode_extended ::
  "u8 \<Rightarrow> KeyboardDecoder \<Rightarrow> KeyEvent option \<times> KeyboardDecoder" where
  "decode_extended scancode d =
     (let released = scancode AND 0x80 \<noteq> 0; code = scancode AND 0x7f
      in if code = 0x1D then (None, d\<lparr>kd_right_ctrl := \<not> released\<rparr>)
         else if code = 0x38 then (None, d\<lparr>kd_right_alt := \<not> released\<rparr>)
         else if released then (None, d)
         else if code = 0x48 then (Some Key_ArrowUp, d)
         else if code = 0x50 then (Some Key_ArrowDown, d)
         else if code = 0x4B then (Some (if ctrl_active d then Key_WordLeft else Key_ArrowLeft), d)
         else if code = 0x4D then (Some (if ctrl_active d then Key_WordRight else Key_ArrowRight), d)
         else if code = 0x52 then (Some Key_Insert, d)
         else if code = 0x53 then (Some (if ctrl_active d then Key_WordDeleteRight else Key_Delete), d)
         else if code = 0x47 then (Some Key_Home, d)
         else if code = 0x4F then (Some Key_End, d)
         else if code = 0x49 then (Some Key_PageUp, d)
         else if code = 0x51 then (Some Key_PageDown, d)
         else (Some (Key_Unknown scancode), d))"

text \<open>The last match of \<open>feed\<close>: keys that are neither letters nor symbols.\<close>

definition decode_other :: "u8 \<Rightarrow> u8 \<Rightarrow> KeyboardDecoder \<Rightarrow> KeyEvent" where
  "decode_other scancode code d =
     (if code = 0x1C then Key_Enter
      else if code = 0x0E then (if ctrl_active d then Key_WordDeleteLeft else Key_Backspace)
      else if code = 0x0F then Key_Tab
      else if code = 0x01 then Key_Escape
      else if 0x3B \<le> code \<and> code \<le> 0x44 then Key_Function (code - 0x3A)
      else if code = 0x57 then Key_Function 11
      else if code = 0x58 then Key_Function 12
      else Key_Unknown scancode)"

definition feed :: "u8 \<Rightarrow> KeyboardDecoder \<Rightarrow> KeyEvent option \<times> KeyboardDecoder" where
  "feed scancode d =
     (if scancode = 0xE0 then (None, d\<lparr>kd_extended := True\<rparr>)
      else if kd_extended d then decode_extended scancode (d\<lparr>kd_extended := False\<rparr>)
      else
        (let released = scancode AND 0x80 \<noteq> 0; code = scancode AND 0x7f
         in if code = 0x2A then (None, d\<lparr>kd_left_shift := \<not> released\<rparr>)
            else if code = 0x36 then (None, d\<lparr>kd_right_shift := \<not> released\<rparr>)
            else if code = 0x1D then (None, d\<lparr>kd_left_ctrl := \<not> released\<rparr>)
            else if code = 0x38 then (None, d\<lparr>kd_left_alt := \<not> released\<rparr>)
            else if code = 0x3A then
              (None, if \<not> released then d\<lparr>kd_caps_lock := \<not> kd_caps_lock d\<rparr> else d)
            else if released then (None, d)
            else (case decode_letter code of
                Some letter \<Rightarrow>
                  (let upper = (shift_active d \<noteq> kd_caps_lock d);
                       character = (if upper then to_ascii_uppercase letter else letter)
                   in (Some (classify_char d character), d))
              | None \<Rightarrow>
                  (case decode_symbol_pair code of
                     Some (normal, shifted) \<Rightarrow>
                       (let ch = (if shift_active d then shifted else normal)
                        in (Some (classify_char d ch), d))
                   | None \<Rightarrow> (Some (decode_other scancode code d), d)))))"

fun feed_all :: "u8 list \<Rightarrow> KeyboardDecoder \<Rightarrow> KeyEvent list \<times> KeyboardDecoder" where
  "feed_all [] d = ([], d)"
| "feed_all (sc # scs) d =
     (let (e, d') = feed sc d; (es, d'') = feed_all scs d'
      in (case e of None \<Rightarrow> es | Some ev \<Rightarrow> ev # es, d''))"

section \<open>What the scancodes say about the keys\<close>

text \<open>
  A scancode sequence read as key strokes: the prefix \<open>0xE0\<close> marks the next byte as extended,
  every other byte is one stroke, its top bit telling release from press.
\<close>

fun strokes :: "bool \<Rightarrow> u8 list \<Rightarrow> (bool \<times> u8) list" where
  "strokes ext [] = []"
| "strokes ext (sc # scs) =
     (if sc = 0xE0 then strokes True scs else (ext, sc) # strokes False scs)"

definition is_press :: "u8 \<Rightarrow> bool" where
  "is_press sc \<longleftrightarrow> sc AND 0x80 = 0"

definition is_key :: "bool \<Rightarrow> u8 \<Rightarrow> bool \<times> u8 \<Rightarrow> bool" where
  "is_key ext code k \<longleftrightarrow> fst k = ext \<and> snd k AND 0x7f = code"

text \<open>A key is held when its last stroke was a press; otherwise it keeps the initial state.\<close>

definition held :: "bool \<Rightarrow> bool \<Rightarrow> u8 \<Rightarrow> (bool \<times> u8) list \<Rightarrow> bool" where
  "held start ext code ks =
     (case filter (is_key ext code) (rev ks) of [] \<Rightarrow> start | k # _ \<Rightarrow> is_press (snd k))"

definition presses :: "bool \<Rightarrow> u8 \<Rightarrow> (bool \<times> u8) list \<Rightarrow> nat" where
  "presses ext code ks = length (filter (\<lambda>k. is_key ext code k \<and> is_press (snd k)) ks)"

lemma held_Cons:
  "held start ext code (k # ks) =
   held (if is_key ext code k then is_press (snd k) else start) ext code ks"
  by (auto simp: held_def split: list.split)

lemma held_Nil [simp]: "held start ext code [] = start"
  by (simp add: held_def)

text \<open>The state after a scancode, without the event.\<close>

lemma feed_state_plain:
  assumes "sc \<noteq> 0xE0" "\<not> kd_extended d"
  shows "snd (feed sc d) =
    (let code = sc AND 0x7f in
      if code = 0x2A then d\<lparr>kd_left_shift := is_press sc\<rparr>
      else if code = 0x36 then d\<lparr>kd_right_shift := is_press sc\<rparr>
      else if code = 0x1D then d\<lparr>kd_left_ctrl := is_press sc\<rparr>
      else if code = 0x38 then d\<lparr>kd_left_alt := is_press sc\<rparr>
      else if code = 0x3A \<and> is_press sc then d\<lparr>kd_caps_lock := \<not> kd_caps_lock d\<rparr>
      else d)"
  using assms
  by (simp add: feed_def Let_def is_press_def split_beta split: option.split)

lemma feed_state_extended:
  assumes "sc \<noteq> 0xE0" "kd_extended d"
  shows "snd (feed sc d) =
    (let code = sc AND 0x7f; d' = d\<lparr>kd_extended := False\<rparr> in
      if code = 0x1D then d'\<lparr>kd_right_ctrl := is_press sc\<rparr>
      else if code = 0x38 then d'\<lparr>kd_right_alt := is_press sc\<rparr>
      else d')"
  using assms by (simp add: feed_def decode_extended_def Let_def is_press_def)

lemma feed_prefix: "feed 0xE0 d = (None, d\<lparr>kd_extended := True\<rparr>)"
  by (simp add: feed_def)

text \<open>One scancode moves each modifier exactly as the stroke it completes says.\<close>

lemma feed_modifiers:
  assumes "sc \<noteq> 0xE0"
  shows "kd_left_shift (snd (feed sc d)) = held (kd_left_shift d) False 0x2A [(kd_extended d, sc)]"
    and "kd_right_shift (snd (feed sc d)) = held (kd_right_shift d) False 0x36 [(kd_extended d, sc)]"
    and "kd_left_ctrl (snd (feed sc d)) = held (kd_left_ctrl d) False 0x1D [(kd_extended d, sc)]"
    and "kd_right_ctrl (snd (feed sc d)) = held (kd_right_ctrl d) True 0x1D [(kd_extended d, sc)]"
    and "kd_left_alt (snd (feed sc d)) = held (kd_left_alt d) False 0x38 [(kd_extended d, sc)]"
    and "kd_right_alt (snd (feed sc d)) = held (kd_right_alt d) True 0x38 [(kd_extended d, sc)]"
    and "kd_caps_lock (snd (feed sc d)) = (kd_caps_lock d \<noteq> odd (presses False 0x3A [(kd_extended d, sc)]))"
    and "kd_extended (snd (feed sc d)) = False"
  by (cases "kd_extended d";
      simp add: assms feed_state_plain feed_state_extended held_Cons is_key_def presses_def Let_def)+

lemma feed_prefix_fields:
  "kd_extended (snd (feed 0xE0 d))" "kd_left_shift (snd (feed 0xE0 d)) = kd_left_shift d"
  "kd_right_shift (snd (feed 0xE0 d)) = kd_right_shift d"
  "kd_left_ctrl (snd (feed 0xE0 d)) = kd_left_ctrl d"
  "kd_right_ctrl (snd (feed 0xE0 d)) = kd_right_ctrl d"
  "kd_left_alt (snd (feed 0xE0 d)) = kd_left_alt d"
  "kd_right_alt (snd (feed 0xE0 d)) = kd_right_alt d"
  "kd_caps_lock (snd (feed 0xE0 d)) = kd_caps_lock d"
  by (simp_all add: feed_prefix)

lemma snd_feed_all_Cons: "snd (feed_all (sc # scs) d) = snd (feed_all scs (snd (feed sc d)))"
  by (simp add: split_beta)

text \<open>A flag that follows the strokes one by one follows them over any sequence.\<close>

lemma feed_all_held:
  assumes step: "\<And>sc d. sc \<noteq> 0xE0 \<Longrightarrow> f (snd (feed sc d)) = held (f d) ext code [(kd_extended d, sc)]"
    and prefix: "\<And>d. f (snd (feed 0xE0 d)) = f d"
  shows "f (snd (feed_all scs d)) = held (f d) ext code (strokes (kd_extended d) scs)"
proof (induction scs arbitrary: d)
  case (Cons sc scs)
  show ?case
  proof (cases "sc = 0xE0")
    case True
    with Cons show ?thesis by (simp add: snd_feed_all_Cons prefix feed_prefix_fields del: feed_all.simps)
  next
    case False
    with Cons show ?thesis
      by (simp add: snd_feed_all_Cons step feed_modifiers(8) held_Cons del: feed_all.simps)
  qed
qed simp

lemma presses_Cons: "presses ext code (k # ks) = presses ext code [k] + presses ext code ks"
  by (simp add: presses_def)

lemma feed_all_caps:
  "kd_caps_lock (snd (feed_all scs d)) =
   (kd_caps_lock d \<noteq> odd (presses False 0x3A (strokes (kd_extended d) scs)))"
proof (induction scs arbitrary: d)
  case Nil
  then show ?case by (simp add: presses_def)
next
  case (Cons sc scs)
  show ?case
  proof (cases "sc = 0xE0")
    case True
    with Cons show ?thesis by (simp add: snd_feed_all_Cons feed_prefix_fields del: feed_all.simps)
  next
    case False
    then show ?thesis
      using Cons[of "snd (feed sc d)"] presses_Cons[of False "0x3A" "(kd_extended d, sc)" "strokes False scs"]
      by (auto simp: snd_feed_all_Cons feed_modifiers(7,8)[OF False] simp del: feed_all.simps)
  qed
qed

section \<open>Events\<close>

definition printable :: "char \<Rightarrow> bool" where
  "printable c \<longleftrightarrow> 32 \<le> (of_char c :: nat) \<and> (of_char c :: nat) \<le> 126"

fun event_ok :: "KeyEvent \<Rightarrow> bool" where
  "event_ok (Key_Char c) = printable c"
| "event_ok (Key_Ctrl c) = printable c"
| "event_ok (Key_Alt c) = printable c"
| "event_ok (Key_CtrlAlt c) = printable c"
| "event_ok (Key_Function n) = (1 \<le> n \<and> n \<le> 12)"
| "event_ok _ = True"

lemma printable_letter:
  "decode_letter code = Some c \<Longrightarrow> printable c \<and> printable (to_ascii_uppercase c)"
  unfolding decode_letter_def
  by (drule map_of_SomeD) (auto simp: letter_codes_def printable_def to_ascii_uppercase_def)

lemma printable_symbol:
  "decode_symbol_pair code = Some (c, c') \<Longrightarrow> printable c \<and> printable c'"
  unfolding decode_symbol_pair_def
  by (drule map_of_SomeD) (auto simp: symbol_codes_def printable_def)

lemma event_ok_classify: "event_ok (classify_char d c) = printable c"
  by (simp add: classify_char_def split: bool.split)

lemma event_ok_other: "event_ok (decode_other sc code d)"
proof -
  have "1 \<le> code - 0x3A \<and> code - 0x3A \<le> 12" if "0x3B \<le> code" "code \<le> 0x44" for code :: u8
    using that by unat_arith
  then show ?thesis by (simp add: decode_other_def)
qed

lemma feed_event_ok: "fst (feed sc d) = Some e \<Longrightarrow> event_ok e"
  by (auto simp: feed_def decode_extended_def Let_def event_ok_classify event_ok_other
      dest!: printable_letter printable_symbol split: if_splits option.splits)

lemma feed_release: "\<not> is_press sc \<Longrightarrow> fst (feed sc d) = None"
  by (simp add: feed_def decode_extended_def Let_def is_press_def)


section \<open>The key map\<close>

text \<open>
  The key strokes that type a character on an idle decoder: its own key, for an upper-case letter
  or a shifted symbol between a press and a release of the left shift key.
\<close>

definition key_of :: "char \<Rightarrow> (bool \<times> u8) option" where
  "key_of c =
     map_of (map (\<lambda>(code, l). (l, (False, code))) letter_codes @
             map (\<lambda>(code, l). (to_ascii_uppercase l, (True, code))) letter_codes @
             map (\<lambda>(code, n, s). (n, (False, code))) symbol_codes @
             map (\<lambda>(code, n, s). (s, (True, code))) symbol_codes) c"

definition type_char :: "char \<Rightarrow> u8 list" where
  "type_char c =
     (case key_of c of
        None \<Rightarrow> []
      | Some (False, code) \<Rightarrow> [code, code OR 0x80]
      | Some (True, code) \<Rightarrow> [0x2A, code, code OR 0x80, 0xAA])"

definition printable_chars :: "char list" where
  "printable_chars = map char_of [32..<127::nat]"


lemma of_char_in_range: "printable c \<Longrightarrow> c \<in> set printable_chars"
proof -
  assume "printable c"
  then have "(of_char c :: nat) \<in> set [32..<127]" by (auto simp: printable_def simp del: upt_rec_numeral)
  then have "char_of (of_char c :: nat) \<in> set printable_chars"
    unfolding printable_chars_def by (metis imageI set_map)
  then show ?thesis by simp
qed

lemma printable_chars_typed:
  "list_all (\<lambda>c. feed_all (type_char c) decoder_new = ([Key_Char c], decoder_new)) printable_chars"
  by code_simp


lemma feed_all_append:
  "feed_all (xs @ ys) d =
   (let (es, d') = feed_all xs d; (fs, d'') = feed_all ys d' in (es @ fs, d''))"
  by (induction xs arbitrary: d) (auto simp: Let_def split_beta split: option.split)

lemma type_char_typed:
  "printable c \<Longrightarrow> feed_all (type_char c) decoder_new = ([Key_Char c], decoder_new)"
  using of_char_in_range[of c] printable_chars_typed by (auto simp: list_all_iff)

text \<open>
  Any text of printable ASCII characters can be typed: its key strokes, fed to a fresh
  decoder, produce exactly the characters of the text in order and leave the decoder idle.
\<close>

lemma printable_text_typed:
  "list_all printable chars \<Longrightarrow>
   feed_all (concat (map type_char chars)) decoder_new = (map Key_Char chars, decoder_new)"
proof (induction chars)
  case (Cons c chars)
  then have "feed_all (type_char c) decoder_new = ([Key_Char c], decoder_new)"
    by (intro type_char_typed) simp
  with Cons show ?case by (simp add: feed_all_append)
qed simp

section \<open>Properties\<close>

text \<open>
  C28. Over any sequence of scancodes, from a decoder that is not inside an extended sequence,
  each modifier flag says whether the last stroke of its key was a press, and caps lock has been
  toggled once for every press of its key: the flags never drift from the keyboard, whatever other
  keys, prefixes or releases are interleaved.
\<close>

theorem modifiers_follow_strokes:
  fixes scs :: "u8 list"
  defines "d' \<equiv> \<lambda>d. snd (feed_all scs d)"
    and "ks \<equiv> strokes False scs"
  assumes "\<not> kd_extended d"
  shows "shift_active (d' d) = (held (kd_left_shift d) False 0x2A ks \<or> held (kd_right_shift d) False 0x36 ks) \<and>
    ctrl_active (d' d) = (held (kd_left_ctrl d) False 0x1D ks \<or> held (kd_right_ctrl d) True 0x1D ks) \<and>
    alt_active (d' d) = (held (kd_left_alt d) False 0x38 ks \<or> held (kd_right_alt d) True 0x38 ks) \<and>
    kd_caps_lock (d' d) = (kd_caps_lock d \<noteq> odd (presses False 0x3A ks))"
  using assms(3) unfolding d'_def ks_def shift_active_def ctrl_active_def alt_active_def
  by (simp add: feed_all_caps feed_all_held[where f = kd_left_shift, OF feed_modifiers(1) feed_prefix_fields(2)]
      feed_all_held[where f = kd_right_shift, OF feed_modifiers(2) feed_prefix_fields(3)]
      feed_all_held[where f = kd_left_ctrl, OF feed_modifiers(3) feed_prefix_fields(4)]
      feed_all_held[where f = kd_right_ctrl, OF feed_modifiers(4) feed_prefix_fields(5)]
      feed_all_held[where f = kd_left_alt, OF feed_modifiers(5) feed_prefix_fields(6)]
      feed_all_held[where f = kd_right_alt, OF feed_modifiers(6) feed_prefix_fields(7)])

text \<open>Right ctrl pressed, left shift pressed and released, caps lock pressed.\<close>

theorem modifiers_follow_strokes_witness:
  "\<not> kd_extended decoder_new \<and>
   ctrl_active (snd (feed_all [0xE0, 0x1D, 0x2A, 0xAA, 0x3A, 0xBA] decoder_new)) \<and>
   \<not> shift_active (snd (feed_all [0xE0, 0x1D, 0x2A, 0xAA, 0x3A, 0xBA] decoder_new)) \<and>
   kd_caps_lock (snd (feed_all [0xE0, 0x1D, 0x2A, 0xAA, 0x3A, 0xBA] decoder_new))"
  using modifiers_follow_strokes[of decoder_new "[0xE0, 0x1D, 0x2A, 0xAA, 0x3A, 0xBA]"]
  by (simp add: decoder_new_def held_def presses_def is_key_def is_press_def)

text \<open>
  C29. Whatever the decoder's state and the scancode, an event carries a printable ASCII character
  or a function key number from 1 to 12, and a break code (top bit set) never produces an event.
\<close>

theorem feed_events_well_formed:
  "fst (feed sc d) = Some e \<Longrightarrow> event_ok e \<and> sc AND 0x80 = 0"
  using feed_event_ok[of sc d e] feed_release[of sc d] by (auto simp: is_press_def)

theorem feed_events_well_formed_witness:
  "fst (feed 0x58 decoder_new) = Some (Key_Function 12) \<and> event_ok (Key_Function 12) \<and>
   (0x58 :: u8) AND 0x80 = 0"
proof -
  have "fst (feed 0x58 decoder_new) = Some (Key_Function 12)" by code_simp
  then show ?thesis using feed_events_well_formed[where sc = "0x58" and d = decoder_new] by blast
qed

end
