(* ===== verification/Frame_Source.thy ===== *)
theory Frame_Source
  imports Kernel_Prelude
begin

text \<open>
  The contract between the frame allocator and the code that maps pages: frames come from a pool
  fixed at boot, each is handed out once and in order, and an empty pool gives \<open>None\<close>. The clients'
  lemmas are proved from the contract alone.
\<close>

fun take_frames :: "('s \<Rightarrow> (u64 option \<times> 's) run) \<Rightarrow> nat \<Rightarrow> 's \<Rightarrow> (u64 option list \<times> 's) run" where
  "take_frames alloc 0 s = Ret ([], s)"
| "take_frames alloc (Suc n) s =
     bind_run (alloc s) (\<lambda>(f, s'). bind_run (take_frames alloc n s') (\<lambda>(fs, s''). Ret (f # fs, s'')))"

definition pool_head :: "u64 list \<Rightarrow> u64 option" where
  "pool_head fs = (case fs of [] \<Rightarrow> None | f # _ \<Rightarrow> Some f)"

locale frame_source =
  fixes alloc :: "'s \<Rightarrow> (u64 option \<times> 's) run"
    and pool :: "'s \<Rightarrow> u64 list"
    and ready :: "'s \<Rightarrow> bool"
  assumes alloc: "ready s \<Longrightarrow>
      \<exists>s'. alloc s = Ret (pool_head (pool s), s') \<and> ready s' \<and> pool s' = tl (pool s)"
begin

lemma alloc_some:
  assumes "ready s" "pool s = f # fs"
  obtains s' where "alloc s = Ret (Some f, s')" "ready s'" "pool s' = fs"
  using alloc[OF assms(1)] assms(2) by (auto simp: pool_head_def)

lemma alloc_none:
  assumes "ready s" "pool s = []"
  obtains s' where "alloc s = Ret (None, s')" "ready s'" "pool s' = []"
  using alloc[OF assms(1)] assms(2) by (auto simp: pool_head_def)

text \<open>Requests in a row receive the pool's frames in order, then nothing.\<close>

lemma take_frames_pool:
  "ready s \<Longrightarrow> \<exists>s'. take_frames alloc n s =
     Ret (map Some (take n (pool s)) @ replicate (n - length (pool s)) None, s') \<and>
     ready s' \<and> pool s' = drop n (pool s)"
proof (induction n arbitrary: s)
  case (Suc n)
  obtain s' where s': "alloc s = Ret (pool_head (pool s), s')" "ready s'" "pool s' = tl (pool s)"
    using alloc[OF Suc.prems] by blast
  with Suc.IH[OF s'(2)] show ?case
    by (cases "pool s") (auto simp: pool_head_def)
qed simp

lemma take_frames_distinct:
  assumes "ready s" "distinct (pool s)" "take_frames alloc n s = Ret (fs, s')"
  shows "distinct (List.map_filter (\<lambda>f. f) fs)" "pool s' = drop n (pool s)"
  using take_frames_pool[OF assms(1), of n] assms(2,3)
  by (auto simp: List.map_filter_def filter_empty_conv comp_def)

end

end
