(* ===== verification/Memory.thy ===== *)
theory Memory
  imports Frame_Source
begin

text \<open>
  \<open>kernel/src/memory.rs\<close>: the summary of the boot memory map, the page table walk behind
  the monitor's \<open>vm\<close> command, the frame allocator over the boot memory map and the mapping of
  single pages.

  The crates \<open>x86_64\<close> and \<open>bootloader_api\<close> are not part of the repository. The functions of
  \<open>x86_64\<close> the module calls are the fields of the record \<open>x86_64_api\<close>, the page mapper is
  the record \<open>mapper_api\<close>, both arguments of the definitions that use them; what their
  documentation promises is \<open>x86_64_documented\<close> and \<open>mapper_documented\<close>. A
  memory region is the triple the boot information holds.
\<close>

unbundle bit_operations_syntax

section \<open>The memory map and its summary\<close>

datatype MemoryRegionKind =
    Usable
  | Bootloader
  | UnknownUefi u32
  | UnknownBios u32
  | OtherKind

record MemoryRegion =
  mr_start :: u64
  mr_end :: u64
  mr_kind :: MemoryRegionKind

record MemorySummary =
  ms_total_regions :: nat
  ms_usable_regions :: nat
  ms_usable_bytes :: u64
  ms_reserved_bytes :: u64
  ms_largest_usable_region_bytes :: u64
  ms_usable_frames_4k :: u64

definition SIZE_4KIB :: u64 where "SIZE_4KIB = 4096"

definition region_size :: "MemoryRegion \<Rightarrow> u64" where
  "region_size r = saturating_sub (mr_end r) (mr_start r)"

text \<open>The loop body: usable regions, usable bytes, reserved bytes, largest usable region.\<close>

definition summarize_region :: "nat \<times> u64 \<times> u64 \<times> u64 \<Rightarrow> MemoryRegion \<Rightarrow> nat \<times> u64 \<times> u64 \<times> u64" where
  "summarize_region = (\<lambda>(n, usable, reserved, largest) r.
     (let size = region_size r
      in if mr_kind r = Usable
         then (n + 1, saturating_add usable size, reserved, max largest size)
         else (n, usable, saturating_add reserved size, largest)))"

definition summarize_memory :: "MemoryRegion list \<Rightarrow> MemorySummary" where
  "summarize_memory regions =
     (let (n, usable, reserved, largest) = foldl summarize_region (0, 0, 0, 0) regions
      in \<lparr>ms_total_regions = length regions, ms_usable_regions = n, ms_usable_bytes = usable,
          ms_reserved_bytes = reserved, ms_largest_usable_region_bytes = largest,
          ms_usable_frames_4k = usable div SIZE_4KIB\<rparr>)"

definition memory_region_kind_name :: "MemoryRegionKind \<Rightarrow> string" where
  "memory_region_kind_name k =
     (case k of
        Usable \<Rightarrow> ''usable''
      | Bootloader \<Rightarrow> ''bootloader''
      | UnknownUefi _ \<Rightarrow> ''unknown_uefi''
      | UnknownBios _ \<Rightarrow> ''unknown_bios''
      | OtherKind \<Rightarrow> ''other'')"

text \<open>The static \<open>KERNEL_MEMORY_SUMMARY\<close> is an \<open>option\<close>; its two accessors.\<close>

definition set_kernel_memory_summary ::
  "MemorySummary \<Rightarrow> MemorySummary option \<Rightarrow> MemorySummary option" where
  "set_kernel_memory_summary summary _ = Some summary"

definition kernel_memory_summary :: "MemorySummary option \<Rightarrow> MemorySummary option" where
  "kernel_memory_summary st = st"

section \<open>The page table walk\<close>

record x86_64_api =
  va_new :: "u64 \<Rightarrow> u64 run"
  va_try_new :: "u64 \<Rightarrow> u64 option"
  va_new_truncate :: "u64 \<Rightarrow> u64"
  va_add :: "u64 \<Rightarrow> u64 \<Rightarrow> u64 run"
  va_p4_index :: "u64 \<Rightarrow> u16"
  va_p3_index :: "u64 \<Rightarrow> u16"
  va_p2_index :: "u64 \<Rightarrow> u16"
  va_p1_index :: "u64 \<Rightarrow> u16"
  va_page_offset :: "u64 \<Rightarrow> u16"
  pa_new :: "u64 \<Rightarrow> u64 run"
  frame_containing_address :: "u64 \<Rightarrow> u64"
  page_containing_address :: "u64 \<Rightarrow> u64"
  page_range_inclusive :: "u64 \<Rightarrow> u64 \<Rightarrow> u64 list"
  entry_flags :: "u64 \<Rightarrow> u64"
  entry_addr :: "u64 \<Rightarrow> u64"
  flag_PRESENT :: u64
  flag_WRITABLE :: u64
  flag_USER_ACCESSIBLE :: u64
  flag_HUGE_PAGE :: u64

definition flags_contain :: "u64 \<Rightarrow> u64 \<Rightarrow> bool" where
  "flags_contain bits flag \<longleftrightarrow> bits AND flag = flag"

datatype VmPageSize = Size4KiB | Size2MiB | Size1GiB

record VmWalkInfo =
  vw_virtual_address :: u64
  vw_canonical :: bool
  vw_p4_index :: u16
  vw_p3_index :: u16
  vw_p2_index :: u16
  vw_p1_index :: u16
  vw_page_offset :: u16
  vw_p4_flags_bits :: u64
  vw_p3_flags_bits :: u64
  vw_p2_flags_bits :: u64
  vw_p1_flags_bits :: u64
  vw_physical_address :: "u64 option"
  vw_page_size :: "VmPageSize option"

definition vm_walk_info_new :: "x86_64_api \<Rightarrow> u64 \<Rightarrow> bool \<Rightarrow> u64 \<Rightarrow> VmWalkInfo" where
  "vm_walk_info_new X virtual_address canonical virtual_addr =
     \<lparr>vw_virtual_address = virtual_address, vw_canonical = canonical,
      vw_p4_index = va_p4_index X virtual_addr, vw_p3_index = va_p3_index X virtual_addr,
      vw_p2_index = va_p2_index X virtual_addr, vw_p1_index = va_p1_index X virtual_addr,
      vw_page_offset = va_page_offset X virtual_addr,
      vw_p4_flags_bits = 0, vw_p3_flags_bits = 0, vw_p2_flags_bits = 0, vw_p1_flags_bits = 0,
      vw_physical_address = None, vw_page_size = None\<rparr>"

definition vm_page_size_name :: "VmPageSize \<Rightarrow> string" where
  "vm_page_size_name s =
     (case s of Size4KiB \<Rightarrow> ''4KiB'' | Size2MiB \<Rightarrow> ''2MiB'' | Size1GiB \<Rightarrow> ''1GiB'')"

text \<open>
  The memory the walk reads is a function from the virtual address of a page table and an index
  to the raw entry; \<open>cr3\<close> is the physical address in the control register.
\<close>

type_synonym table_memory = "u64 \<Rightarrow> u16 \<Rightarrow> u64"

definition page_table_from_physical :: "x86_64_api \<Rightarrow> u64 \<Rightarrow> u64 \<Rightarrow> u64 run" where
  "page_table_from_physical X physical_address physical_memory_offset =
     va_add X physical_memory_offset physical_address"

definition active_level_4_table :: "x86_64_api \<Rightarrow> u64 \<Rightarrow> u64 \<Rightarrow> u64 run" where
  "active_level_4_table X cr3 physical_memory_offset = va_add X physical_memory_offset cr3"

definition walk_virtual_address ::
  "x86_64_api \<Rightarrow> u64 \<Rightarrow> table_memory \<Rightarrow> u64 \<Rightarrow> u64 \<Rightarrow> VmWalkInfo run" where
  "walk_virtual_address X cr3 mem physical_memory_offset virtual_address =
    (let virtual_addr = va_new_truncate X virtual_address;
         canonical = (va_try_new X virtual_address \<noteq> None);
         info = vm_walk_info_new X virtual_address canonical virtual_addr
     in if \<not> canonical then Ret info else
     bind_run (va_new X physical_memory_offset) (\<lambda>physical_offset.
     bind_run (active_level_4_table X cr3 physical_offset) (\<lambda>p4.
     let p4_entry = mem p4 (va_p4_index X virtual_addr);
         info = info\<lparr>vw_p4_flags_bits := entry_flags X p4_entry\<rparr>
     in if \<not> flags_contain (entry_flags X p4_entry) (flag_PRESENT X) then Ret info else
     bind_run (page_table_from_physical X (entry_addr X p4_entry) physical_offset) (\<lambda>p3.
     let p3_entry = mem p3 (va_p3_index X virtual_addr);
         info = info\<lparr>vw_p3_flags_bits := entry_flags X p3_entry\<rparr>
     in if \<not> flags_contain (entry_flags X p3_entry) (flag_PRESENT X) then Ret info else
     if flags_contain (entry_flags X p3_entry) (flag_HUGE_PAGE X) then
       bind_run (add_checked_build (entry_addr X p3_entry) (virtual_addr AND (2 ^ 30 - 1))) (\<lambda>p.
       Ret (info\<lparr>vw_physical_address := Some p, vw_page_size := Some Size1GiB\<rparr>)) else
     bind_run (page_table_from_physical X (entry_addr X p3_entry) physical_offset) (\<lambda>p2.
     let p2_entry = mem p2 (va_p2_index X virtual_addr);
         info = info\<lparr>vw_p2_flags_bits := entry_flags X p2_entry\<rparr>
     in if \<not> flags_contain (entry_flags X p2_entry) (flag_PRESENT X) then Ret info else
     if flags_contain (entry_flags X p2_entry) (flag_HUGE_PAGE X) then
       bind_run (add_checked_build (entry_addr X p2_entry) (virtual_addr AND (2 ^ 21 - 1))) (\<lambda>p.
       Ret (info\<lparr>vw_physical_address := Some p, vw_page_size := Some Size2MiB\<rparr>)) else
     bind_run (page_table_from_physical X (entry_addr X p2_entry) physical_offset) (\<lambda>p1.
     let p1_entry = mem p1 (va_p1_index X virtual_addr);
         info = info\<lparr>vw_p1_flags_bits := entry_flags X p1_entry\<rparr>
     in if \<not> flags_contain (entry_flags X p1_entry) (flag_PRESENT X) then Ret info else
     bind_run (add_checked_build (entry_addr X p1_entry) (virtual_addr AND 0xfff)) (\<lambda>p.
     Ret (info\<lparr>vw_physical_address := Some p, vw_page_size := Some Size4KiB\<rparr>))))))))"

section \<open>The frame allocator\<close>

record BootInfoFrameAllocator =
  fa_memory_regions :: "MemoryRegion list"
  fa_next :: nat

definition MIN_ALLOCATABLE_PHYS_ADDR :: u64 where
  "MIN_ALLOCATABLE_PHYS_ADDR = 0x100000"

definition allocator_init :: "MemoryRegion list \<Rightarrow> BootInfoFrameAllocator" where
  "allocator_init memory_regions = \<lparr>fa_memory_regions = memory_regions, fa_next = 0\<rparr>"

definition allocated_frames :: "BootInfoFrameAllocator \<Rightarrow> nat" where
  "allocated_frames fa = fa_next fa"

definition address_range :: "MemoryRegion \<Rightarrow> (u64 \<times> u64) option" where
  "address_range region =
     (let start = max (mr_start region) MIN_ALLOCATABLE_PHYS_ADDR
      in if mr_end region \<le> start then None else Some (start, mr_end region))"

text \<open>The addresses of a \<open>Range\<close> stepped by the frame size.\<close>

definition step_by_4k :: "u64 \<times> u64 \<Rightarrow> u64 list" where
  "step_by_4k = (\<lambda>(s, e). map (\<lambda>k. s + of_nat (k * 4096)) [0..<(unat e - unat s + 4095) div 4096])"

definition frame_addresses :: "MemoryRegion list \<Rightarrow> u64 list" where
  "frame_addresses regions =
     concat (map step_by_4k (List.map_filter address_range (filter (\<lambda>r. mr_kind r = Usable) regions)))"

text \<open>
  The iterator is lazy: consuming an element runs \<open>PhysAddr::new\<close> on its address, which panics on
  an address that is not a physical one.
\<close>

definition usable_frames :: "x86_64_api \<Rightarrow> BootInfoFrameAllocator \<Rightarrow> u64 run list" where
  "usable_frames X fa =
     map (\<lambda>a. bind_run (pa_new X a) (\<lambda>p. Ret (frame_containing_address X p)))
       (frame_addresses (fa_memory_regions fa))"

fun consume :: "'a run list \<Rightarrow> 'a list run" where
  "consume [] = Ret []"
| "consume (r # rs) = bind_run r (\<lambda>x. bind_run (consume rs) (\<lambda>xs. Ret (x # xs)))"

definition remaining_usable_frames_estimate :: "x86_64_api \<Rightarrow> BootInfoFrameAllocator \<Rightarrow> nat run" where
  "remaining_usable_frames_estimate X fa =
     bind_run (consume (usable_frames X fa)) (\<lambda>fs. Ret (length (drop (fa_next fa) fs)))"

definition allocate_frame ::
  "x86_64_api \<Rightarrow> BootInfoFrameAllocator \<Rightarrow> (u64 option \<times> BootInfoFrameAllocator) run" where
  "allocate_frame X fa =
     bind_run (consume (take (Suc (fa_next fa)) (usable_frames X fa)))
       (\<lambda>fs. Ret (if fa_next fa < length fs then Some (fs ! fa_next fa) else None,
                   fa\<lparr>fa_next := fa_next fa + 1\<rparr>))"

section \<open>Mapping pages\<close>

datatype MapToError = FrameAllocationFailed | ParentEntryHugePage | PageAlreadyMapped u64

text \<open>
  The mapper of the crate, over a state of its own type; \<open>map_to\<close> receives the frame
  allocator for the page tables it creates and returns it updated.
\<close>

record 'm mapper_api =
  mp_new :: "u64 \<Rightarrow> u64 \<Rightarrow> 'm"
  mp_translate_addr :: "'m \<Rightarrow> u64 \<Rightarrow> u64 option"
  mp_map_to :: "'m \<Rightarrow> u64 \<Rightarrow> u64 \<Rightarrow> u64 \<Rightarrow> BootInfoFrameAllocator \<Rightarrow>
    ((unit, MapToError) result \<times> 'm \<times> BootInfoFrameAllocator) run"

text \<open>The machine the mapping code acts on: the mapper and the bytes of physical memory.\<close>

record 'm machine =
  mm_mapper :: 'm
  mm_bytes :: "u64 \<Rightarrow> u8"

definition DEMO_PAGE_START :: u64 where "DEMO_PAGE_START = 0x0000555555550000"
definition DEMO_PAGE_VALUE :: u64 where "DEMO_PAGE_VALUE = 0xC0DECAFEBAADF00D"

definition canonical_addr :: "u64 \<Rightarrow> bool" where
  "canonical_addr a \<longleftrightarrow> drop_bit 47 a = 0 \<or> drop_bit 47 a = 0x1ffff"

text \<open>A byte written or read through a pointer; an unmapped address is a page fault.\<close>

definition write_volatile_u8 :: "'m mapper_api \<Rightarrow> u64 \<Rightarrow> u8 \<Rightarrow> 'm machine \<Rightarrow> 'm machine run" where
  "write_volatile_u8 M va b mm =
     (case mp_translate_addr M (mm_mapper mm) va of
        None \<Rightarrow> Panic (PageFault va)
      | Some p \<Rightarrow> Ret (mm\<lparr>mm_bytes := (mm_bytes mm)(p := b)\<rparr>))"

definition read_volatile_u8 :: "'m mapper_api \<Rightarrow> u64 \<Rightarrow> 'm machine \<Rightarrow> u8 run" where
  "read_volatile_u8 M va mm =
     (case mp_translate_addr M (mm_mapper mm) va of
        None \<Rightarrow> Panic (PageFault va)
      | Some p \<Rightarrow> Ret (mm_bytes mm p))"

fun write_volatile_bytes :: "'m mapper_api \<Rightarrow> u64 \<Rightarrow> u8 list \<Rightarrow> 'm machine \<Rightarrow> 'm machine run" where
  "write_volatile_bytes M va [] mm = Ret mm"
| "write_volatile_bytes M va (b # bs) mm =
     bind_run (write_volatile_u8 M va b mm) (write_volatile_bytes M (va + 1) bs)"

fun read_volatile_bytes :: "'m mapper_api \<Rightarrow> u64 \<Rightarrow> nat \<Rightarrow> 'm machine \<Rightarrow> u8 list run" where
  "read_volatile_bytes M va 0 mm = Ret []"
| "read_volatile_bytes M va (Suc n) mm =
     bind_run (read_volatile_u8 M va mm) (\<lambda>b.
     bind_run (read_volatile_bytes M (va + 1) n mm) (\<lambda>bs. Ret (b # bs)))"

text \<open>
  A \<open>u64\<close> read through a pointer given as a number. A checked build asserts that it is aligned. A non-canonical address raises a general protection exception instead of a page fault.
\<close>

definition read_volatile_u64 :: "'m mapper_api \<Rightarrow> u64 \<Rightarrow> 'm machine \<Rightarrow> u64 run" where
  "read_volatile_u64 M va mm =
     (if va AND 7 \<noteq> 0 then Panic UnsafePrecondition
      else if \<not> canonical_addr va then Panic UnhandledException
      else bind_run (read_volatile_bytes M va 8 mm) (\<lambda>bs. Ret (from_le_bytes bs)))"

definition init_offset_page_table :: "x86_64_api \<Rightarrow> 'm mapper_api \<Rightarrow> u64 \<Rightarrow> u64 \<Rightarrow> 'm run" where
  "init_offset_page_table X M cr3 physical_memory_offset =
     bind_run (active_level_4_table X cr3 physical_memory_offset)
       (\<lambda>level_4_table. Ret (mp_new M level_4_table physical_memory_offset))"

definition map_demo_page ::
  "x86_64_api \<Rightarrow> 'm mapper_api \<Rightarrow> 'm machine \<Rightarrow> BootInfoFrameAllocator \<Rightarrow>
   ((u64, string) result \<times> 'm machine \<times> BootInfoFrameAllocator) run" where
  "map_demo_page X M mm fa =
     bind_run (va_new X DEMO_PAGE_START) (\<lambda>va.
     let page = page_containing_address X va
     in if mp_translate_addr M (mm_mapper mm) page \<noteq> None
        then Ret (Inl ''demo page already mapped'', mm, fa) else
     bind_run (allocate_frame X fa) (\<lambda>(f, fa). case f of
        None \<Rightarrow> Ret (Inl ''no free frame for demo mapping'', mm, fa)
      | Some frame \<Rightarrow>
     bind_run (mp_map_to M (mm_mapper mm) page frame (flag_PRESENT X OR flag_WRITABLE X) fa) (\<lambda>(r, m, fa).
     let mm = mm\<lparr>mm_mapper := m\<rparr> in case r of
        Inl _ \<Rightarrow> Ret (Inl ''map_to failed'', mm, fa)
      | Inr _ \<Rightarrow>
     bind_run (write_volatile_bytes M page (to_le_bytes 8 DEMO_PAGE_VALUE) mm) (\<lambda>mm.
     bind_run (read_volatile_bytes M page 8 mm) (\<lambda>bs.
     Ret (Inr (from_le_bytes bs), mm, fa))))))"

definition map_page_with_flags ::
  "x86_64_api \<Rightarrow> 'm mapper_api \<Rightarrow> 'm machine \<Rightarrow> BootInfoFrameAllocator \<Rightarrow> u64 \<Rightarrow> u64 \<Rightarrow>
   ((unit, string) result \<times> 'm machine \<times> BootInfoFrameAllocator) run" where
  "map_page_with_flags X M mm fa virtual_address flags =
     bind_run (va_new X virtual_address) (\<lambda>va.
     let page = page_containing_address X va
     in if mp_translate_addr M (mm_mapper mm) page \<noteq> None
        then Ret (Inl ''page already mapped'', mm, fa) else
     bind_run (allocate_frame X fa) (\<lambda>(f, fa). case f of
        None \<Rightarrow> Ret (Inl ''no free frame for page mapping'', mm, fa)
      | Some frame \<Rightarrow>
     bind_run (mp_map_to M (mm_mapper mm) page frame flags fa) (\<lambda>(r, m, fa).
     let mm = mm\<lparr>mm_mapper := m\<rparr> in case r of
        Inl _ \<Rightarrow> Ret (Inl ''map_to failed'', mm, fa)
      | Inr _ \<Rightarrow> Ret (Inr (), mm, fa))))"

definition translate_virtual_address ::
  "x86_64_api \<Rightarrow> 'm mapper_api \<Rightarrow> u64 \<Rightarrow> u64 \<Rightarrow> u64 \<Rightarrow> u64 option run" where
  "translate_virtual_address X M cr3 physical_memory_offset virtual_address =
     bind_run (va_new X physical_memory_offset) (\<lambda>off.
     bind_run (init_offset_page_table X M cr3 off) (\<lambda>mapper.
     bind_run (va_new X virtual_address) (\<lambda>va.
     Ret (mp_translate_addr M mapper va))))"

section \<open>What the crates promise\<close>

definition address_window :: "u64 \<Rightarrow> u64 \<Rightarrow> bool" where
  "address_window off a \<longleftrightarrow> unat off + unat a < 2 ^ 64 \<and> canonical_addr (off + a)"

text \<open>
  The documented behaviour of the \<open>x86_64\<close> functions: an address is canonical when its upper 17
  bits agree, the table indices are the nine-bit fields from bit 12 on, an entry holds its flags in
  the bits outside 12 to 51 and a frame address in those, physical addresses have 52 bits.
\<close>

locale x86_64_documented =
  fixes X :: x86_64_api
  assumes va_new: "va_new X a = (if canonical_addr a then Ret a else Panic InvalidAddress)"
    and va_try_new: "va_try_new X a = (if canonical_addr a then Some a else None)"
    and va_new_truncate: "canonical_addr a \<Longrightarrow> va_new_truncate X a = a"
    and va_add: "va_add X a n = (if address_window a n then Ret (a + n) else Panic InvalidAddress)"
    and va_p4_index: "va_p4_index X a = ucast (drop_bit 39 a AND 0x1ff)"
    and va_p3_index: "va_p3_index X a = ucast (drop_bit 30 a AND 0x1ff)"
    and va_p2_index: "va_p2_index X a = ucast (drop_bit 21 a AND 0x1ff)"
    and va_p1_index: "va_p1_index X a = ucast (drop_bit 12 a AND 0x1ff)"
    and va_page_offset: "va_page_offset X a = ucast (a AND 0xfff)"
    and pa_new: "pa_new X a = (if a < 2 ^ 52 then Ret a else Panic InvalidAddress)"
    and frame_containing_address: "frame_containing_address X a = a AND NOT 0xfff"
    and page_containing_address: "page_containing_address X a = a AND NOT 0xfff"
    and page_range_inclusive: "a \<le> b \<Longrightarrow> page_range_inclusive X a b =
      map (\<lambda>k. a + of_nat (k * 4096)) [0..<Suc ((unat b - unat a) div 4096)]"
    and entry_addr: "entry_addr X e = e AND 0x000ffffffffff000"
    and entry_present: "flags_contain (entry_flags X e) (flag_PRESENT X) = bit e 0"
    and entry_huge: "flags_contain (entry_flags X e) (flag_HUGE_PAGE X) = bit e 7"
begin

lemmas api = va_new va_try_new va_new_truncate va_add va_p4_index va_p3_index va_p2_index
  va_p1_index va_page_offset entry_addr entry_present entry_huge

end

text \<open>Functions with this behaviour, to run the definitions on.\<close>

definition x86_64_functions :: x86_64_api where
  "x86_64_functions = \<lparr>
     va_new = (\<lambda>a. if canonical_addr a then Ret a else Panic InvalidAddress),
     va_try_new = (\<lambda>a. if canonical_addr a then Some a else None),
     va_new_truncate = (\<lambda>a. if bit a 47 then a OR NOT (2 ^ 48 - 1) else a AND (2 ^ 48 - 1)),
     va_add = (\<lambda>a n. if address_window a n then Ret (a + n) else Panic InvalidAddress),
     va_p4_index = (\<lambda>a. ucast (drop_bit 39 a AND 0x1ff)),
     va_p3_index = (\<lambda>a. ucast (drop_bit 30 a AND 0x1ff)),
     va_p2_index = (\<lambda>a. ucast (drop_bit 21 a AND 0x1ff)),
     va_p1_index = (\<lambda>a. ucast (drop_bit 12 a AND 0x1ff)),
     va_page_offset = (\<lambda>a. ucast (a AND 0xfff)),
     pa_new = (\<lambda>a. if a < 2 ^ 52 then Ret a else Panic InvalidAddress),
     frame_containing_address = (\<lambda>a. a AND NOT 0xfff),
     page_containing_address = (\<lambda>a. a AND NOT 0xfff),
     page_range_inclusive = (\<lambda>a b. if a \<le> b
       then map (\<lambda>k. a + of_nat (k * 4096)) [0..<Suc ((unat b - unat a) div 4096)] else []),
     entry_flags = (\<lambda>e. e AND 0xfff0000000000fff),
     entry_addr = (\<lambda>e. e AND 0x000ffffffffff000),
     flag_PRESENT = 1, flag_WRITABLE = 2, flag_USER_ACCESSIBLE = 4, flag_HUGE_PAGE = 0x80\<rparr>"

lemma and_single_bit:
  fixes e c :: u64
  assumes "m < 64" "bit c m"
  shows "(e AND c) AND 2 ^ m = 2 ^ m \<longleftrightarrow> bit e m"
proof
  assume "(e AND c) AND 2 ^ m = 2 ^ m"
  then have "bit ((e AND c) AND 2 ^ m) m" using assms by (simp add: bit_exp_iff)
  then show "bit e m" by (simp add: bit_and_iff)
next
  assume "bit e m"
  then show "(e AND c) AND 2 ^ m = 2 ^ m"
    by (intro bit_word_eqI) (use assms in \<open>auto simp: bit_and_iff bit_exp_iff\<close>)
qed

lemma canonical_truncate:
  assumes "canonical_addr a"
  shows "(if bit a 47 then a OR NOT (2 ^ 48 - 1) else a AND (2 ^ 48 - 1)) = a"
proof -
  have top: "bit a n \<longleftrightarrow> bit a 47" if "47 \<le> n" "n < 64" for n
  proof -
    have b: "bit a n = bit (drop_bit 47 a) (n - 47)" "bit a 47 = bit (drop_bit 47 a) 0"
      using that by (simp_all add: bit_drop_bit_eq)
    have "(0x1ffff :: u64) = mask 17" by (simp add: mask_eq_exp_minus_1)
    then have "bit (0x1ffff :: u64) (n - 47)"
      using that by (auto simp only: bit_mask_iff) simp_all
    then show ?thesis
      using assms b unfolding canonical_addr_def by auto
  qed
  have m: "(2 ^ 48 - 1 :: u64) = mask 48" by (simp add: mask_eq_exp_minus_1)
  show ?thesis
    unfolding m
  proof (rule bit_word_eqI)
    fix n
    assume "n < LENGTH(64)"
    then show "bit (if bit a 47 then a OR NOT (mask 48) else a AND mask 48) n = bit a n"
      using top[of n] by (cases "n < 48") (auto simp: bit_or_iff bit_not_iff bit_and_iff bit_mask_iff)
  qed
qed

interpretation x86_64: x86_64_documented x86_64_functions
proof
  show "flags_contain (entry_flags x86_64_functions e) (flag_PRESENT x86_64_functions) = bit e 0"
    and "flags_contain (entry_flags x86_64_functions e) (flag_HUGE_PAGE x86_64_functions) = bit e 7" for e
    using and_single_bit[of 0 "0xfff0000000000fff" e] and_single_bit[of 7 "0xfff0000000000fff" e]
    by (simp_all add: x86_64_functions_def flags_contain_def)
qed (auto simp: x86_64_functions_def canonical_truncate)

lemma and_not_mask_eq:
  fixes x :: "'a::len word"
  shows "x AND mask n = 0 \<Longrightarrow> x AND NOT (mask n) = x"
  by (metis and.right_neutral bit.conj_cancel_right bit.conj_disj_distrib bit.disj_cancel_right
      or.right_neutral or_eq_not_not_and word_log_esimps(3))

section \<open>The summary\<close>

definition usable_sizes :: "MemoryRegion list \<Rightarrow> nat list" where
  "usable_sizes regions = map (unat \<circ> region_size) (filter (\<lambda>r. mr_kind r = Usable) regions)"

definition reserved_sizes :: "MemoryRegion list \<Rightarrow> nat list" where
  "reserved_sizes regions = map (unat \<circ> region_size) (filter (\<lambda>r. mr_kind r \<noteq> Usable) regions)"

lemma unat_max: "unat (max a b) = max (unat a) (unat (b :: 'a::len word))"
  by (simp add: max_def word_le_nat_alt)

lemma summarize_fold:
  fixes u v w :: u64
  shows "foldl summarize_region (n, u, v, w) regions = (n', u', v', w') \<Longrightarrow>
    n' = n + length (usable_sizes regions) \<and>
    unat u' = min (unat u + sum_list (usable_sizes regions)) (2 ^ 64 - 1) \<and>
    unat v' = min (unat v + sum_list (reserved_sizes regions)) (2 ^ 64 - 1) \<and>
    unat w' = foldl max (unat w) (usable_sizes regions)"
proof (induction regions arbitrary: n u v w)
  case Nil
  then show ?case
    using unat_le_max[of u] unat_le_max[of v] by (simp add: usable_sizes_def reserved_sizes_def)
next
  case (Cons r regions)
  obtain n1 u1 v1 w1 where r1: "summarize_region (n, u, v, w) r = (n1, u1, v1, w1)"
    by (cases "summarize_region (n, u, v, w) r") auto
  from Cons.prems have "foldl summarize_region (n1, u1, v1, w1) regions = (n', u', v', w')"
    by (simp add: r1)
  from Cons.IH[OF this] show ?case
    using r1[unfolded summarize_region_def Let_def]
    by (auto simp: usable_sizes_def reserved_sizes_def unat_saturating_add unat_max split: if_splits)
qed

lemma foldl_max: "foldl max (a :: nat) xs = Max (insert a (set xs))"
proof -
  have "(\<lambda>x y. max y x) = (max :: nat \<Rightarrow> nat \<Rightarrow> nat)" by (simp add: fun_eq_iff max.commute)
  then show ?thesis using Max.set_eq_fold[of a xs] by (simp add: foldl_conv_fold)
qed

section \<open>The frames of the memory map\<close>

text \<open>
  A memory map as the boot loader delivers it: the usable regions are page aligned, lie below the
  physical address limit and do not overlap.
\<close>

definition memory_map_ok :: "MemoryRegion list \<Rightarrow> bool" where
  "memory_map_ok regions \<longleftrightarrow>
     list_all (\<lambda>r. mr_kind r = Usable \<longrightarrow> unat (mr_start r) mod 4096 = 0 \<and> unat (mr_end r) mod 4096 = 0 \<and>
        mr_end r \<le> 2 ^ 52) regions \<and>
     sorted_wrt (\<lambda>a b. mr_kind a = Usable \<and> mr_kind b = Usable \<longrightarrow>
        mr_end a \<le> mr_start b \<or> mr_end b \<le> mr_start a) regions"

definition region_frames :: "MemoryRegion \<Rightarrow> u64 list" where
  "region_frames r = (if mr_kind r = Usable
     then (case address_range r of None \<Rightarrow> [] | Some se \<Rightarrow> step_by_4k se) else [])"

lemma frame_addresses_concat: "frame_addresses regions = concat (map region_frames regions)"
  by (induction regions)
    (auto simp: frame_addresses_def region_frames_def map_filter_simps split: option.split)

lemma frame_count:
  fixes s e :: nat
  assumes "s mod 4096 = 0" "e mod 4096 = 0"
  shows "(e - s + 4095) div 4096 * 4096 = e - s"
proof -
  obtain i j where "s = 4096 * i" "e = 4096 * j"
    using assms by (metis mod_0_imp_dvd dvdE)
  then have "e - s = 4096 * (j - i)" by (simp add: diff_mult_distrib2)
  then show ?thesis by simp
qed

lemma step_by_4k_unat:
  fixes s e :: u64
  assumes "s < e" "e \<le> 2 ^ 52" "unat s mod 4096 = 0" "unat e mod 4096 = 0"
  shows "map unat (step_by_4k (s, e)) = map (\<lambda>k. unat s + k * 4096) [0..<(unat e - unat s) div 4096]"
    and "length (step_by_4k (s, e)) * 4096 = unat e - unat s"
proof -
  let ?n = "(unat e - unat s + 4095) div 4096"
  have e: "unat e \<le> 2 ^ 52" "unat s < unat e"
    using assms(1,2) by (simp_all add: word_le_nat_alt word_less_nat_alt)
  have n: "?n * 4096 = unat e - unat s"
    using frame_count[OF assms(3,4)] .
  then show "length (step_by_4k (s, e)) * 4096 = unat e - unat s"
    by (simp add: step_by_4k_def)
  have "?n = (unat e - unat s) div 4096"
    using n by (metis nonzero_mult_div_cancel_right zero_neq_numeral)
  moreover have "unat (s + of_nat (k * 4096)) = unat s + k * 4096" if "k < ?n" for k
  proof -
    have "unat s + k * 4096 < 2 ^ 64" using that n e by simp
    then show ?thesis by (simp add: unat_word_ariths unat_of_nat take_bit_nat_eq_self)
  qed
  ultimately show "map unat (step_by_4k (s, e)) =
      map (\<lambda>k. unat s + k * 4096) [0..<(unat e - unat s) div 4096]"
    by (simp add: step_by_4k_def)
qed

lemma aligned_range:
  fixes s e a :: nat
  assumes "s mod 4096 = 0" "e mod 4096 = 0"
  shows "(\<exists>k < (e - s) div 4096. a = s + k * 4096) \<longleftrightarrow> a mod 4096 = 0 \<and> s \<le> a \<and> a < e"
proof -
  obtain i j where "s = 4096 * i" "e = 4096 * j"
    using assms by (metis mod_0_imp_dvd dvdE)
  then show ?thesis
    by (auto simp: diff_mult_distrib2[symmetric] intro!: exI[of _ "a div 4096 - i"])
qed

text \<open>The frames of a usable region: the aligned addresses in it from 1 MiB on, in order.\<close>

lemma region_frames_spec:
  assumes "mr_kind r = Usable" "unat (mr_start r) mod 4096 = 0" "unat (mr_end r) mod 4096 = 0"
    "mr_end r \<le> 2 ^ 52"
  shows "a \<in> set (region_frames r) \<longleftrightarrow>
      unat a mod 4096 = 0 \<and> 0x100000 \<le> a \<and> mr_start r \<le> a \<and> a < mr_end r"
    and "distinct (region_frames r)"
    and "length (region_frames r) * 4096 \<le> unat (region_size r)"
proof -
  let ?s = "max (mr_start r) MIN_ALLOCATABLE_PHYS_ADDR"
  have s: "unat ?s mod 4096 = 0"
    using assms(2) by (simp add: max_def MIN_ALLOCATABLE_PHYS_ADDR_def)
  have "(a \<in> set (region_frames r) \<longleftrightarrow> unat a mod 4096 = 0 \<and> ?s \<le> a \<and> a < mr_end r) \<and>
      distinct (region_frames r) \<and> length (region_frames r) * 4096 \<le> unat (region_size r)"
  proof (cases "mr_end r \<le> ?s")
    case True
    then show ?thesis
      using assms(1) by (auto simp: region_frames_def address_range_def Let_def max_def split: if_splits)
  next
    case False
    then have lt: "?s < mr_end r" by (simp only: not_le)
    from False have f: "region_frames r = step_by_4k (?s, mr_end r)"
      using assms(1) by (simp add: region_frames_def address_range_def Let_def)
    note u = step_by_4k_unat[OF lt assms(4) s assms(3)]
    have d: "distinct (map unat (region_frames r))"
      by (simp add: f u distinct_map inj_on_def)
    have "a \<in> set (region_frames r) \<longleftrightarrow> unat a \<in> set (map unat (region_frames r))"
      by (auto dest!: word_unat_eq_iff[THEN iffD2])
    also have "\<dots> \<longleftrightarrow> (\<exists>k < (unat (mr_end r) - unat ?s) div 4096. unat a = unat ?s + k * 4096)"
      by (auto simp: f u)
    also have "\<dots> \<longleftrightarrow> unat a mod 4096 = 0 \<and> unat ?s \<le> unat a \<and> unat a < unat (mr_end r)"
      by (rule aligned_range[OF s assms(3)])
    finally have m: "a \<in> set (region_frames r) \<longleftrightarrow> unat a mod 4096 = 0 \<and> ?s \<le> a \<and> a < mr_end r"
      by (simp add: word_le_nat_alt word_less_nat_alt)
    have "unat (region_size r) = unat (mr_end r) - unat (mr_start r)"
      by (simp add: region_size_def unat_saturating_sub)
    moreover have "unat (mr_start r) \<le> unat ?s" by (simp add: unat_max)
    ultimately show ?thesis using d m u(2) by (simp add: f distinct_map)
  qed
  then show "a \<in> set (region_frames r) \<longleftrightarrow>
      unat a mod 4096 = 0 \<and> 0x100000 \<le> a \<and> mr_start r \<le> a \<and> a < mr_end r"
    "distinct (region_frames r)" "length (region_frames r) * 4096 \<le> unat (region_size r)"
    by (auto simp: MIN_ALLOCATABLE_PHYS_ADDR_def)
qed

lemma memory_map_ok_region:
  assumes "memory_map_ok regions" "r \<in> set regions" "mr_kind r = Usable"
  shows "unat (mr_start r) mod 4096 = 0" "unat (mr_end r) mod 4096 = 0" "mr_end r \<le> 2 ^ 52"
  using assms by (auto simp: memory_map_ok_def list_all_iff)

definition allocatable :: "MemoryRegion list \<Rightarrow> u64 \<Rightarrow> bool" where
  "allocatable regions a \<longleftrightarrow> unat a mod 4096 = 0 \<and> 0x100000 \<le> a \<and>
     list_ex (\<lambda>r. mr_kind r = Usable \<and> mr_start r \<le> a \<and> a < mr_end r) regions"

lemma set_frame_addresses:
  assumes "memory_map_ok regions"
  shows "a \<in> set (frame_addresses regions) \<longleftrightarrow> allocatable regions a"
proof -
  have "a \<in> set (region_frames r) \<longleftrightarrow> mr_kind r = Usable \<and>
      unat a mod 4096 = 0 \<and> 0x100000 \<le> a \<and> mr_start r \<le> a \<and> a < mr_end r" if "r \<in> set regions" for r
  proof (cases "mr_kind r = Usable")
    case True
    with region_frames_spec(1)[OF True memory_map_ok_region[OF assms that True]] show ?thesis by simp
  qed (simp add: region_frames_def)
  then show ?thesis
    by (auto simp: frame_addresses_concat allocatable_def list_ex_iff)
qed

lemma distinct_frame_addresses: "memory_map_ok regions \<Longrightarrow> distinct (frame_addresses regions)"
proof (induction regions)
  case (Cons r regions)
  then have ok: "memory_map_ok regions" and d: "distinct (frame_addresses regions)"
    by (simp_all add: memory_map_ok_def)
  show ?case
  proof (cases "mr_kind r = Usable")
    case True
    have "set (region_frames r) \<inter> set (frame_addresses regions) = {}"
    proof (intro equals0I)
      fix a
      assume "a \<in> set (region_frames r) \<inter> set (frame_addresses regions)"
      then obtain r' where "mr_start r \<le> a" "a < mr_end r"
        "r' \<in> set regions" "mr_kind r' = Usable" "mr_start r' \<le> a" "a < mr_end r'"
        using region_frames_spec(1)[OF True memory_map_ok_region[OF Cons.prems _ True]]
        by (auto simp: set_frame_addresses[OF ok] allocatable_def list_ex_iff)
      moreover from this have "mr_end r \<le> mr_start r' \<or> mr_end r' \<le> mr_start r"
        using Cons.prems True by (simp add: memory_map_ok_def)
      ultimately show False by (metis leD le_less_trans)
    qed
    then show ?thesis
      using d region_frames_spec(2)[OF True memory_map_ok_region[OF Cons.prems _ True]]
      by (simp add: frame_addresses_concat)
  next
    case False
    then show ?thesis using d by (simp add: frame_addresses_concat region_frames_def)
  qed
qed (simp add: frame_addresses_def map_filter_simps)

lemma length_frame_addresses:
  "memory_map_ok regions \<Longrightarrow> length (frame_addresses regions) * 4096 \<le> sum_list (usable_sizes regions)"
proof (induction regions)
  case (Cons r regions)
  then have IH: "length (frame_addresses regions) * 4096 \<le> sum_list (usable_sizes regions)"
    by (simp add: memory_map_ok_def)
  show ?case
  proof (cases "mr_kind r = Usable")
    case True
    with region_frames_spec(3)[OF True memory_map_ok_region[OF Cons.prems _ True]] IH show ?thesis
      by (simp add: frame_addresses_concat usable_sizes_def)
  next
    case False
    with IH show ?thesis by (simp add: frame_addresses_concat region_frames_def usable_sizes_def)
  qed
qed (simp add: frame_addresses_def map_filter_simps)

lemma allocatable_bounds:
  assumes "memory_map_ok regions" "allocatable regions a"
  shows "a < 2 ^ 52" "a AND NOT 0xfff = a"
proof -
  obtain r where "r \<in> set regions" "mr_kind r = Usable" "a < mr_end r"
    using assms(2) by (auto simp: allocatable_def list_ex_iff)
  then show "a < 2 ^ 52"
    using less_le_trans[OF _ memory_map_ok_region(3)[OF assms(1)]] by blast
  have "unat (a AND mask 12) = unat a mod 4096"
    by (simp only: take_bit_eq_mask[symmetric] take_bit_eq_mod) (simp add: unat_mod)
  then have "a AND mask 12 = 0"
    using assms(2) by (simp add: allocatable_def unat_eq_zero)
  from and_not_mask_eq[OF this] show "a AND NOT 0xfff = a" by (simp add: mask_eq_exp_minus_1)
qed

section \<open>The allocator as a frame source\<close>

definition frame_pool :: "BootInfoFrameAllocator \<Rightarrow> u64 list" where
  "frame_pool fa = drop (fa_next fa) (frame_addresses (fa_memory_regions fa))"

definition allocator_ready :: "BootInfoFrameAllocator \<Rightarrow> bool" where
  "allocator_ready fa = memory_map_ok (fa_memory_regions fa)"

lemma consume_map_Ret: "(\<And>x. x \<in> set xs \<Longrightarrow> f x = Ret (g x)) \<Longrightarrow> consume (map f xs) = Ret (map g xs)"
  by (induction xs) auto

context x86_64_documented
begin

lemma consume_usable_frames:
  assumes "allocator_ready fa"
  shows "consume (take n (usable_frames X fa)) = Ret (take n (frame_addresses (fa_memory_regions fa)))"
proof -
  let ?as = "take n (frame_addresses (fa_memory_regions fa))"
  have "bind_run (pa_new X a) (\<lambda>p. Ret (frame_containing_address X p)) = Ret a" if "a \<in> set ?as" for a
    using allocatable_bounds[of "fa_memory_regions fa" a] assms that set_take_subset[of n]
    by (auto simp: allocator_ready_def pa_new frame_containing_address set_frame_addresses dest!: in_set_takeD)
  from consume_map_Ret[of ?as _ "\<lambda>a. a", OF this] show ?thesis
    by (simp add: usable_frames_def take_map)
qed

lemma allocate_frame_pool:
  assumes "allocator_ready fa"
  shows "allocate_frame X fa = Ret (pool_head (frame_pool fa), fa\<lparr>fa_next := fa_next fa + 1\<rparr>)"
    and "frame_pool (fa\<lparr>fa_next := fa_next fa + 1\<rparr>) = tl (frame_pool fa)"
proof -
  show "allocate_frame X fa = Ret (pool_head (frame_pool fa), fa\<lparr>fa_next := fa_next fa + 1\<rparr>)"
    by (auto simp: allocate_frame_def consume_usable_frames[OF assms] frame_pool_def pool_head_def
        Cons_nth_drop_Suc[symmetric] split: list.split)
  show "frame_pool (fa\<lparr>fa_next := fa_next fa + 1\<rparr>) = tl (frame_pool fa)"
    by (simp add: frame_pool_def drop_Suc tl_drop)
qed

end

sublocale x86_64_documented \<subseteq> boot_frames: frame_source "allocate_frame X" frame_pool allocator_ready
  using allocate_frame_pool by unfold_locales (auto simp: allocator_ready_def)

context x86_64_documented
begin

lemmas boot_take_frames = boot_frames.take_frames_pool

end

section \<open>Properties\<close>

text \<open>
  C30. The memory summary counts the regions, adds the usable and the reserved bytes (each sum capped
  at the largest 64-bit value instead of wrapping), records the largest usable region, and reports
  at least as many 4 KiB frames as the allocator can hand out from a well-formed memory map whose
  usable bytes fit 64 bits.
\<close>

theorem summarize_memory_correct:
  fixes regions :: "MemoryRegion list"
  defines "s \<equiv> summarize_memory regions"
  shows "ms_total_regions s = length regions \<and>
    ms_usable_regions s = length (filter (\<lambda>r. mr_kind r = Usable) regions) \<and>
    unat (ms_usable_bytes s) = min (sum_list (usable_sizes regions)) (2 ^ 64 - 1) \<and>
    unat (ms_reserved_bytes s) = min (sum_list (reserved_sizes regions)) (2 ^ 64 - 1) \<and>
    unat (ms_largest_usable_region_bytes s) = Max (insert 0 (set (usable_sizes regions))) \<and>
    (memory_map_ok regions \<and> sum_list (usable_sizes regions) < 2 ^ 64 \<longrightarrow>
      length (frame_addresses regions) \<le> unat (ms_usable_frames_4k s))"
proof -
  obtain n u v w where f: "foldl summarize_region (0, 0, 0, 0) regions = (n, u, v, w)"
    by (cases "foldl summarize_region (0, 0, 0, 0) regions") auto
  note sums = summarize_fold[OF f]
  have s: "s = \<lparr>ms_total_regions = length regions, ms_usable_regions = n, ms_usable_bytes = u,
      ms_reserved_bytes = v, ms_largest_usable_region_bytes = w, ms_usable_frames_4k = u div SIZE_4KIB\<rparr>"
    by (simp add: s_def summarize_memory_def f)
  have "ms_total_regions s = length regions"
    "ms_usable_regions s = length (filter (\<lambda>r. mr_kind r = Usable) regions)"
    "unat (ms_usable_bytes s) = min (sum_list (usable_sizes regions)) (2 ^ 64 - 1)"
    "unat (ms_reserved_bytes s) = min (sum_list (reserved_sizes regions)) (2 ^ 64 - 1)"
    "unat (ms_largest_usable_region_bytes s) = Max (insert 0 (set (usable_sizes regions)))"
    using sums by (simp_all add: s usable_sizes_def foldl_max)
  moreover have "length (frame_addresses regions) \<le> unat (ms_usable_frames_4k s)"
    if "memory_map_ok regions" "sum_list (usable_sizes regions) < 2 ^ 64"
  proof -
    have "unat u = sum_list (usable_sizes regions)" using sums that(2) by simp
    moreover have "unat (u div SIZE_4KIB) = unat u div 4096" by (simp add: unat_div SIZE_4KIB_def)
    ultimately show ?thesis
      using length_frame_addresses[OF that(1)] by (simp add: s less_eq_div_iff_mult_less_eq)
  qed
  ultimately show ?thesis by blast
qed

text \<open>A map with memory below 1 MiB, two frames above it, a reserved hole and one more frame.\<close>

definition demo_regions :: "MemoryRegion list" where
  "demo_regions =
     [\<lparr>mr_start = 0x1000, mr_end = 0x102000, mr_kind = Usable\<rparr>,
      \<lparr>mr_start = 0x102000, mr_end = 0x103000, mr_kind = Bootloader\<rparr>,
      \<lparr>mr_start = 0x103000, mr_end = 0x104000, mr_kind = Usable\<rparr>]"

lemma demo_regions_ok: "memory_map_ok demo_regions"
  by (simp add: memory_map_ok_def demo_regions_def)

lemma demo_regions_frames: "frame_addresses demo_regions = [0x100000, 0x101000, 0x103000]"
  by (simp add: frame_addresses_concat region_frames_def demo_regions_def address_range_def step_by_4k_def
      MIN_ALLOCATABLE_PHYS_ADDR_def max_def Let_def upt_conv_Cons)

theorem summarize_memory_correct_witness:
  "memory_map_ok demo_regions \<and> sum_list (usable_sizes demo_regions) < 2 ^ 64 \<and>
   length (frame_addresses demo_regions) \<le> unat (ms_usable_frames_4k (summarize_memory demo_regions))"
proof -
  have "sum_list (usable_sizes demo_regions) < 2 ^ 64"
    by (simp add: usable_sizes_def demo_regions_def region_size_def saturating_sub_def)
  then show ?thesis using summarize_memory_correct[of demo_regions] demo_regions_ok by blast
qed

text \<open>
  C10. On a well-formed memory map the frame allocator never panics: \<open>n\<close> requests return pairwise
  different frames, exactly the page-aligned addresses of the usable regions from 1 MiB on, in the
  order of the map, and \<open>None\<close> once they are used up; the estimate of the remaining frames is exact.
\<close>

theorem allocator_hands_out_each_frame_once:
  assumes "x86_64_documented X" "memory_map_ok regions"
  shows "(\<exists>fa. take_frames (allocate_frame X) n (allocator_init regions) =
      Ret (map Some (take n (frame_addresses regions)) @
           replicate (n - length (frame_addresses regions)) None, fa) \<and>
      remaining_usable_frames_estimate X fa = Ret (length (frame_addresses regions) - n)) \<and>
    distinct (frame_addresses regions) \<and>
    set (frame_addresses regions) = {a. allocatable regions a}"
proof -
  have i: "allocator_ready (allocator_init regions)" "frame_pool (allocator_init regions) = frame_addresses regions"
    using assms(2) by (simp_all add: allocator_ready_def allocator_init_def frame_pool_def)
  obtain fa where fa: "take_frames (allocate_frame X) n (allocator_init regions) =
      Ret (map Some (take n (frame_addresses regions)) @
           replicate (n - length (frame_addresses regions)) None, fa)"
    "allocator_ready fa" "frame_pool fa = drop n (frame_addresses regions)"
    using x86_64_documented.boot_take_frames[OF assms(1) i(1), of n] i(2) by auto
  have "consume (usable_frames X fa) = Ret (frame_addresses (fa_memory_regions fa))"
    using x86_64_documented.consume_usable_frames[OF assms(1) fa(2), of "length (usable_frames X fa)"]
    by (simp add: usable_frames_def)
  then have "remaining_usable_frames_estimate X fa = Ret (length (frame_addresses regions) - n)"
    using arg_cong[OF fa(3), of length]
    by (simp add: remaining_usable_frames_estimate_def frame_pool_def)
  with fa(1) show ?thesis
    using distinct_frame_addresses[OF assms(2)] set_frame_addresses[OF assms(2)] by blast
qed

theorem allocator_hands_out_each_frame_once_witness:
  "x86_64_documented x86_64_functions \<and> memory_map_ok demo_regions \<and>
   (\<exists>fa. take_frames (allocate_frame x86_64_functions) 4 (allocator_init demo_regions) =
      Ret ([Some 0x100000, Some 0x101000, Some 0x103000, None], fa) \<and>
      remaining_usable_frames_estimate x86_64_functions fa = Ret 0)"
  using allocator_hands_out_each_frame_once[OF x86_64.x86_64_documented_axioms demo_regions_ok, of 4]
    demo_regions_ok x86_64.x86_64_documented_axioms
  by (simp add: demo_regions_frames)

end
