(* ===== verification/Page_Walk.thy ===== *)
theory Page_Walk
  imports Memory
begin

text \<open>
  The page table walk of \<open>memory.rs\<close> (\<open>walk_virtual_address\<close>, defined in \<open>Memory\<close>) against
  the walk the x86-64 architecture performs.
\<close>

unbundle bit_operations_syntax

section \<open>The walk against the architecture\<close>

text \<open>
  The walk the processor performs, as a recursion over the levels: the tables it reads and the
  entry and level at which it ends, if it ends at a present one. \<open>ent t i\<close> is entry \<open>i\<close> of the
  table at physical address \<open>t\<close>.
\<close>

definition hw_index :: "nat \<Rightarrow> u64 \<Rightarrow> u16" where
  "hw_index l va = ucast (drop_bit (12 + 9 * l) va AND 0x1ff)"

fun hw_walk :: "(u64 \<Rightarrow> u16 \<Rightarrow> u64) \<Rightarrow> nat \<Rightarrow> u64 \<Rightarrow> u64 \<Rightarrow> u64 list \<times> (u64 \<times> nat) option" where
  "hw_walk ent 0 t va = ([], None)"
| "hw_walk ent (Suc l) t va =
     (let e = ent t (hw_index l va)
      in if \<not> bit e 0 then ([t], None)
         else if l = 0 \<or> l \<le> 2 \<and> bit e 7 then ([t], Some (e, l))
         else (let (ts, r) = hw_walk ent l (e AND 0x000ffffffffff000) va in (t # ts, r)))"

definition leaf_size :: "nat \<Rightarrow> VmPageSize" where
  "leaf_size l = (if l = 0 then Size4KiB else if l = 1 then Size2MiB else Size1GiB)"

text \<open>The frame of a leaf entry: its address field without the bits below the page size.\<close>

definition leaf_frame :: "u64 \<times> nat \<Rightarrow> u64" where
  "leaf_frame = (\<lambda>(e, l). (e AND 0x000ffffffffff000) AND NOT (mask (12 + 9 * l)))"

definition leaf_address :: "u64 \<Rightarrow> u64 \<times> nat \<Rightarrow> u64" where
  "leaf_address va = (\<lambda>(e, l). leaf_frame (e, l) + (va AND mask (12 + 9 * l)))"

text \<open>
  In the entry of a huge page, bit 12 is the PAT bit and the other bits below the page size are reserved: the
  processor faults unless they are clear.
\<close>

definition reserved_clear :: "u64 \<times> nat \<Rightarrow> bool" where
  "reserved_clear = (\<lambda>(e, l). (e AND 0x000ffffffffff000) AND mask (12 + 9 * l) AND NOT 0x1000 = 0)"

definition pat_bit :: "u64 \<times> nat \<Rightarrow> u64" where
  "pat_bit = (\<lambda>(e, l). if 0 < l \<and> bit e 12 then 0x1000 else 0)"

lemma leaf_field:
  assumes "reserved_clear (e, l)"
  shows "e AND 0x000ffffffffff000 = leaf_frame (e, l) + pat_bit (e, l)"
proof -
  let ?f = "e AND 0x000ffffffffff000"
  have split: "?f = (?f AND NOT (mask (12 + 9 * l))) + (?f AND mask (12 + 9 * l))"
    by (subst disjunctive_add_eq_or; intro bit_word_eqI) (auto simp: bit_and_iff bit_or_iff bit_not_iff)
  have pat: "bit (0x1000 :: u64) n \<longleftrightarrow> n = 12" for n
    using bit_push_bit_iff[of 12 "1 :: u64" n] by (auto simp: bit_1_iff push_bit_eq_mult)
  have low: "n = 12" if "bit (?f AND mask (12 + 9 * l)) n" for n
  proof (rule ccontr)
    assume "n \<noteq> 12"
    then have "bit (NOT 0x1000 :: u64) n" using bit_imp_le_length[OF that] by (simp only: bit_not_iff pat) simp
    with that have "bit ((?f AND mask (12 + 9 * l)) AND NOT 0x1000) n" by (simp only: bit_and_iff)
    with assms show False by (simp add: reserved_clear_def and.assoc)
  qed
  have "?f AND mask (12 + 9 * l) = pat_bit (e, l)"
  proof (rule bit_word_eqI)
    fix n
    assume n: "n < LENGTH(64)"
    have m: "bit (0x000ffffffffff000 :: u64) 12" by code_simp
    show "bit (?f AND mask (12 + 9 * l)) n = bit (pat_bit (e, l)) n"
    proof (cases "n = 12")
      case True
      with m show ?thesis by (auto simp: pat_bit_def pat bit_and_iff bit_mask_iff)
    next
      case False
      then have "\<not> bit (0x1000 :: u64) n" by (simp only: pat) simp
      with False low[of n] show ?thesis by (auto simp: pat_bit_def)
    qed
  qed
  with split show ?thesis by (simp add: leaf_frame_def)
qed

lemma add_page_offset:
  fixes e va m :: u64
  assumes "m < 2 ^ 30"
  shows "add_checked_build (e AND 0x000ffffffffff000) (va AND m) = Ret ((e AND 0x000ffffffffff000) + (va AND m))"
proof -
  have "e AND 0x000ffffffffff000 \<le> 0x000ffffffffff000" "va AND m \<le> m"
    by (rule word_and_le1)+
  then have "unat (e AND 0x000ffffffffff000) \<le> 0x000ffffffffff000" "unat (va AND m) < 2 ^ 30"
    using assms by (simp_all add: word_le_nat_alt word_less_nat_alt)
  then show ?thesis
    by (simp add: add_checked_build_def)
qed

lemma hw_walk_4:
  "hw_walk ent 4 t va =
    (let e4 = ent t (hw_index 3 va); t3 = e4 AND 0x000ffffffffff000;
         e3 = ent t3 (hw_index 2 va); t2 = e3 AND 0x000ffffffffff000;
         e2 = ent t2 (hw_index 1 va); t1 = e2 AND 0x000ffffffffff000;
         e1 = ent t1 (hw_index 0 va)
     in if \<not> bit e4 0 then ([t], None)
        else if \<not> bit e3 0 then ([t, t3], None)
        else if bit e3 7 then ([t, t3], Some (e3, 2))
        else if \<not> bit e2 0 then ([t, t3, t2], None)
        else if bit e2 7 then ([t, t3, t2], Some (e2, 1))
        else if \<not> bit e1 0 then ([t, t3, t2, t1], None)
        else ([t, t3, t2, t1], Some (e1, 0)))"
  by (simp add: eval_nat_numeral Let_def)

context x86_64_documented
begin

lemma walk_hw:
  assumes va: "canonical_addr va" and off: "canonical_addr off"
    and walk: "hw_walk (\<lambda>t. mem (off + t)) 4 cr3 va = (ts, r)"
    and tables: "\<And>t. t \<in> set ts \<Longrightarrow> address_window off t"
    and reserved: "\<And>leaf. r = Some leaf \<Longrightarrow> reserved_clear leaf"
  shows "\<exists>info. walk_virtual_address X cr3 mem off va = Ret info \<and>
     vw_physical_address info = map_option (\<lambda>leaf. leaf_address va leaf + pat_bit leaf) r \<and>
     vw_page_size info = map_option (\<lambda>(e, l). leaf_size l) r"
proof -
  have masks: "(2 ^ 30 - 1 :: u64) = mask 30" "(2 ^ 21 - 1 :: u64) = mask 21" "(0xfff :: u64) = mask 12"
    by (simp_all add: mask_eq_exp_minus_1)
  have small: "(mask 30 :: u64) < 2 ^ 30" "(mask 21 :: u64) < 2 ^ 30" "(mask 12 :: u64) < 2 ^ 30"
    by (simp_all add: mask_eq_exp_minus_1)
  note checked = small[THEN add_page_offset]
  have frame: "leaf_address va (e, l) + pat_bit (e, l) = (e AND 0x000ffffffffff000) + (va AND mask (12 + 9 * l))"
    if "r = Some (e, l)" for e l
    unfolding leaf_field[OF reserved[OF that]] by (simp add: leaf_address_def)
  show ?thesis
    using walk tables frame
    unfolding hw_walk_4 walk_virtual_address_def vm_walk_info_new_def
      active_level_4_table_def page_table_from_physical_def masks
    by (simp add: api va off hw_index_def Let_def checked leaf_size_def split: if_split_asm; clarsimp)
qed

end

section \<open>Properties\<close>

text \<open>
  C25. The page table walk against the architecture's: for a canonical address, when the tables the processor reads lie in
  the physical memory window and the reserved bits of the leaf entry are clear, the walk returns without panicking.
  It reports no physical address and no page size if a level is not present, and otherwise the page size of the
  leaf (4 KiB, 2 MiB or 1 GiB) and its frame plus the offset of the address, except that for every huge page whose
  entry has the PAT bit (bit 12) set the reported address is 4 KiB above the one the processor uses, because the walk takes
  that bit for a part of the frame's address.
\<close>

theorem walk_matches_hardware:
  assumes "x86_64_documented X"
    and "canonical_addr va" "canonical_addr off"
    and "hw_walk (\<lambda>t. mem (off + t)) 4 cr3 va = (ts, r)"
    and "list_all (address_window off) ts"
    and "\<forall>leaf. r = Some leaf \<longrightarrow> reserved_clear leaf"
  shows "\<exists>info. walk_virtual_address X cr3 mem off va = Ret info \<and>
     vw_physical_address info = map_option (\<lambda>(e, l). leaf_address va (e, l) + (if 0 < l \<and> bit e 12 then 0x1000 else 0)) r \<and>
     vw_page_size info = map_option (\<lambda>(e, l). leaf_size l) r"
  using x86_64_documented.walk_hw[OF assms(1-4)] assms(5,6) by (cases r) (auto simp: list_all_iff pat_bit_def)

text \<open>
  An address mapped by a 2 MiB page: the tables at 0x1000, 0x2000 and 0x3000, the page at 0x600000; and the same page
  with the PAT bit set in the entry.
\<close>

definition demo_tables :: table_memory where
  "demo_tables v i = (if i = 0 then
     (if v = 0x40001000 then 0x2003 else if v = 0x40002000 then 0x3003
      else if v = 0x40003000 then 0x600083 else 0) else 0)"

definition pat_tables :: table_memory where
  "pat_tables v i = (if i = 0 \<and> v = 0x40003000 then 0x601083 else demo_tables v i)"

theorem walk_matches_hardware_witness:
  "(\<exists>info. walk_virtual_address x86_64_functions 0x1000 demo_tables 0x40000000 0x12345 = Ret info \<and>
     vw_physical_address info = Some 0x612345 \<and> vw_page_size info = Some Size2MiB) \<and>
   (\<exists>info. walk_virtual_address x86_64_functions 0x1000 pat_tables 0x40000000 0x12345 = Ret info \<and>
     vw_physical_address info = Some 0x613345 \<and> vw_page_size info = Some Size2MiB)"
proof -
  have bits: "bit (0x2003::u64) 0" "bit (0x3003::u64) 0" "bit (0x600083::u64) 0" "bit (0x600083::u64) 7" "\<not> bit (0x600083::u64) 12"
    "bit (0x601083::u64) 0" "bit (0x601083::u64) 7" "bit (0x601083::u64) 12"
    "\<not> bit (0x3003::u64) 7" "\<not> bit (0x2003::u64) 7" by code_simp+
  have w: "hw_walk (\<lambda>t. demo_tables (0x40000000 + t)) 4 0x1000 0x12345 = ([0x1000, 0x2000, 0x3000], Some (0x600083, 1))"
    "hw_walk (\<lambda>t. pat_tables (0x40000000 + t)) 4 0x1000 0x12345 = ([0x1000, 0x2000, 0x3000], Some (0x601083, 1))"
    by (simp_all add: hw_walk_4 Let_def demo_tables_def pat_tables_def hw_index_def bits)
  have l: "leaf_address 0x12345 (0x600083, 1) = 0x612345" "leaf_address 0x12345 (0x601083, 1) = 0x612345"
    by (simp_all add: leaf_address_def leaf_frame_def mask_eq_exp_minus_1)
  have c: "canonical_addr 0x12345" "canonical_addr 0x40000000" "list_all (address_window 0x40000000) [0x1000, 0x2000, 0x3000]"
    "\<forall>leaf. Some (0x600083, 1) = Some leaf \<longrightarrow> reserved_clear leaf" "\<forall>leaf. Some (0x601083, 1) = Some leaf \<longrightarrow> reserved_clear leaf"
    by (simp_all add: canonical_addr_def address_window_def reserved_clear_def mask_eq_exp_minus_1)
  note walk = walk_matches_hardware[OF x86_64.x86_64_documented_axioms c(1,2)]
  show ?thesis
    using walk[OF w(1) c(3,4)] walk[OF w(2) c(3,5)] by (simp add: l[simplified] bits leaf_size_def)
qed

end
