(* ===== verification/Paging.thy ===== *)
theory Paging
  imports Memory
begin

text \<open>
  Mapping single pages (\<open>map_page_with_flags\<close> and \<open>map_demo_page\<close> of \<open>memory.rs\<close>, defined in
  \<open>Memory\<close>): what the page mapper of the \<open>x86_64\<close> crate promises, and what the kernel's two functions
  do with it.
\<close>

unbundle bit_operations_syntax

section \<open>What the mapper promises\<close>

definition page_of :: "u64 \<Rightarrow> u64" where
  "page_of a = a AND NOT 0xfff"

text \<open>
  A successful \<open>map_to\<close> makes the page translate to the frame and leaves every other page as it was;
  in any case it only takes frames from the allocator it is given.
\<close>

locale mapper_documented =
  fixes M :: "'m mapper_api"
  assumes map_to_returns: "allocator_ready fa \<Longrightarrow>
      \<exists>r m' k. mp_map_to M m page frame flags fa = Ret (r, m', fa\<lparr>fa_next := fa_next fa + k\<rparr>)"
    and map_to_page: "mp_map_to M m page frame flags fa = Ret (Inr (), m', fa') \<Longrightarrow>
      page_of page = page \<Longrightarrow> off < 4096 \<Longrightarrow> mp_translate_addr M m' (page + off) = Some (frame + off)"
    and map_to_other: "mp_map_to M m page frame flags fa = Ret (Inr (), m', fa') \<Longrightarrow>
      page_of a \<noteq> page \<Longrightarrow> mp_translate_addr M m' a = mp_translate_addr M m a"
begin

lemma map_to_cases:
  assumes "allocator_ready fa"
  obtains (Mapped) m' k where
      "mp_map_to M m page frame flags fa = Ret (Inr (), m', fa\<lparr>fa_next := fa_next fa + k\<rparr>)"
  | (Refused) e m' k where
      "mp_map_to M m page frame flags fa = Ret (Inl e, m', fa\<lparr>fa_next := fa_next fa + k\<rparr>)"
proof -
  obtain r m' k where *: "mp_map_to M m page frame flags fa = Ret (r, m', fa\<lparr>fa_next := fa_next fa + k\<rparr>)"
    using map_to_returns[OF assms] by blast
  then show thesis by (cases r) (auto intro: that)
qed

end

lemma frame_pool_advance:
  "frame_pool (fa\<lparr>fa_next := fa_next fa + k\<rparr>) = drop k (frame_pool fa)"
  by (simp add: frame_pool_def add.commute)

lemma allocator_ready_advance [simp]: "allocator_ready (fa\<lparr>fa_next := n\<rparr>) = allocator_ready fa"
  by (simp add: allocator_ready_def)

text \<open>A mapper with this behaviour, over a function from pages to frames.\<close>

definition page_map_functions :: "(u64 \<Rightarrow> u64 option) mapper_api" where
  "page_map_functions = \<lparr>
     mp_new = (\<lambda>_ _. \<lambda>_. None),
     mp_translate_addr = (\<lambda>m a. map_option (\<lambda>f. f + (a AND 0xfff)) (m (page_of a))),
     mp_map_to = (\<lambda>m page frame flags fa.
       if m page \<noteq> None then Ret (Inl (PageAlreadyMapped frame), m, fa)
       else Ret (Inr (), m(page \<mapsto> frame), fa))\<rparr>"

lemma page_of_offset:
  assumes "page_of page = page" "off < 4096"
  shows "page_of (page + off) = page" "(page + off) AND 0xfff = off"
proof -
  have p: "page AND NOT (mask 12) = page"
    using assms(1) by (simp add: page_of_def mask_eq_exp_minus_1)
  have o: "off AND mask 12 = off"
    using assms(2) less_mask_eq[of off 12] by simp
  have bp: "12 \<le> n" if "bit page n" for n
    using that p by (metis bit_and_iff bit_mask_iff bit_not_iff not_le bit_imp_le_length)
  have bo: "n < 12" if "bit off n" for n
    using that o by (metis bit_and_iff bit_mask_iff)
  have "page AND off = 0"
    by (rule bit_word_eqI) (use bp bo in \<open>auto simp: bit_and_iff dest: leD\<close>)
  then have "page + off = page OR off"
    by (rule disjunctive_add_eq_or)
  moreover have "(page OR off) AND NOT (mask 12) = page" "(page OR off) AND mask 12 = off"
    by (rule bit_word_eqI;
        use bp bo in \<open>auto simp: bit_and_iff bit_or_iff bit_not_iff bit_mask_iff dest: leD\<close>)+
  ultimately show "page_of (page + off) = page" "(page + off) AND 0xfff = off"
    by (simp_all add: page_of_def mask_eq_exp_minus_1)
qed

interpretation page_map: mapper_documented page_map_functions
  by unfold_locales
    (auto simp: page_map_functions_def page_of_offset intro: exI[of _ 0] split: if_splits)

section \<open>Writing through a mapped page\<close>

definition mapped_to :: "'m mapper_api \<Rightarrow> 'm \<Rightarrow> u64 \<Rightarrow> u64 \<Rightarrow> nat \<Rightarrow> bool" where
  "mapped_to M m va p n \<longleftrightarrow>
     (\<forall>i<n. mp_translate_addr M m (va + of_nat i) = Some (p + of_nat i))"

text \<open>The bytes of memory after writing \<open>bs\<close> from \<open>p\<close> on.\<close>

definition store_bytes :: "u64 \<Rightarrow> u8 list \<Rightarrow> (u64 \<Rightarrow> u8) \<Rightarrow> u64 \<Rightarrow> u8" where
  "store_bytes p bs f a = (if unat (a - p) < length bs then bs ! unat (a - p) else f a)"

lemma mapped_to_Suc:
  "mapped_to M m va p (Suc n) \<longleftrightarrow>
   mp_translate_addr M m va = Some p \<and> mapped_to M m (va + 1) (p + 1) n"
  by (simp add: mapped_to_def All_less_Suc2 add.assoc)

lemma store_bytes_Nil [simp]: "store_bytes p [] f = f"
  by (simp add: store_bytes_def fun_eq_iff)

lemma store_bytes_Cons:
  assumes "length bs < 2 ^ 64 - 1"
  shows "store_bytes (p + 1) bs (f(p := b)) = store_bytes p (b # bs) f"
proof
  fix a
  show "store_bytes (p + 1) bs (f(p := b)) a = store_bytes p (b # bs) f a"
  proof (cases "a = p")
    case True
    have "unat (- 1 :: u64) = 2 ^ 64 - 1" by (simp add: unat_max_word)
    with True assms show ?thesis by (simp add: store_bytes_def)
  next
    case False
    then have nz: "a - p \<noteq> 0" by simp
    then have "unat (a - p) = Suc (unat (a - (p + 1)))"
      using unat_minus_one[OF nz] by (simp add: diff_diff_eq2 unat_gt_0 algebra_simps)
    with False show ?thesis by (simp add: store_bytes_def)
  qed
qed

lemma write_volatile_bytes_mapped:
  "mapped_to M (mm_mapper mm) va p (length bs) \<Longrightarrow> length bs < 2 ^ 64 - 1 \<Longrightarrow>
   write_volatile_bytes M va bs mm = Ret (mm\<lparr>mm_bytes := store_bytes p bs (mm_bytes mm)\<rparr>)"
proof (induction bs arbitrary: va p mm)
  case (Cons b bs)
  then have t: "mp_translate_addr M (mm_mapper mm) va = Some p"
    and m: "mapped_to M (mm_mapper mm) (va + 1) (p + 1) (length bs)"
    by (simp_all add: mapped_to_Suc)
  from Cons.IH[of "mm\<lparr>mm_bytes := (mm_bytes mm)(p := b)\<rparr>", simplified, OF m] Cons.prems
  show ?case using store_bytes_Cons[of bs p "mm_bytes mm" b]
    by (simp add: write_volatile_u8_def t fun_upd_def)
qed simp

lemma read_volatile_bytes_mapped:
  "mapped_to M (mm_mapper mm) va p n \<Longrightarrow>
   read_volatile_bytes M va n mm = Ret (map (\<lambda>i. mm_bytes mm (p + of_nat i)) [0..<n])"
proof (induction n arbitrary: va p)
  case (Suc n)
  then have t: "mp_translate_addr M (mm_mapper mm) va = Some p"
    and m: "mapped_to M (mm_mapper mm) (va + 1) (p + 1) n"
    by (simp_all add: mapped_to_Suc)
  show ?case
    unfolding upt_conv_Cons[OF zero_less_Suc] map_Suc_upt[symmetric]
    by (simp add: Suc.IH[OF m] read_volatile_u8_def t add.assoc)
qed simp

lemma store_bytes_read:
  assumes "length bs < 2 ^ 64"
  shows "map (\<lambda>i. store_bytes p bs f (p + of_nat i)) [0..<length bs] = bs"
proof (rule nth_equalityI)
  fix i
  assume i: "i < length (map (\<lambda>i. store_bytes p bs f (p + of_nat i)) [0..<length bs])"
  with assms have "unat (of_nat i :: u64) = i"
    by (simp add: unat_of_nat take_bit_nat_eq_self)
  with i show "map (\<lambda>i. store_bytes p bs f (p + of_nat i)) [0..<length bs] ! i = bs ! i"
    by (simp add: store_bytes_def)
qed simp

text \<open>What is written through mapped addresses is read back.\<close>

lemma write_then_read:
  assumes "mapped_to M (mm_mapper mm) va p (length bs)" "length bs < 2 ^ 64 - 1"
    "write_volatile_bytes M va bs mm = Ret mm'"
  shows "read_volatile_bytes M va (length bs) mm' = Ret bs"
  using assms write_volatile_bytes_mapped[OF assms(1,2)]
    read_volatile_bytes_mapped[of M mm' va p "length bs"] store_bytes_read[of bs p "mm_bytes mm"]
  by auto

section \<open>Mapping a page\<close>

locale paging = x86_64_documented X + mapper_documented M
  for X :: x86_64_api and M :: "'m mapper_api"
begin

lemma page_of_start: "page_containing_address X a = page_of a"
  by (simp add: page_containing_address page_of_def)

lemma page_of_page [simp]: "page_of (page_of a) = page_of a"
  by (simp add: page_of_def)

lemma map_to_mapped:
  assumes "mp_map_to M m page frame flags fa = Ret (Inr (), m', fa')" "page_of page = page" "n \<le> 4096"
  shows "mapped_to M m' page frame n"
  unfolding mapped_to_def
proof (intro allI impI)
  fix i
  assume "i < n"
  then have "unat (of_nat i :: u64) < 4096"
    using assms(3) by (simp add: unat_of_nat take_bit_nat_eq_self)
  then have "(of_nat i :: u64) < 4096" by (simp add: word_less_nat_alt)
  from map_to_page[OF assms(1,2) this]
  show "mp_translate_addr M m' (page + of_nat i) = Some (frame + of_nat i)" .
qed

lemma map_page_with_flags_cases:
  assumes "allocator_ready fa" "canonical_addr va"
  obtains (Already) "mp_translate_addr M (mm_mapper mm) (page_of va) \<noteq> None"
      "map_page_with_flags X M mm fa va flags = Ret (Inl ''page already mapped'', mm, fa)"
  | (Exhausted) fa' where "mp_translate_addr M (mm_mapper mm) (page_of va) = None"
      "frame_pool fa = []"
      "map_page_with_flags X M mm fa va flags = Ret (Inl ''no free frame for page mapping'', mm, fa')"
  | (Refused) m' fa' where "mp_translate_addr M (mm_mapper mm) (page_of va) = None"
      "map_page_with_flags X M mm fa va flags = Ret (Inl ''map_to failed'', mm\<lparr>mm_mapper := m'\<rparr>, fa')"
  | (Mapped) m' k frame where "mp_translate_addr M (mm_mapper mm) (page_of va) = None"
      "pool_head (frame_pool fa) = Some frame"
      "mp_map_to M (mm_mapper mm) (page_of va) frame flags (fa\<lparr>fa_next := fa_next fa + 1\<rparr>) =
         Ret (Inr (), m', fa\<lparr>fa_next := fa_next fa + Suc k\<rparr>)"
      "map_page_with_flags X M mm fa va flags =
         Ret (Inr (), mm\<lparr>mm_mapper := m'\<rparr>, fa\<lparr>fa_next := fa_next fa + Suc k\<rparr>)"
proof -
  note eval = map_page_with_flags_def va_new assms(2) page_of_start Let_def
    allocate_frame_pool(1)[OF assms(1)]
  have ready: "allocator_ready (fa\<lparr>fa_next := fa_next fa + 1\<rparr>)" using assms(1) by simp
  show thesis
  proof (cases "mp_translate_addr M (mm_mapper mm) (page_of va)")
    case (Some p)
    then show thesis by (intro Already) (simp_all add: eval)
  next
    case None
    note unmapped = None
    show thesis
    proof (cases "frame_pool fa")
      case Nil
      with unmapped show thesis by (intro Exhausted) (simp_all add: eval pool_head_def)
    next
      case (Cons frame frames)
      show thesis
        using ready
      proof (cases rule: map_to_cases[of _ "mm_mapper mm" "page_of va" frame flags])
        case (Mapped m' k)
        with unmapped Cons show thesis
          by (intro that(4)[of frame m' k]) (simp_all add: eval pool_head_def)
      next
        case (Refused e m' k)
        with unmapped Cons show thesis
          by (intro that(3)) (simp_all add: eval pool_head_def)
      qed
    qed
  qed
qed

lemma map_page_outcomes:
  assumes "allocator_ready fa" "canonical_addr va"
  shows "case mp_translate_addr M (mm_mapper mm) (page_of va) of
      Some p \<Rightarrow> map_page_with_flags X M mm fa va flags = Ret (Inl ''page already mapped'', mm, fa)
    | None \<Rightarrow> (case pool_head (frame_pool fa) of
        None \<Rightarrow> map_page_with_flags X M mm fa va flags =
          Ret (Inl ''no free frame for page mapping'', mm, fa\<lparr>fa_next := fa_next fa + 1\<rparr>)
      | Some frame \<Rightarrow> \<exists>r m' fa' k.
          mp_map_to M (mm_mapper mm) (page_of va) frame flags (fa\<lparr>fa_next := fa_next fa + 1\<rparr>) = Ret (r, m', fa') \<and>
          frame_pool fa' = drop (Suc k) (frame_pool fa) \<and>
          map_page_with_flags X M mm fa va flags =
            Ret (case r of Inl e \<Rightarrow> Inl ''map_to failed'' | Inr _ \<Rightarrow> Inr (), mm\<lparr>mm_mapper := m'\<rparr>, fa') \<and>
          (\<forall>u. r = Inr u \<longrightarrow> mapped_to M m' (page_of va) frame 4096 \<and>
            (\<forall>a. page_of a \<noteq> page_of va \<longrightarrow> mp_translate_addr M m' a = mp_translate_addr M (mm_mapper mm) a)))"
proof (cases "mp_translate_addr M (mm_mapper mm) (page_of va)")
  case None
  note eval = map_page_with_flags_def va_new assms(2) page_of_start Let_def None allocate_frame_pool(1)[OF assms(1)]
  let ?fa = "fa\<lparr>fa_next := fa_next fa + 1\<rparr>"
  have ready: "allocator_ready ?fa" using assms(1) by simp
  show ?thesis
  proof (cases "pool_head (frame_pool fa)")
    case (Some frame)
    obtain r m' k where r: "mp_map_to M (mm_mapper mm) (page_of va) frame flags ?fa = Ret (r, m', fa\<lparr>fa_next := fa_next fa + Suc k\<rparr>)"
      using map_to_returns[OF ready, of "mm_mapper mm" "page_of va" frame flags] by auto
    have "mapped_to M m' (page_of va) frame 4096 \<and>
        (\<forall>a. page_of a \<noteq> page_of va \<longrightarrow> mp_translate_addr M m' a = mp_translate_addr M (mm_mapper mm) a)" if "r = Inr u" for u
      using map_to_mapped map_to_other r that by fastforce
    moreover have "map_page_with_flags X M mm fa va flags = Ret (case r of Inl e \<Rightarrow> Inl ''map_to failed'' | Inr _ \<Rightarrow> Inr (),
        mm\<lparr>mm_mapper := m'\<rparr>, fa\<lparr>fa_next := fa_next fa + Suc k\<rparr>)"
      using Some r by (cases r) (simp_all add: eval)
    ultimately show ?thesis
      using None Some r frame_pool_advance[of fa "Suc k"] by auto
  qed (simp add: eval)
qed (simp add: map_page_with_flags_def va_new assms(2) page_of_start)

lemma mapped_to_keep:
  assumes "mapped_to M m page frame 4096" "page_of page = page"
    and "\<And>a. page_of a \<notin> set pages \<Longrightarrow> mp_translate_addr M m' a = mp_translate_addr M m a"
    and "page \<notin> set pages"
  shows "mapped_to M m' page frame 4096"
  unfolding mapped_to_def
proof (intro allI impI)
  fix i :: nat
  assume i: "i < 4096"
  then have "(of_nat i :: u64) < 4096"
    by (simp add: word_less_nat_alt unat_of_nat take_bit_nat_eq_self)
  from page_of_offset(1)[OF assms(2) this] assms(1,3,4) i
  show "mp_translate_addr M m' (page + of_nat i) = Some (frame + of_nat i)"
    by (simp add: mapped_to_def)
qed

lemma map_page_ok:
  assumes "map_page_with_flags X M mm fa va flags = Ret (Inr (), mm', fa')" "allocator_ready fa" "canonical_addr va"
  shows "\<exists>frame rest k. frame_pool fa = frame # rest \<and> frame_pool fa' = drop k rest \<and> allocator_ready fa' \<and>
    mapped_to M (mm_mapper mm') (page_of va) frame 4096 \<and> mm_bytes mm' = mm_bytes mm \<and>
    (\<forall>a. page_of a \<noteq> page_of va \<longrightarrow> mp_translate_addr M (mm_mapper mm') a = mp_translate_addr M (mm_mapper mm) a)"
  using assms(2,3)
proof (cases rule: map_page_with_flags_cases[of fa va mm flags])
  case (Mapped m' k frame)
  with assms(1) have "mm' = mm\<lparr>mm_mapper := m'\<rparr>" "fa' = fa\<lparr>fa_next := fa_next fa + Suc k\<rparr>" by simp_all
  moreover obtain rest where "frame_pool fa = frame # rest"
    using Mapped(2) by (cases "frame_pool fa") (auto simp: pool_head_def)
  moreover have "mapped_to M m' (page_of va) frame 4096" by (rule map_to_mapped[OF Mapped(3)]) simp_all
  ultimately show ?thesis
    using map_to_other[OF Mapped(3)] frame_pool_advance[of fa "Suc k"] assms(2) by auto
qed (use assms(1) in simp_all)

end

interpretation kernel_paging: paging x86_64_functions page_map_functions
  by (intro paging.intro x86_64.x86_64_documented_axioms page_map.mapper_documented_axioms)

section \<open>The demo page\<close>

fun demo_error :: "string \<Rightarrow> string" where
  "demo_error e = (if e = ''page already mapped'' then ''demo page already mapped''
     else if e = ''no free frame for page mapping'' then ''no free frame for demo mapping'' else e)"

text \<open>Mapping the demo page is mapping a page, with its own messages, then a write and a read.\<close>

lemma map_demo_page_via:
  "map_demo_page X M mm fa =
   bind_run (map_page_with_flags X M mm fa DEMO_PAGE_START (flag_PRESENT X OR flag_WRITABLE X)) (\<lambda>(r, mm, fa).
   case r of
     Inl e \<Rightarrow> Ret (Inl (demo_error e), mm, fa)
   | Inr _ \<Rightarrow>
     bind_run (va_new X DEMO_PAGE_START) (\<lambda>va.
     bind_run (write_volatile_bytes M (page_containing_address X va) (to_le_bytes 8 DEMO_PAGE_VALUE) mm) (\<lambda>mm.
     bind_run (read_volatile_bytes M (page_containing_address X va) 8 mm) (\<lambda>bs.
     Ret (Inr (from_le_bytes bs), mm, fa)))))"
  unfolding map_demo_page_def map_page_with_flags_def
  by (cases "va_new X DEMO_PAGE_START")
    (auto simp: Let_def bind_run_assoc split_beta split: option.split sum.split
      intro!: arg_cong[of _ _ "bind_run _"] ext)

lemma demo_start_facts: "canonical_addr DEMO_PAGE_START" "page_of DEMO_PAGE_START = DEMO_PAGE_START"
  by (simp_all add: canonical_addr_def page_of_def DEMO_PAGE_START_def)

section \<open>Properties\<close>

text \<open>
  C23. Mapping a page never panics for a canonical address on a well-formed memory map. A page that is already mapped
  is refused with nothing changed. With no frame left it is refused with the mapping unchanged and the
  allocator past its end. Otherwise the next frame of the pool is handed to the mapper's \<open>map_to\<close> with the page and exactly the flags given: if that
  reports an error, the result is \<open>map_to failed\<close> and mapping and allocator are as \<open>map_to\<close> left them, with the frame
  spent; if not, all 4096 addresses of the page translate into that frame and no other page changes. In both cases
  the frames taken, for the page and for page tables, are the first of the pool. Memory is not written.
\<close>

theorem map_page_with_flags_correct:
  assumes "x86_64_documented X" "mapper_documented M" "allocator_ready fa" "canonical_addr va"
  shows "case mp_translate_addr M (mm_mapper mm) (page_of va) of
      Some p \<Rightarrow> map_page_with_flags X M mm fa va flags = Ret (Inl ''page already mapped'', mm, fa)
    | None \<Rightarrow> (case pool_head (frame_pool fa) of
        None \<Rightarrow> map_page_with_flags X M mm fa va flags =
          Ret (Inl ''no free frame for page mapping'', mm, fa\<lparr>fa_next := fa_next fa + 1\<rparr>)
      | Some frame \<Rightarrow> \<exists>r m' fa' k.
          mp_map_to M (mm_mapper mm) (page_of va) frame flags (fa\<lparr>fa_next := fa_next fa + 1\<rparr>) = Ret (r, m', fa') \<and>
          frame_pool fa' = drop (Suc k) (frame_pool fa) \<and>
          map_page_with_flags X M mm fa va flags =
            Ret (case r of Inl e \<Rightarrow> Inl ''map_to failed'' | Inr _ \<Rightarrow> Inr (), mm\<lparr>mm_mapper := m'\<rparr>, fa') \<and>
          (\<forall>u. r = Inr u \<longrightarrow> mapped_to M m' (page_of va) frame 4096 \<and>
            (\<forall>a. page_of a \<noteq> page_of va \<longrightarrow> mp_translate_addr M m' a = mp_translate_addr M (mm_mapper mm) a)))"
  by (rule paging.map_page_outcomes) (use assms in \<open>simp_all add: paging_def\<close>)

definition demo_machine :: "(u64 \<Rightarrow> u64 option) machine" where
  "demo_machine = \<lparr>mm_mapper = (\<lambda>_. None), mm_bytes = (\<lambda>_. 0)\<rparr>"

lemma demo_allocator_facts:
  "allocator_ready (allocator_init demo_regions)"
  "frame_pool (allocator_init demo_regions) = [0x100000, 0x101000, 0x103000]"
  by (simp_all add: allocator_ready_def allocator_init_def demo_regions_ok frame_pool_def demo_regions_frames)

theorem map_page_with_flags_correct_witness:
  "x86_64_documented x86_64_functions \<and> mapper_documented page_map_functions \<and>
   allocator_ready (allocator_init demo_regions) \<and> canonical_addr 0x666600000000 \<and>
   (\<exists>mm' fa'. map_page_with_flags x86_64_functions page_map_functions demo_machine
      (allocator_init demo_regions) 0x666600000000 7 = Ret (Inr (), mm', fa') \<and>
      mapped_to page_map_functions (mm_mapper mm') 0x666600000000 0x100000 4096)"
proof -
  have c: "canonical_addr 0x666600000000" by (simp add: canonical_addr_def)
  have p: "page_of 0x666600000000 = 0x666600000000" by (simp add: page_of_def)
  have "mp_translate_addr page_map_functions (mm_mapper demo_machine) 0x666600000000 = None"
    by (simp add: page_map_functions_def demo_machine_def)
  moreover have "mp_map_to page_map_functions (mm_mapper demo_machine) 0x666600000000 frame 7 fa =
      Ret (Inr (), (\<lambda>_. None)(0x666600000000 \<mapsto> frame), fa)" for frame fa
    by (simp add: page_map_functions_def demo_machine_def)
  ultimately have "\<exists>mm' fa'. map_page_with_flags x86_64_functions page_map_functions demo_machine
      (allocator_init demo_regions) 0x666600000000 7 = Ret (Inr (), mm', fa') \<and>
      mapped_to page_map_functions (mm_mapper mm') 0x666600000000 0x100000 4096"
    using map_page_with_flags_correct[OF x86_64.x86_64_documented_axioms page_map.mapper_documented_axioms
        demo_allocator_facts(1) c, of demo_machine 7]
    by (auto simp: demo_allocator_facts pool_head_def p)
  then show ?thesis
    using x86_64.x86_64_documented_axioms page_map.mapper_documented_axioms demo_allocator_facts(1) c
    by blast
qed

text \<open>
  The demo page: once the mapper accepts the mapping, the value written through the new page is
  read back unchanged, and it is the only word of physical memory that changes, at the frame the
  page was given.
\<close>

lemma map_demo_page_reads_back:
  assumes "x86_64_documented X" "mapper_documented M" "allocator_ready fa"
    and "mp_translate_addr M (mm_mapper mm) DEMO_PAGE_START = None"
    and "pool_head (frame_pool fa) = Some frame"
    and "mp_map_to M (mm_mapper mm) DEMO_PAGE_START frame (flag_PRESENT X OR flag_WRITABLE X)
       (fa\<lparr>fa_next := fa_next fa + 1\<rparr>) = Ret (Inr (), m', fa')"
  shows "\<exists>mm'. map_demo_page X M mm fa = Ret (Inr DEMO_PAGE_VALUE, mm', fa') \<and> mm_mapper mm' = m' \<and>
     mm_bytes mm' = store_bytes frame (to_le_bytes 8 DEMO_PAGE_VALUE) (mm_bytes mm)"
proof -
  have p: "paging X M" using assms(1,2) by (simp add: paging_def)
  let ?mm = "mm\<lparr>mm_mapper := m'\<rparr>" and ?bs = "to_le_bytes 8 DEMO_PAGE_VALUE"
  note start = x86_64_documented.va_new[OF assms(1)] demo_start_facts paging.page_of_start[OF p]
  have mapped: "map_page_with_flags X M mm fa DEMO_PAGE_START (flag_PRESENT X OR flag_WRITABLE X) =
      Ret (Inr (), ?mm, fa')"
    using assms(4-6) by (simp add: map_page_with_flags_def start
        x86_64_documented.allocate_frame_pool(1)[OF assms(1,3)])
  have m: "mapped_to M (mm_mapper ?mm) DEMO_PAGE_START frame (length ?bs)"
    using paging.map_to_mapped[OF p assms(6) demo_start_facts(2)] by simp
  have "length ?bs < 2 ^ 64 - 1" by simp
  note w = write_volatile_bytes_mapped[OF m this] write_then_read[OF m this]
  from w(2)[OF w(1)] w(1) show ?thesis
    by (simp add: map_demo_page_via mapped start)
qed

end
