(* ===== verification/Heap.thy ===== *)
theory Heap
  imports Paging
begin

text \<open>
  \<open>kernel/src/heap.rs\<close>: mapping the kernel heap page by page and handing its range to the heap
  allocator (the crate \<open>linked_list_allocator\<close>, of which only the range it is initialised with is
  kept).
\<close>

unbundle bit_operations_syntax

definition HEAP_START :: u64 where "HEAP_START = 0x0000444444440000"
definition HEAP_SIZE :: u64 where "HEAP_SIZE = 100 * 1024"

text \<open>The loop over the pages of the heap, left early by the first error.\<close>

fun map_heap_pages ::
  "x86_64_api \<Rightarrow> 'm mapper_api \<Rightarrow> u64 \<Rightarrow> u64 list \<Rightarrow> 'm \<Rightarrow> BootInfoFrameAllocator \<Rightarrow>
   ((unit, MapToError) result \<times> 'm \<times> BootInfoFrameAllocator) run" where
  "map_heap_pages X M flags [] m fa = Ret (Inr (), m, fa)"
| "map_heap_pages X M flags (page # pages) m fa =
     bind_run (allocate_frame X fa) (\<lambda>(f, fa). case f of
        None \<Rightarrow> Ret (Inl FrameAllocationFailed, m, fa)
      | Some frame \<Rightarrow> bind_run (mp_map_to M m page frame flags fa) (\<lambda>(r, m, fa). case r of
           Inl e \<Rightarrow> Ret (Inl e, m, fa)
         | Inr _ \<Rightarrow> map_heap_pages X M flags pages m fa))"

definition init_heap ::
  "x86_64_api \<Rightarrow> 'm mapper_api \<Rightarrow> 'm \<Rightarrow> BootInfoFrameAllocator \<Rightarrow> (u64 \<times> u64) option \<Rightarrow>
   ((unit, MapToError) result \<times> 'm \<times> BootInfoFrameAllocator \<times> (u64 \<times> u64) option) run" where
  "init_heap X M m fa heap =
     bind_run (va_new X HEAP_START) (\<lambda>heap_start.
     bind_run (va_add X heap_start (HEAP_SIZE - 1)) (\<lambda>heap_end.
     let first_page = page_containing_address X heap_start;
         last_page = page_containing_address X heap_end;
         flags = flag_PRESENT X OR flag_WRITABLE X
     in bind_run (map_heap_pages X M flags (page_range_inclusive X first_page last_page) m fa)
       (\<lambda>(r, m, fa). case r of
          Inl e \<Rightarrow> Ret (Inl e, m, fa, heap)
        | Inr _ \<Rightarrow> Ret (Inr (), m, fa, Some (HEAP_START, HEAP_SIZE)))))"

definition probe_allocations :: "u64 \<times> u64" where
  "probe_allocations =
     (let boxed = (0xA1B2C3D4E5F61234 :: u64);
          values = foldl (\<lambda>vs n. vs @ [of_nat n]) [] [1..<17]
      in (boxed, sum_list values))"

section \<open>Mapping a list of pages\<close>

definition frames_for :: "'m mapper_api \<Rightarrow> 'm \<Rightarrow> u64 list \<Rightarrow> u64 list \<Rightarrow> bool" where
  "frames_for M m pages frames \<longleftrightarrow> length frames = length pages \<and>
     list_all2 (\<lambda>page frame. mapped_to M m page frame 4096) pages frames"

context paging
begin

text \<open>
  Without an error the pages are mapped one after the other to different frames of the pool, and
  every other page keeps its translation.
\<close>

lemma map_heap_pages_ok:
  assumes "map_heap_pages X M flags pages m fa = Ret (Inr (), m', fa')"
    and "allocator_ready fa" "distinct pages" "\<forall>p\<in>set pages. page_of p = p" "distinct (frame_pool fa)"
  shows "\<exists>frames. frames_for M m' pages frames \<and> distinct frames \<and> set frames \<subseteq> set (frame_pool fa)"
    and "page_of a \<notin> set pages \<Longrightarrow> mp_translate_addr M m' a = mp_translate_addr M m a"
proof -
  have "(\<exists>frames. frames_for M m' pages frames \<and> distinct frames \<and> set frames \<subseteq> set (frame_pool fa)) \<and>
     (\<forall>a. page_of a \<notin> set pages \<longrightarrow> mp_translate_addr M m' a = mp_translate_addr M m a)"
    using assms
  proof (induction pages arbitrary: m fa)
    case Nil
    then show ?case by (simp add: frames_for_def)
  next
    case (Cons page pages)
    obtain frame where f: "pool_head (frame_pool fa) = Some frame"
      using Cons.prems(1) by (cases "pool_head (frame_pool fa)")
        (simp_all add: allocate_frame_pool[OF Cons.prems(2)])
    let ?fa = "fa\<lparr>fa_next := fa_next fa + 1\<rparr>"
    have ready: "allocator_ready ?fa" using Cons.prems(2) by simp
    obtain r m1 k where r: "mp_map_to M m page frame flags ?fa = Ret (r, m1, ?fa\<lparr>fa_next := fa_next ?fa + k\<rparr>)"
      using map_to_returns[OF ready] by blast
    then have "r = Inr ()"
      using Cons.prems(1) f by (cases r) (simp_all add: allocate_frame_pool[OF Cons.prems(2)])
    with r have m1: "mp_map_to M m page frame flags ?fa = Ret (Inr (), m1, ?fa\<lparr>fa_next := fa_next ?fa + k\<rparr>)"
      by simp
    let ?fa1 = "?fa\<lparr>fa_next := fa_next ?fa + k\<rparr>"
    obtain rest where pool: "frame_pool fa = frame # rest" and d: "frame \<notin> set rest" "distinct rest"
      using f Cons.prems(5) by (cases "frame_pool fa") (auto simp: pool_head_def)
    have rest: "frame_pool ?fa1 = drop k rest"
      using frame_pool_advance[of fa "Suc k"] by (simp add: pool)
    have m2: "map_heap_pages X M flags pages m1 ?fa1 = Ret (Inr (), m', fa')"
      using Cons.prems(1) f m1 by (simp add: allocate_frame_pool[OF Cons.prems(2)])
    have "distinct (frame_pool ?fa1)" using d rest by simp
    from Cons.IH[OF m2] this Cons.prems(2-4) obtain frames where
      fr: "frames_for M m' pages frames" "distinct frames" "set frames \<subseteq> set (frame_pool ?fa1)"
      and keep: "\<And>a. page_of a \<notin> set pages \<Longrightarrow> mp_translate_addr M m' a = mp_translate_addr M m1 a"
      by auto
    have p: "page_of page = page" "page \<notin> set pages" using Cons.prems(3,4) by auto
    have "mapped_to M m' page frame 4096"
      using mapped_to_keep[OF map_to_mapped[OF m1 p(1)] p(1) keep p(2)] by simp
    then have "frames_for M m' (page # pages) (frame # frames)"
      using fr(1) by (simp add: frames_for_def)
    moreover have "distinct (frame # frames)" "set (frame # frames) \<subseteq> set (frame_pool fa)"
      using fr(2) fr(3)[unfolded rest] d set_drop_subset[of k rest] by (auto simp: pool)
    moreover have "mp_translate_addr M m' a = mp_translate_addr M m a" if "page_of a \<notin> set (page # pages)" for a
      using that keep map_to_other[OF m1] by simp
    ultimately show ?case by blast
  qed
  then show "\<exists>frames. frames_for M m' pages frames \<and> distinct frames \<and> set frames \<subseteq> set (frame_pool fa)"
    "page_of a \<notin> set pages \<Longrightarrow> mp_translate_addr M m' a = mp_translate_addr M m a" by blast+
qed

end

definition heap_pages :: "u64 list" where
  "heap_pages = map (\<lambda>k. HEAP_START + of_nat (k * 4096)) [0..<25]"

lemma unat_heap_pages: "map unat heap_pages = map (\<lambda>k. 0x444444440000 + k * 4096) [0..<25]"
proof -
  have "unat (HEAP_START + of_nat (k * 4096)) = 0x444444440000 + k * 4096" if "k < 25" for k
    using that by (simp add: HEAP_START_def unat_word_ariths unat_of_nat take_bit_nat_eq_self)
  then show ?thesis by (simp add: heap_pages_def)
qed

lemma length_heap_pages: "length heap_pages = 25"
  by (simp add: heap_pages_def)

lemma distinct_heap_pages: "distinct heap_pages"
proof -
  have "distinct (map unat heap_pages)" unfolding unat_heap_pages by (simp add: distinct_map inj_on_def)
  then show ?thesis by (simp add: distinct_map)
qed

lemma heap_pages_aligned: "\<forall>p\<in>set heap_pages. page_of p = p"
proof -
  have "list_all (\<lambda>p. p AND NOT 0xfff = p) (map (\<lambda>k. HEAP_START + of_nat (k * 4096)) [0..<25])"
    by (simp add: upt_conv_Cons HEAP_START_def)
  then show ?thesis unfolding list_all_iff by (simp add: heap_pages_def page_of_def)
qed

lemma heap_page_cover:
  assumes "HEAP_START \<le> a" "a < HEAP_START + HEAP_SIZE"
  shows "\<exists>k<25. \<exists>i<4096. a = heap_pages ! k + of_nat i"
proof -
  define n where "n = unat a - 0x444444440000"
  have u: "0x444444440000 \<le> unat a" "unat a < 0x444444440000 + 25 * 4096"
    using assms by (simp_all add: HEAP_START_def HEAP_SIZE_def word_le_nat_alt word_less_nat_alt)
  then have n: "n < 25 * 4096" "unat a = 0x444444440000 + n" by (simp_all add: n_def)
  have "a = of_nat (0x444444440000 + n)" using arg_cong[OF n(2), of "of_nat :: nat \<Rightarrow> u64"] by simp
  also have "n = n div 4096 * 4096 + n mod 4096" by simp
  finally have "a = HEAP_START + of_nat (n div 4096 * 4096) + of_nat (n mod 4096)"
    by (simp only: of_nat_add) (simp add: HEAP_START_def)
  moreover have "n div 4096 < 25" using n(1) by (simp add: less_mult_imp_div_less)
  ultimately show ?thesis
    by (intro exI[of _ "n div 4096"] exI[of _ "n mod 4096"] conjI) (simp_all add: heap_pages_def)
qed

lemma init_heap_unfold:
  assumes "x86_64_documented X"
  shows "init_heap X M m fa heap =
    bind_run (map_heap_pages X M (flag_PRESENT X OR flag_WRITABLE X) heap_pages m fa)
      (\<lambda>(r, m, fa). case r of Inl e \<Rightarrow> Ret (Inl e, m, fa, heap)
        | Inr _ \<Rightarrow> Ret (Inr (), m, fa, Some (HEAP_START, HEAP_SIZE)))"
proof -
  note api = x86_64_documented.va_new[OF assms] x86_64_documented.va_add[OF assms]
    x86_64_documented.page_containing_address[OF assms]
  have "page_range_inclusive X (HEAP_START AND NOT 0xfff) ((HEAP_START + (HEAP_SIZE - 1)) AND NOT 0xfff) = heap_pages"
    by (subst x86_64_documented.page_range_inclusive[OF assms]) (simp_all add: HEAP_START_def HEAP_SIZE_def heap_pages_def)
  moreover have "canonical_addr HEAP_START" "address_window HEAP_START (HEAP_SIZE - 1)"
    by (simp_all add: canonical_addr_def address_window_def HEAP_START_def HEAP_SIZE_def)
  ultimately show ?thesis
    by (simp add: init_heap_def api Let_def)
qed

section \<open>Properties\<close>

text \<open>
  C24. When the heap is initialised without an error, every address of its 100 KiB range translates,
  its 25 pages to 25 different frames of the pool, the pages outside it translate as before, and the
  heap allocator is given exactly this range; on an error the allocator keeps the range it had.
\<close>

theorem init_heap_maps_heap:
  assumes "x86_64_documented X" "mapper_documented M" "allocator_ready fa"
    and "init_heap X M m fa heap = Ret (r, m', fa', heap')"
  shows "(r = Inr () \<longrightarrow> heap' = Some (HEAP_START, HEAP_SIZE) \<and>
      (\<exists>frames. frames_for M m' heap_pages frames \<and> distinct frames \<and> set frames \<subseteq> set (frame_pool fa)) \<and>
      (\<forall>a. page_of a \<notin> set heap_pages \<longrightarrow> mp_translate_addr M m' a = mp_translate_addr M m a) \<and>
      (\<forall>a. HEAP_START \<le> a \<and> a < HEAP_START + HEAP_SIZE \<longrightarrow> mp_translate_addr M m' a \<noteq> None)) \<and>
    (r \<noteq> Inr () \<longrightarrow> heap' = heap)"
proof -
  have p: "paging X M" using assms(1,2) by (simp add: paging_def)
  let ?flags = "flag_PRESENT X OR flag_WRITABLE X"
  have run: "init_heap X M m fa heap = bind_run (map_heap_pages X M ?flags heap_pages m fa)
      (\<lambda>(r, m, fa). case r of Inl e \<Rightarrow> Ret (Inl e, m, fa, heap)
        | Inr _ \<Rightarrow> Ret (Inr (), m, fa, Some (HEAP_START, HEAP_SIZE)))"
    by (simp add: init_heap_unfold[OF assms(1)])
  have "heap' = Some (HEAP_START, HEAP_SIZE) \<and>
      (\<exists>frames. frames_for M m' heap_pages frames \<and> distinct frames \<and> set frames \<subseteq> set (frame_pool fa)) \<and>
      (\<forall>a. page_of a \<notin> set heap_pages \<longrightarrow> mp_translate_addr M m' a = mp_translate_addr M m a) \<and>
      (\<forall>a. HEAP_START \<le> a \<and> a < HEAP_START + HEAP_SIZE \<longrightarrow> mp_translate_addr M m' a \<noteq> None)"
    if "r = Inr ()"
  proof -
    from assms(4) that have m: "map_heap_pages X M ?flags heap_pages m fa = Ret (Inr (), m', fa')"
      and h: "heap' = Some (HEAP_START, HEAP_SIZE)"
      by (auto simp: run bind_run_Ret_iff split: sum.split_asm) (metis sum.exhaust old.unit.exhaust)+
    have "distinct (frame_pool fa)"
      using assms(3) by (simp add: allocator_ready_def frame_pool_def distinct_frame_addresses)
    note ok = paging.map_heap_pages_ok[OF p m assms(3) distinct_heap_pages heap_pages_aligned this]
    then obtain frames where f: "frames_for M m' heap_pages frames" "distinct frames"
      "set frames \<subseteq> set (frame_pool fa)" by blast
    have "mp_translate_addr M m' a \<noteq> None" if a: "HEAP_START \<le> a" "a < HEAP_START + HEAP_SIZE" for a
    proof -
      obtain k i where k: "k < 25" "i < 4096" "a = heap_pages ! k + of_nat i"
        using heap_page_cover[OF a] by blast
      then have "mapped_to M m' (heap_pages ! k) (frames ! k) 4096"
        using f(1) by (simp add: frames_for_def list_all2_conv_all_nth heap_pages_def)
      with k show ?thesis by (simp add: mapped_to_def)
    qed
    with h f ok(2) show ?thesis by blast
  qed
  moreover have "heap' = heap" if "r \<noteq> Inr ()"
    using assms(4) that by (auto simp: run bind_run_Ret_iff split: sum.split_asm) (metis sum.exhaust old.unit.exhaust)
  ultimately show ?thesis by blast
qed

text \<open>A memory map with 32 frames above 1 MiB.\<close>

definition heap_regions :: "MemoryRegion list" where
  "heap_regions = [\<lparr>mr_start = 0x100000, mr_end = 0x120000, mr_kind = Usable\<rparr>]"

lemma heap_regions_ready: "allocator_ready (allocator_init heap_regions)"
  by (simp add: allocator_ready_def allocator_init_def memory_map_ok_def heap_regions_def)

text \<open>On a mapper that accepts unmapped pages the loop ends well when there are frames enough.\<close>

lemma page_map_pages_accept:
  "allocator_ready fa \<Longrightarrow> length pages \<le> length (frame_pool fa) \<Longrightarrow> distinct pages \<Longrightarrow>
   \<forall>p\<in>set pages. m p = None \<Longrightarrow>
   \<exists>m' fa'. map_heap_pages x86_64_functions page_map_functions flags pages m fa = Ret (Inr (), m', fa')"
proof (induction pages arbitrary: m fa)
  case (Cons page pages)
  let ?fa = "fa\<lparr>fa_next := fa_next fa + 1\<rparr>"
  obtain frame rest where pool: "frame_pool fa = frame # rest"
    using Cons.prems(2) by (cases "frame_pool fa") auto
  have rest: "frame_pool ?fa = rest" using frame_pool_advance[of fa 1] by (simp add: pool)
  have "\<exists>m' fa'. map_heap_pages x86_64_functions page_map_functions flags pages (m(page \<mapsto> frame)) ?fa =
      Ret (Inr (), m', fa')"
  proof (rule Cons.IH)
    show "allocator_ready ?fa" using Cons.prems(1) by simp
    show "length pages \<le> length (frame_pool ?fa)" unfolding rest using Cons.prems(2) by (simp add: pool)
    show "distinct pages" "\<forall>p\<in>set pages. (m(page \<mapsto> frame)) p = None" using Cons.prems(3,4) by auto
  qed
  then show ?case
    using Cons.prems(4)
    by (simp add: x86_64.allocate_frame_pool[OF Cons.prems(1)] pool pool_head_def page_map_functions_def)
qed simp

theorem init_heap_maps_heap_witness:
  "\<exists>m' fa' heap'. init_heap x86_64_functions page_map_functions (\<lambda>_. None) (allocator_init heap_regions) None =
      Ret (Inr (), m', fa', heap') \<and> heap' = Some (HEAP_START, HEAP_SIZE) \<and>
      mp_translate_addr page_map_functions m' (HEAP_START + 0x18fff) \<noteq> None"
proof -
  have len: "length (frame_pool (allocator_init heap_regions)) = 32"
    by (simp add: frame_pool_def allocator_init_def frame_addresses_concat region_frames_def heap_regions_def
        address_range_def step_by_4k_def MIN_ALLOCATABLE_PHYS_ADDR_def Let_def)
  obtain m' fa' where "map_heap_pages x86_64_functions page_map_functions
      (flag_PRESENT x86_64_functions OR flag_WRITABLE x86_64_functions) heap_pages (\<lambda>_. None)
      (allocator_init heap_regions) = Ret (Inr (), m', fa')"
    using page_map_pages_accept[OF heap_regions_ready _ distinct_heap_pages, of "\<lambda>_. None"
        "flag_PRESENT x86_64_functions OR flag_WRITABLE x86_64_functions"] len
    by (auto simp: length_heap_pages)
  then have run: "init_heap x86_64_functions page_map_functions (\<lambda>_. None) (allocator_init heap_regions) None =
      Ret (Inr (), m', fa', Some (HEAP_START, HEAP_SIZE))"
    by (simp add: init_heap_unfold[OF x86_64.x86_64_documented_axioms])
  have "HEAP_START \<le> HEAP_START + 0x18fff" "HEAP_START + 0x18fff < HEAP_START + HEAP_SIZE"
    by (simp_all add: HEAP_START_def HEAP_SIZE_def)
  with init_heap_maps_heap[OF x86_64.x86_64_documented_axioms page_map.mapper_documented_axioms
      heap_regions_ready run] run
  show ?thesis by blast
qed

end
