(* ===== verification/Bounded_Queue.thy ===== *)
theory Bounded_Queue
  imports Kernel_Prelude
begin

text \<open>
  The contract between the keyboard interrupt handler, which produces scancodes, and the
  monitor loop, which consumes them: a queue of bounded capacity that drops new elements when
  it is full. \<open>run_ops\<close> runs a sequence of calls, \<open>spec_ops\<close> is what the sequence must do
  to a plain list. \<open>Interrupts\<close> interprets the contract on \<open>ScancodeBuffer\<close>.
\<close>

datatype 'a qop = Push 'a | Pop

fun run_ops :: "('a \<Rightarrow> 'q \<Rightarrow> 'q run) \<Rightarrow> ('q \<Rightarrow> ('a option \<times> 'q) run) \<Rightarrow>
    'a qop list \<Rightarrow> 'q \<Rightarrow> ('a option list \<times> 'q) run" where
  "run_ops push pop [] q = Ret ([], q)"
| "run_ops push pop (Push x # ops) q = bind_run (push x q) (run_ops push pop ops)"
| "run_ops push pop (Pop # ops) q =
     bind_run (pop q) (\<lambda>(r, q'). bind_run (run_ops push pop ops q') (\<lambda>(rs, q''). Ret (r # rs, q'')))"

fun spec_ops :: "nat \<Rightarrow> 'a qop list \<Rightarrow> 'a list \<Rightarrow> 'a option list \<times> 'a list" where
  "spec_ops cap [] xs = ([], xs)"
| "spec_ops cap (Push x # ops) xs = spec_ops cap ops (if length xs < cap then xs @ [x] else xs)"
| "spec_ops cap (Pop # ops) [] = (let (rs, ys) = spec_ops cap ops [] in (None # rs, ys))"
| "spec_ops cap (Pop # ops) (x # xs) = (let (rs, ys) = spec_ops cap ops xs in (Some x # rs, ys))"

text \<open>
  \<open>slack q\<close> is the number of elements the implementation can still drop before its drop
  counter overflows.
\<close>

locale bounded_queue =
  fixes cap :: nat
    and push :: "'a \<Rightarrow> 'q \<Rightarrow> 'q run"
    and pop :: "'q \<Rightarrow> ('a option \<times> 'q) run"
    and contents :: "'q \<Rightarrow> 'a list"
    and slack :: "'q \<Rightarrow> nat"
    and inv :: "'q \<Rightarrow> bool"
  assumes contents_le: "inv q \<Longrightarrow> length (contents q) \<le> cap"
    and push_room: "inv q \<Longrightarrow> length (contents q) < cap \<Longrightarrow>
          \<exists>q'. push x q = Ret q' \<and> inv q' \<and> contents q' = contents q @ [x] \<and> slack q' = slack q"
    and push_full: "inv q \<Longrightarrow> length (contents q) = cap \<Longrightarrow> 0 < slack q \<Longrightarrow>
          \<exists>q'. push x q = Ret q' \<and> inv q' \<and> contents q' = contents q \<and> slack q' = slack q - 1"
    and pop_empty: "inv q \<Longrightarrow> contents q = [] \<Longrightarrow>
          \<exists>q'. pop q = Ret (None, q') \<and> inv q' \<and> contents q' = [] \<and> slack q' = slack q"
    and pop_first: "inv q \<Longrightarrow> contents q = x # xs \<Longrightarrow>
          \<exists>q'. pop q = Ret (Some x, q') \<and> inv q' \<and> contents q' = xs \<and> slack q' = slack q"
begin

lemma push_any:
  assumes "inv q" "0 < slack q"
  shows "\<exists>q'. push x q = Ret q' \<and> inv q' \<and> slack q \<le> slack q' + 1 \<and>
    contents q' = (if length (contents q) < cap then contents q @ [x] else contents q)"
proof (cases "length (contents q) < cap")
  case True
  then show ?thesis using push_room[OF assms(1) True] by fastforce
next
  case False
  then have "length (contents q) = cap" using contents_le[OF assms(1)] by simp
  then show ?thesis using push_full[OF assms(1) _ assms(2)] False by fastforce
qed

lemma pop_any:
  assumes "inv q"
  shows "\<exists>q'. pop q = Ret (case contents q of [] \<Rightarrow> None | x # xs \<Rightarrow> Some x, q') \<and> inv q' \<and>
    contents q' = tl (contents q) \<and> slack q' = slack q"
  using pop_empty[OF assms] pop_first[OF assms] by (cases "contents q") auto

text \<open>Every sequence of calls returns, and does what it does to a plain bounded list.\<close>

theorem run_ops_spec:
  "inv q \<Longrightarrow> length ops \<le> slack q \<Longrightarrow>
   \<exists>rs q'. run_ops push pop ops q = Ret (rs, q') \<and> inv q' \<and>
     spec_ops cap ops (contents q) = (rs, contents q')"
proof (induction ops arbitrary: q)
  case Nil
  then show ?case by simp
next
  case (Cons op ops)
  show ?case
  proof (cases op)
    case (Push x)
    obtain q' where q': "push x q = Ret q'" "inv q'" "slack q \<le> slack q' + 1"
      "contents q' = (if length (contents q) < cap then contents q @ [x] else contents q)"
      using push_any[of q x] Cons.prems by auto
    with Cons.prems(2) have "length ops \<le> slack q'" by simp
    with Cons.IH[OF q'(2)] q' Push show ?thesis by auto
  next
    case Pop
    obtain q' where q': "pop q = Ret (case contents q of [] \<Rightarrow> None | x # xs \<Rightarrow> Some x, q')"
      "inv q'" "contents q' = tl (contents q)" "slack q' = slack q"
      using pop_any[OF Cons.prems(1)] by auto
    with Cons.prems(2) have "length ops \<le> slack q'" by simp
    then obtain rs q'' where "run_ops push pop ops q' = Ret (rs, q'')" "inv q''"
      "spec_ops cap ops (contents q') = (rs, contents q'')"
      using Cons.IH[OF q'(2)] by blast
    then show ?thesis using q' Pop by (cases "contents q") auto
  qed
qed

end

end
