(* ===== verification/Interrupts.thy ===== *)
theory Interrupts
  imports Bounded_Queue
begin

text \<open>
  \<open>kernel/src/interrupts.rs\<close> without its assembly stubs (those are in \<open>Entry_Stubs\<close>):
  the scancode ring buffer, the tick and interrupt counters, the programming of the PIT, the
  handlers and the interrupt descriptor table. The statics of the module are one record. Calls
  into other crates (port I/O, the PIC driver, loading the IDT) have no result the kernel
  reads; they are recorded in order in the record's device log.
\<close>

unbundle bit_operations_syntax

section \<open>The scancode buffer\<close>

definition SCANCODE_BUFFER_SIZE :: nat where
  "SCANCODE_BUFFER_SIZE = 128"

record ScancodeBuffer =
  sb_entries :: "u8 list"
  sb_read_index :: nat
  sb_write_index :: nat
  sb_len :: nat
  sb_dropped :: u64

definition scancode_buffer_new :: ScancodeBuffer where
  "scancode_buffer_new = \<lparr>sb_entries = replicate SCANCODE_BUFFER_SIZE 0, sb_read_index = 0,
     sb_write_index = 0, sb_len = 0, sb_dropped = 0\<rparr>"

text \<open>The guard that \<open>push\<close> and \<open>pop\<close> open with.\<close>

definition scancode_repair :: "ScancodeBuffer \<Rightarrow> ScancodeBuffer" where
  "scancode_repair b =
     (if SCANCODE_BUFFER_SIZE \<le> sb_write_index b \<or> SCANCODE_BUFFER_SIZE \<le> sb_read_index b \<or>
         SCANCODE_BUFFER_SIZE < sb_len b
      then b\<lparr>sb_write_index := sb_write_index b mod SCANCODE_BUFFER_SIZE,
             sb_read_index := sb_read_index b mod SCANCODE_BUFFER_SIZE,
             sb_len := min (sb_len b) SCANCODE_BUFFER_SIZE\<rparr>
      else b)"

definition scancode_push :: "u8 \<Rightarrow> ScancodeBuffer \<Rightarrow> ScancodeBuffer run" where
  "scancode_push scancode b0 =
     (let b = scancode_repair b0
      in if sb_len b = SCANCODE_BUFFER_SIZE
         then bind_run (add_checked_build (sb_dropped b) 1) (\<lambda>d. Ret (b\<lparr>sb_dropped := d\<rparr>))
         else bind_run (arr_set (sb_entries b) (sb_write_index b) scancode)
           (\<lambda>es. Ret (b\<lparr>sb_entries := es,
                sb_write_index := (sb_write_index b + 1) mod SCANCODE_BUFFER_SIZE,
                sb_len := sb_len b + 1\<rparr>)))"

definition scancode_pop :: "ScancodeBuffer \<Rightarrow> (u8 option \<times> ScancodeBuffer) run" where
  "scancode_pop b0 =
     (let b = scancode_repair b0
      in if sb_len b = 0 then Ret (None, b)
         else bind_run (arr_get (sb_entries b) (sb_read_index b))
           (\<lambda>scancode. bind_run (sub_usize (sb_len b) 1)
             (\<lambda>n. Ret (Some scancode,
                b\<lparr>sb_read_index := (sb_read_index b + 1) mod SCANCODE_BUFFER_SIZE, sb_len := n\<rparr>))))"

section \<open>Devices and module state\<close>

definition PIC_1_OFFSET :: u8 where "PIC_1_OFFSET = 32"
definition PIC_2_OFFSET :: u8 where "PIC_2_OFFSET = PIC_1_OFFSET + 8"
definition PIT_INPUT_HZ :: u32 where "PIT_INPUT_HZ = 1193182"
definition PIT_MIN_HZ :: u32 where "PIT_MIN_HZ = 19"
definition PIT_MAX_HZ :: u32 where "PIT_MAX_HZ = PIT_INPUT_HZ"
definition PIT_COMMAND_PORT :: u16 where "PIT_COMMAND_PORT = 0x43"
definition PIT_CHANNEL0_PORT :: u16 where "PIT_CHANNEL0_PORT = 0x40"

datatype InterruptIndex = Timer | Keyboard

definition interrupt_index_as_u8 :: "InterruptIndex \<Rightarrow> u8" where
  "interrupt_index_as_u8 i = (case i of Timer \<Rightarrow> PIC_1_OFFSET | Keyboard \<Rightarrow> PIC_1_OFFSET + 1)"

datatype device_call =
    PortWrite u16 u8
  | EndOfInterrupt u8
  | PicsInitialize u8 u8
  | PicsWriteMasks u8 u8
  | IdtLoad
  | InterruptsEnable

record InterruptState =
  is_ticks :: u64
  is_pit_hz :: u32
  is_keyboard_irqs :: u64
  is_scancodes :: ScancodeBuffer
  is_devices :: "device_call list"

definition interrupt_statics :: InterruptState where
  "interrupt_statics = \<lparr>is_ticks = 0, is_pit_hz = 100, is_keyboard_irqs = 0,
     is_scancodes = scancode_buffer_new, is_devices = []\<rparr>"

definition device :: "device_call list \<Rightarrow> InterruptState \<Rightarrow> InterruptState" where
  "device calls st = st\<lparr>is_devices := is_devices st @ calls\<rparr>"

section \<open>The timer frequency\<close>

definition pit_divisor :: "u32 \<Rightarrow> u16" where
  "pit_divisor requested_hz =
     (let hz = clamp_word requested_hz PIT_MIN_HZ PIT_MAX_HZ
      in ucast (clamp_word (PIT_INPUT_HZ div hz) 1 (ucast (- 1 :: u16))))"

definition program_pit :: "u32 \<Rightarrow> u32 \<times> device_call list" where
  "program_pit requested_hz =
     (let divisor = pit_divisor requested_hz;
          programmed_hz = clamp_word (PIT_INPUT_HZ div ucast divisor) PIT_MIN_HZ PIT_MAX_HZ
      in (programmed_hz,
          [PortWrite PIT_COMMAND_PORT 0x36,
           PortWrite PIT_CHANNEL0_PORT (ucast (divisor AND 0x00ff)),
           PortWrite PIT_CHANNEL0_PORT (ucast (drop_bit 8 divisor))]))"

definition set_pit_hz :: "u32 \<Rightarrow> InterruptState \<Rightarrow> u32 \<times> InterruptState" where
  "set_pit_hz requested_hz st =
     (let (programmed_hz, calls) = program_pit requested_hz
      in (programmed_hz, (device calls st)\<lparr>is_pit_hz := programmed_hz\<rparr>))"

section \<open>Handlers and accessors\<close>

definition interrupts_init :: "InterruptState \<Rightarrow> InterruptState" where
  "interrupts_init st =
     (let st1 = device [IdtLoad, PicsInitialize PIC_1_OFFSET PIC_2_OFFSET,
                        PicsWriteMasks 0xFC 0xFF] st;
          (_, st2) = set_pit_hz 100 st1
      in device [InterruptsEnable] st2)"

definition timer_interrupt_handler :: "InterruptState \<Rightarrow> InterruptState" where
  "timer_interrupt_handler st =
     device [EndOfInterrupt (interrupt_index_as_u8 Timer)] (st\<lparr>is_ticks := is_ticks st + 1\<rparr>)"

definition keyboard_interrupt_handler :: "u8 \<Rightarrow> InterruptState \<Rightarrow> InterruptState run" where
  "keyboard_interrupt_handler scancode st =
     bind_run (scancode_push scancode (is_scancodes st))
       (\<lambda>b. Ret (device [EndOfInterrupt (interrupt_index_as_u8 Keyboard)]
          (st\<lparr>is_keyboard_irqs := is_keyboard_irqs st + 1, is_scancodes := b\<rparr>)))"

definition pop_scancode :: "InterruptState \<Rightarrow> (u8 option \<times> InterruptState) run" where
  "pop_scancode st =
     bind_run (scancode_pop (is_scancodes st)) (\<lambda>(r, b). Ret (r, st\<lparr>is_scancodes := b\<rparr>))"

definition keyboard_counters :: "InterruptState \<Rightarrow> u64 \<times> u64" where
  "keyboard_counters st = (is_keyboard_irqs st, sb_dropped (is_scancodes st))"

section \<open>The interrupt descriptor table\<close>

datatype handler =
    BreakpointHandler
  | PageFaultHandler
  | TimerHandler
  | KeyboardHandler
  | SyscallInterruptEntry
  | UsermodeExitInterruptEntry

datatype privilege = Ring0 | Ring3

definition SYSCALL_INTERRUPT_VECTOR :: u8 where "SYSCALL_INTERRUPT_VECTOR = 0x80"
definition USERMODE_EXIT_INTERRUPT_VECTOR :: u8 where "USERMODE_EXIT_INTERRUPT_VECTOR = 0x81"

text \<open>The entries in the order they are set; vectors 3 and 14 are the CPU's own.\<close>

definition IDT :: "(u8 \<times> handler \<times> privilege) list" where
  "IDT = [(3, BreakpointHandler, Ring0), (14, PageFaultHandler, Ring0),
          (interrupt_index_as_u8 Timer, TimerHandler, Ring0),
          (interrupt_index_as_u8 Keyboard, KeyboardHandler, Ring0),
          (SYSCALL_INTERRUPT_VECTOR, SyscallInterruptEntry, Ring3),
          (USERMODE_EXIT_INTERRUPT_VECTOR, UsermodeExitInterruptEntry, Ring3)]"

definition idt_gate :: "u8 \<Rightarrow> (handler \<times> privilege) option" where
  "idt_gate vector = map_of (rev IDT) vector"

section \<open>The buffer as a bounded queue\<close>

definition scancode_contents :: "ScancodeBuffer \<Rightarrow> u8 list" where
  "scancode_contents b =
     map (\<lambda>k. sb_entries b ! ((sb_read_index b + k) mod SCANCODE_BUFFER_SIZE)) [0..<sb_len b]"

definition scancode_inv :: "ScancodeBuffer \<Rightarrow> bool" where
  "scancode_inv b \<longleftrightarrow> length (sb_entries b) = SCANCODE_BUFFER_SIZE \<and>
     sb_read_index b < SCANCODE_BUFFER_SIZE \<and> sb_len b \<le> SCANCODE_BUFFER_SIZE \<and>
     sb_write_index b = (sb_read_index b + sb_len b) mod SCANCODE_BUFFER_SIZE"

definition scancode_slack :: "ScancodeBuffer \<Rightarrow> nat" where
  "scancode_slack b = 2 ^ 64 - 1 - unat (sb_dropped b)"

lemma SCANCODE_BUFFER_SIZE_pos [simp]: "0 < SCANCODE_BUFFER_SIZE"
  by (simp add: SCANCODE_BUFFER_SIZE_def)

lemma scancode_repair_inv [simp]: "scancode_inv b \<Longrightarrow> scancode_repair b = b"
  by (simp add: scancode_repair_def scancode_inv_def not_le)

lemma length_scancode_contents [simp]: "length (scancode_contents b) = sb_len b"
  by (simp add: scancode_contents_def)

lemma ring_pos_neq:
  assumes "r < n" "k < m" "m < (n::nat)"
  shows "(r + k) mod n \<noteq> (r + m) mod n"
  using ring_dist_pos[of r n k] ring_dist_pos[of r n m] assms by (metis less_trans nat_neq_iff)

lemma scancode_push_room:
  assumes inv: "scancode_inv b" and room: "sb_len b < SCANCODE_BUFFER_SIZE"
  shows "\<exists>b'. scancode_push x b = Ret b' \<and> scancode_inv b' \<and>
    scancode_contents b' = scancode_contents b @ [x] \<and> sb_dropped b' = sb_dropped b"
proof -
  let ?n = SCANCODE_BUFFER_SIZE and ?w = "sb_write_index b" and ?r = "sb_read_index b"
  let ?b = "b\<lparr>sb_entries := (sb_entries b)[?w := x], sb_write_index := (?w + 1) mod ?n,
               sb_len := sb_len b + 1\<rparr>"
  have w: "?w = (?r + sb_len b) mod ?n" "?w < ?n" "length (sb_entries b) = ?n" "?r < ?n"
    using inv by (auto simp: scancode_inv_def)
  have "scancode_push x b = Ret ?b"
    using inv room w by (simp add: scancode_push_def)
  moreover have "scancode_inv ?b"
    using inv room w(1) by (simp add: scancode_inv_def mod_Suc_eq)
  moreover have "(sb_entries b)[?w := x] ! ((?r + k) mod ?n) = sb_entries b ! ((?r + k) mod ?n)"
    if "k < sb_len b" for k
    using ring_pos_neq[OF w(4) that room] w(1) by simp
  then have "scancode_contents ?b = scancode_contents b @ [x]"
    using w by (simp add: scancode_contents_def)
  ultimately show ?thesis by auto
qed

lemma scancode_push_full:
  assumes "scancode_inv b" "sb_len b = SCANCODE_BUFFER_SIZE" "sb_dropped b \<noteq> - 1"
  shows "scancode_push x b = Ret (b\<lparr>sb_dropped := sb_dropped b + 1\<rparr>) \<and>
    unat (sb_dropped b + 1) = unat (sb_dropped b) + 1"
proof -
  have "unat (sb_dropped b) \<noteq> 2 ^ 64 - 1"
    using assms(3) word_unat_eq_iff[of "sb_dropped b" "- 1"] unat_max_word[where 'a = 64] by simp
  then have "unat (sb_dropped b) + 1 < 2 ^ 64"
    using unat_le_max[of "sb_dropped b"] by simp
  then show ?thesis
    using assms(1,2) by (simp add: scancode_push_def add_checked_build_def unat_word_ariths)
qed

lemma scancode_pop_first:
  assumes inv: "scancode_inv b" and ne: "0 < sb_len b"
  shows "\<exists>b'. scancode_pop b = Ret (Some (hd (scancode_contents b)), b') \<and> scancode_inv b' \<and>
    scancode_contents b' = tl (scancode_contents b) \<and> sb_dropped b' = sb_dropped b"
proof -
  let ?n = SCANCODE_BUFFER_SIZE and ?r = "sb_read_index b"
  let ?b = "b\<lparr>sb_read_index := (?r + 1) mod ?n, sb_len := sb_len b - 1\<rparr>"
  obtain m where m: "sb_len b = Suc m" using ne by (cases "sb_len b") auto
  have r: "length (sb_entries b) = ?n" "?r < ?n"
    using inv by (auto simp: scancode_inv_def)
  have c: "scancode_contents b =
      sb_entries b ! ?r # map (\<lambda>k. sb_entries b ! ((?r + Suc k) mod ?n)) [0..<m]"
    using r m by (simp add: scancode_contents_def upt_conv_Cons map_Suc_upt[symmetric] del: upt_Suc)
  have "scancode_pop b = Ret (Some (sb_entries b ! ?r), ?b)"
    using inv ne r by (simp add: scancode_pop_def)
  moreover have "scancode_inv ?b"
    using inv m by (simp add: scancode_inv_def mod_simps)
  moreover have "scancode_contents ?b = tl (scancode_contents b)"
    using m by (simp add: c) (simp add: scancode_contents_def mod_simps)
  ultimately show ?thesis
    by (simp add: c)
qed

interpretation scancodes: bounded_queue
  where cap = SCANCODE_BUFFER_SIZE and push = scancode_push and pop = scancode_pop
    and contents = scancode_contents and slack = scancode_slack and inv = scancode_inv
proof
  fix b :: ScancodeBuffer and x :: u8 and xs
  assume inv: "scancode_inv b"
  then show "length (scancode_contents b) \<le> SCANCODE_BUFFER_SIZE"
    by (simp add: scancode_inv_def)
  show "\<exists>b'. scancode_push x b = Ret b' \<and> scancode_inv b' \<and>
      scancode_contents b' = scancode_contents b @ [x] \<and> scancode_slack b' = scancode_slack b"
    if "length (scancode_contents b) < SCANCODE_BUFFER_SIZE"
    using scancode_push_room[OF inv, of x] that by (auto simp: scancode_slack_def)
  show "\<exists>b'. scancode_push x b = Ret b' \<and> scancode_inv b' \<and>
      scancode_contents b' = scancode_contents b \<and> scancode_slack b' = scancode_slack b - 1"
    if full: "length (scancode_contents b) = SCANCODE_BUFFER_SIZE" and slack: "0 < scancode_slack b"
  proof -
    have "sb_dropped b \<noteq> - 1"
      using slack unat_max_word[where 'a = 64] by (auto simp: scancode_slack_def)
    from scancode_push_full[OF inv _ this, of x] full show ?thesis
      using inv by (auto simp: scancode_slack_def scancode_inv_def scancode_contents_def)
  qed
  show "\<exists>b'. scancode_pop b = Ret (None, b') \<and> scancode_inv b' \<and> scancode_contents b' = [] \<and>
      scancode_slack b' = scancode_slack b" if "scancode_contents b = []"
    using inv that by (simp add: scancode_pop_def scancode_contents_def)
  show "\<exists>b'. scancode_pop b = Ret (Some x, b') \<and> scancode_inv b' \<and> scancode_contents b' = xs \<and>
      scancode_slack b' = scancode_slack b" if c: "scancode_contents b = x # xs"
  proof -
    have "0 < sb_len b" using arg_cong[OF c, of length] by simp
    from scancode_pop_first[OF inv this] c show ?thesis by (auto simp: scancode_slack_def)
  qed
qed

lemma scancode_buffer_new_inv [simp]: "scancode_inv scancode_buffer_new"
  by (simp add: scancode_inv_def scancode_buffer_new_def)

lemma scancode_buffer_new_contents [simp]: "scancode_contents scancode_buffer_new = []"
  by (simp add: scancode_contents_def scancode_buffer_new_def)

section \<open>The PIT divisor\<close>

lemma div_div_div_same:
  fixes n d :: nat
  assumes "0 < d" "d \<le> n"
  shows "n div (n div (n div d)) = n div d"
proof -
  let ?q = "n div d"
  have q: "0 < ?q" using assms by (simp add: div_greater_zero_iff)
  then have d: "d \<le> n div ?q"
    using less_eq_div_iff_mult_less_eq[OF q, of d n] by (simp add: mult.commute)
  then have e: "0 < n div ?q" using assms(1) by simp
  have "?q \<le> n div (n div ?q)"
    using less_eq_div_iff_mult_less_eq[OF e, of ?q n] by (simp add: mult.commute)
  moreover have "n div (n div ?q) \<le> ?q"
    using div_le_mono2[OF assms(1) d] .
  ultimately show ?thesis by simp
qed

definition clamped_hz :: "u32 \<Rightarrow> nat" where
  "clamped_hz requested_hz = max 19 (min 1193182 (unat requested_hz))"

lemma clamped_hz_bounds: "19 \<le> clamped_hz r" "clamped_hz r \<le> 1193182"
  by (auto simp: clamped_hz_def)

lemma u16_max_as_u32 [simp]: "(ucast (- 1 :: u16) :: u32) = 65535"
  by (simp add: unsigned_minus_1_eq_mask mask_eq_exp_minus_1)

lemma unat_pit_divisor: "unat (pit_divisor r) = 1193182 div clamped_hz r"
proof -
  have hz: "unat (clamp_word r PIT_MIN_HZ PIT_MAX_HZ) = clamped_hz r"
    by (simp add: unat_clamp_word clamped_hz_def PIT_MIN_HZ_def PIT_MAX_HZ_def PIT_INPUT_HZ_def)
  have d: "unat (PIT_INPUT_HZ div clamp_word r PIT_MIN_HZ PIT_MAX_HZ) = 1193182 div clamped_hz r"
    by (simp add: unat_div hz) (simp add: PIT_INPUT_HZ_def)
  have "1193182 div clamped_hz r \<le> 1193182 div 19"
    using clamped_hz_bounds(1) by (intro div_le_mono2) auto
  moreover have "1 \<le> 1193182 div clamped_hz r"
    using clamped_hz_bounds[of r] by (simp add: div_greater_zero_iff Suc_le_eq)
  ultimately have range: "1193182 div clamped_hz r \<le> 65535" "1 \<le> 1193182 div clamped_hz r"
    by simp_all
  have "unat (clamp_word (PIT_INPUT_HZ div clamp_word r PIT_MIN_HZ PIT_MAX_HZ) 1
      (ucast (- 1 :: u16))) = 1193182 div clamped_hz r"
    using range by (subst unat_clamp_word) (simp_all add: d)
  then show ?thesis
    using range by (simp add: pit_divisor_def Let_def unsigned_ucast_eq take_bit_nat_eq_self)
qed

lemma unat_programmed_hz:
  "unat (fst (program_pit r)) = 1193182 div (1193182 div clamped_hz r)"
  "19 \<le> unat (fst (program_pit r))" "unat (fst (program_pit r)) \<le> 1193182"
  "clamped_hz r \<le> unat (fst (program_pit r))"
proof -
  let ?d = "1193182 div clamped_hz r"
  have d: "0 < ?d"
    using clamped_hz_bounds[of r] by (simp add: div_greater_zero_iff)
  have ge: "clamped_hz r \<le> 1193182 div ?d"
    using less_eq_div_iff_mult_less_eq[OF d, of "clamped_hz r" 1193182] by (simp add: mult.commute)
  have "unat (PIT_INPUT_HZ div ucast (pit_divisor r)) = 1193182 div ?d"
    by (simp add: unat_div PIT_INPUT_HZ_def unsigned_ucast_eq unat_pit_divisor take_bit_nat_eq_self
        order.strict_trans1[OF div_le_dividend])
  moreover have "1193182 div ?d \<le> 1193182"
    by (rule div_le_dividend)
  ultimately have eq: "unat (fst (program_pit r)) = 1193182 div ?d"
    using ge clamped_hz_bounds(1)[of r]
    by (simp add: program_pit_def Let_def PIT_MIN_HZ_def PIT_MAX_HZ_def PIT_INPUT_HZ_def
        unat_clamp_word[of "19 :: u32" 1193182])
  then show "unat (fst (program_pit r)) = 1193182 div ?d" .
  show "19 \<le> unat (fst (program_pit r))" "clamped_hz r \<le> unat (fst (program_pit r))"
    using eq ge clamped_hz_bounds(1)[of r] by simp_all
  show "unat (fst (program_pit r)) \<le> 1193182"
    unfolding eq by (rule div_le_dividend)
qed

lemma pit_divisor_bytes:
  "unat (ucast (d AND 0x00ff) :: u8) + 256 * unat (ucast (drop_bit 8 d) :: u8) = unat (d :: u16)"
proof -
  have "d AND 0x00ff = take_bit 8 d"
    by (simp add: take_bit_eq_mask mask_eq_exp_minus_1)
  then have "unat (d AND 0x00ff) = unat d mod 256"
    by (simp add: take_bit_eq_mod unat_mod)
  moreover have "unat (drop_bit 8 d) = unat d div 256"
    by (simp add: drop_bit_eq_div unat_div)
  ultimately show ?thesis
    using unat_less_2p[of d]
    by (simp add: unsigned_ucast_eq take_bit_eq_mod less_mult_imp_div_less)
qed

section \<open>Sequences of interrupts and calls\<close>

text \<open>
  The order in which the CPU delivers interrupts and the monitor calls the module is not known;
  an execution is any sequence of these events from \<open>interrupts::init\<close> on. The outputs are
  the scancodes the monitor obtained.
\<close>

datatype irq_event = TimerIrq | KeyboardIrq u8 | PopScancode | SetPitHz u32

fun irq_run :: "irq_event list \<Rightarrow> InterruptState \<Rightarrow> (u8 option list \<times> InterruptState) run" where
  "irq_run [] st = Ret ([], st)"
| "irq_run (TimerIrq # es) st = irq_run es (timer_interrupt_handler st)"
| "irq_run (KeyboardIrq sc # es) st = bind_run (keyboard_interrupt_handler sc st) (irq_run es)"
| "irq_run (PopScancode # es) st =
     bind_run (pop_scancode st) (\<lambda>(r, st').
       bind_run (irq_run es st') (\<lambda>(rs, st''). Ret (r # rs, st'')))"
| "irq_run (SetPitHz hz # es) st = irq_run es (snd (set_pit_hz hz st))"

text \<open>What an event means for the queue of scancodes, and the counters it moves.\<close>

fun queue_ops :: "irq_event list \<Rightarrow> u8 qop list" where
  "queue_ops [] = []"
| "queue_ops (KeyboardIrq sc # es) = Push sc # queue_ops es"
| "queue_ops (PopScancode # es) = Pop # queue_ops es"
| "queue_ops (_ # es) = queue_ops es"

definition timer_irqs :: "irq_event list \<Rightarrow> nat" where
  "timer_irqs es = length (filter (\<lambda>e. e = TimerIrq) es)"

definition keyboard_irq_count :: "irq_event list \<Rightarrow> nat" where
  "keyboard_irq_count es = length (filter (\<lambda>e. case e of KeyboardIrq _ \<Rightarrow> True | _ \<Rightarrow> False) es)"

definition pit_ok :: "InterruptState \<Rightarrow> bool" where
  "pit_ok st \<longleftrightarrow> PIT_MIN_HZ \<le> is_pit_hz st \<and> is_pit_hz st \<le> PIT_MAX_HZ"

text \<open>Scancodes delivered, queued and dropped so far, against the interrupts taken.\<close>

definition delivered :: "u8 option list \<Rightarrow> nat" where
  "delivered rs = length (filter (\<lambda>r. r \<noteq> None) rs)"

lemma length_queue_ops: "length (queue_ops es) \<le> length es"
  by (induction es rule: queue_ops.induct) auto

lemma pit_ok_set_pit_hz: "pit_ok (snd (set_pit_hz hz st))"
proof -
  have "PIT_MIN_HZ \<le> fst (program_pit hz)" "fst (program_pit hz) \<le> PIT_MAX_HZ"
    using unat_programmed_hz(2,3)[of hz]
    by (simp_all add: word_le_nat_alt PIT_MIN_HZ_def PIT_MAX_HZ_def PIT_INPUT_HZ_def)
  then show ?thesis
    by (simp add: pit_ok_def set_pit_hz_def split_beta)
qed

lemma irq_fields [simp]:
  "is_scancodes (timer_interrupt_handler st) = is_scancodes st"
  "is_ticks (timer_interrupt_handler st) = is_ticks st + 1"
  "is_keyboard_irqs (timer_interrupt_handler st) = is_keyboard_irqs st"
  "pit_ok (timer_interrupt_handler st) = pit_ok st"
  "is_scancodes (snd (set_pit_hz hz st)) = is_scancodes st"
  "is_ticks (snd (set_pit_hz hz st)) = is_ticks st"
  "is_keyboard_irqs (snd (set_pit_hz hz st)) = is_keyboard_irqs st"
  by (simp_all add: timer_interrupt_handler_def device_def set_pit_hz_def split_beta pit_ok_def)

text \<open>A run of events is the run of its queue operations, with the counters beside it.\<close>

lemma irq_run_ops:
  "run_ops scancode_push scancode_pop (queue_ops es) (is_scancodes st) = Ret (rs, b) \<Longrightarrow>
   pit_ok st \<Longrightarrow>
   \<exists>st'. irq_run es st = Ret (rs, st') \<and> is_scancodes st' = b \<and> pit_ok st' \<and>
     is_ticks st' = is_ticks st + of_nat (timer_irqs es) \<and>
     is_keyboard_irqs st' = is_keyboard_irqs st + of_nat (keyboard_irq_count es)"
proof (induction es arbitrary: st rs)
  case Nil
  then show ?case by (simp add: timer_irqs_def keyboard_irq_count_def)
next
  case (Cons e es)
  show ?case
  proof (cases e)
    case TimerIrq
    then show ?thesis
      using Cons.IH[of "timer_interrupt_handler st"] Cons.prems
      by (auto simp: timer_irqs_def keyboard_irq_count_def)
  next
    case (KeyboardIrq sc)
    then obtain b1 where b1: "scancode_push sc (is_scancodes st) = Ret b1"
      "run_ops scancode_push scancode_pop (queue_ops es) b1 = Ret (rs, b)"
      using Cons.prems(1) by (auto simp: bind_run_Ret_iff)
    let ?st = "device [EndOfInterrupt (interrupt_index_as_u8 Keyboard)]
          (st\<lparr>is_keyboard_irqs := is_keyboard_irqs st + 1, is_scancodes := b1\<rparr>)"
    have "is_scancodes ?st = b1" "pit_ok ?st" "is_ticks ?st = is_ticks st"
      "is_keyboard_irqs ?st = is_keyboard_irqs st + 1"
      using Cons.prems(2) by (simp_all add: device_def pit_ok_def)
    then show ?thesis
      using Cons.IH[of ?st] b1 KeyboardIrq
      by (auto simp: keyboard_interrupt_handler_def timer_irqs_def keyboard_irq_count_def)
  next
    case PopScancode
    then obtain r rs1 b1 where b1: "scancode_pop (is_scancodes st) = Ret (r, b1)" "rs = r # rs1"
      "run_ops scancode_push scancode_pop (queue_ops es) b1 = Ret (rs1, b)"
      using Cons.prems(1) by (auto simp: bind_run_Ret_iff)
    then show ?thesis
      using Cons.IH[of "st\<lparr>is_scancodes := b1\<rparr>" rs1] Cons.prems(2) PopScancode
      by (auto simp: pop_scancode_def timer_irqs_def keyboard_irq_count_def pit_ok_def)
  next
    case (SetPitHz hz)
    then show ?thesis
      using Cons.IH[of "snd (set_pit_hz hz st)"] Cons.prems pit_ok_set_pit_hz
      by (auto simp: timer_irqs_def keyboard_irq_count_def)
  qed
qed

lemma interrupts_init_fields:
  "is_scancodes (interrupts_init st) = is_scancodes st"
  "is_ticks (interrupts_init st) = is_ticks st"
  "is_keyboard_irqs (interrupts_init st) = is_keyboard_irqs st"
  "pit_ok (interrupts_init st)"
  using pit_ok_set_pit_hz
  by (auto simp: interrupts_init_def device_def Let_def split_beta pit_ok_def set_pit_hz_def)

text \<open>Pushes are delivered, queued or dropped: nothing else happens to a scancode.\<close>

lemma scancode_push_account:
  assumes "scancode_inv b" "sb_dropped b \<noteq> - 1"
  obtains b' where "scancode_push sc b = Ret b'" "scancode_inv b'"
    "sb_len b' + unat (sb_dropped b') = Suc (sb_len b + unat (sb_dropped b))"
    "unat (sb_dropped b') \<le> unat (sb_dropped b) + 1"
proof (cases "sb_len b < SCANCODE_BUFFER_SIZE")
  case True
  then obtain b' where "scancode_push sc b = Ret b'" "scancode_inv b'"
    "scancode_contents b' = scancode_contents b @ [sc]" "sb_dropped b' = sb_dropped b"
    using scancode_push_room[OF assms(1)] by blast
  moreover from this(3) have "sb_len b' = Suc (sb_len b)"
    by (metis length_append_singleton length_scancode_contents)
  ultimately show thesis using that by simp
next
  case False
  then have "sb_len b = SCANCODE_BUFFER_SIZE"
    using assms(1) by (simp add: scancode_inv_def)
  then show thesis
    using scancode_push_full[OF assms(1) _ assms(2), of sc] assms(1)
      that[of "b\<lparr>sb_dropped := sb_dropped b + 1\<rparr>"] by (simp add: scancode_inv_def)
qed

lemma scancode_pop_account:
  assumes "scancode_inv b" "scancode_pop b = Ret (r, b')"
  shows "scancode_inv b' \<and> sb_dropped b' = sb_dropped b \<and>
    sb_len b = (if r = None then 0 else 1) + sb_len b'"
proof (cases "sb_len b = 0")
  case True
  then show ?thesis using assms by (auto simp: scancode_pop_def)
next
  case False
  then obtain b2 where "scancode_pop b = Ret (Some (hd (scancode_contents b)), b2)"
    "scancode_inv b2" "scancode_contents b2 = tl (scancode_contents b)" "sb_dropped b2 = sb_dropped b"
    using scancode_pop_first[OF assms(1)] by blast
  moreover from this(3) have "sb_len b2 = sb_len b - 1"
    by (metis length_scancode_contents length_tl)
  ultimately show ?thesis using False assms(2) by auto
qed

lemma run_ops_account:
  "run_ops scancode_push scancode_pop (queue_ops es) b = Ret (rs, b') \<Longrightarrow> scancode_inv b \<Longrightarrow>
   unat (sb_dropped b) + length es < 2 ^ 64 \<Longrightarrow>
   sb_len b + unat (sb_dropped b) + keyboard_irq_count es =
     delivered rs + sb_len b' + unat (sb_dropped b')"
proof (induction es arbitrary: b rs)
  case Nil
  then show ?case by (simp add: delivered_def keyboard_irq_count_def)
next
  case (Cons e es)
  show ?case
  proof (cases e)
    case (KeyboardIrq sc)
    have "sb_dropped b \<noteq> - 1"
      using Cons.prems(3) unat_max_word[where 'a = 64] by auto
    then obtain b1 where b1: "scancode_push sc b = Ret b1" "scancode_inv b1"
      "sb_len b1 + unat (sb_dropped b1) = Suc (sb_len b + unat (sb_dropped b))"
      "unat (sb_dropped b1) \<le> unat (sb_dropped b) + 1"
      using scancode_push_account[OF Cons.prems(2)] by metis
    have "unat (sb_dropped b1) + length es < 2 ^ 64"
      using Cons.prems(3) b1(4) by simp
    from Cons.IH[OF _ b1(2) this, of rs] show ?thesis
      using Cons.prems(1) KeyboardIrq b1(1,3) by (simp add: keyboard_irq_count_def)
  next
    case PopScancode
    then obtain r b1 rs1 where r: "scancode_pop b = Ret (r, b1)" "rs = r # rs1"
      "run_ops scancode_push scancode_pop (queue_ops es) b1 = Ret (rs1, b')"
      using Cons.prems(1) by (auto simp: bind_run_Ret_iff)
    with scancode_pop_account[OF Cons.prems(2) r(1)] Cons.IH[OF r(3)] Cons.prems(3) PopScancode
    show ?thesis
      by (auto simp: delivered_def keyboard_irq_count_def)
  qed (use Cons in \<open>auto simp: keyboard_irq_count_def\<close>)
qed

text \<open>Every execution from \<open>init\<close> on returns, with the queue and counters of its events.\<close>

lemma irq_run_init:
  assumes "length es < 2 ^ 64"
  shows "\<exists>rs st b. run_ops scancode_push scancode_pop (queue_ops es) scancode_buffer_new = Ret (rs, b) \<and>
    irq_run es (interrupts_init interrupt_statics) = Ret (rs, st) \<and> is_scancodes st = b \<and>
    spec_ops SCANCODE_BUFFER_SIZE (queue_ops es) [] = (rs, scancode_contents b) \<and> pit_ok st \<and>
    is_ticks st = of_nat (timer_irqs es) \<and> is_keyboard_irqs st = of_nat (keyboard_irq_count es)"
proof -
  let ?st0 = "interrupts_init interrupt_statics"
  have b0: "is_scancodes ?st0 = scancode_buffer_new"
    by (simp add: interrupts_init_fields interrupt_statics_def)
  have "length (queue_ops es) \<le> scancode_slack scancode_buffer_new"
    using assms length_queue_ops[of es] by (simp add: scancode_slack_def scancode_buffer_new_def)
  then obtain rs b where ops:
    "run_ops scancode_push scancode_pop (queue_ops es) scancode_buffer_new = Ret (rs, b)"
    "spec_ops SCANCODE_BUFFER_SIZE (queue_ops es) [] = (rs, scancode_contents b)"
    using scancodes.run_ops_spec[OF scancode_buffer_new_inv] by fastforce
  with irq_run_ops[of es ?st0 rs b] b0 interrupts_init_fields show ?thesis
    by (auto simp: interrupt_statics_def)
qed

lemma irq_run_total:
  "length es < 2 ^ 64 \<Longrightarrow> \<exists>rs st. irq_run es (interrupts_init interrupt_statics) = Ret (rs, st)"
  using irq_run_init by blast

lemma irq_run_from_init:
  assumes "irq_run es (interrupts_init interrupt_statics) = Ret (rs, st)" "length es < 2 ^ 64"
  shows "is_ticks st = of_nat (timer_irqs es) \<and> pit_ok st"
  using irq_run_init[OF assms(2)] assms(1) by auto

section \<open>Properties\<close>

text \<open>
  C11. Interrupts and the monitor, in any order. Whatever timer and keyboard interrupts the CPU
  delivers and whatever calls the monitor interleaves with them after \<open>init\<close> (fewer than
  \<open>2 ^ 64\<close> in all), the module never panics; the scancodes the monitor obtains and those
  still queued are exactly what a list of capacity 128 that ignores pushes when full gives for
  the same sequence; the tick counter is the number of timer interrupts; every keyboard
  interrupt is counted and its scancode was delivered, is queued or is counted as dropped; and
  the timer frequency stays in the range of the PIT.
\<close>
theorem interrupts_any_order:
  assumes "length es < 2 ^ 64"
  shows "\<exists>rs st. irq_run es (interrupts_init interrupt_statics) = Ret (rs, st) \<and>
    spec_ops SCANCODE_BUFFER_SIZE (queue_ops es) [] = (rs, scancode_contents (is_scancodes st)) \<and>
    is_ticks st = of_nat (timer_irqs es) \<and>
    fst (keyboard_counters st) = of_nat (keyboard_irq_count es) \<and>
    keyboard_irq_count es = delivered rs + sb_len (is_scancodes st) + unat (snd (keyboard_counters st)) \<and>
    PIT_MIN_HZ \<le> is_pit_hz st \<and> is_pit_hz st \<le> PIT_MAX_HZ"
proof -
  have d0: "unat (sb_dropped scancode_buffer_new) = 0" "sb_len scancode_buffer_new = 0"
    by (simp_all add: scancode_buffer_new_def)
  obtain rs st b where run: "run_ops scancode_push scancode_pop (queue_ops es) scancode_buffer_new = Ret (rs, b)"
    "irq_run es (interrupts_init interrupt_statics) = Ret (rs, st)" "is_scancodes st = b"
    "spec_ops SCANCODE_BUFFER_SIZE (queue_ops es) [] = (rs, scancode_contents b)" "pit_ok st"
    "is_ticks st = of_nat (timer_irqs es)" "is_keyboard_irqs st = of_nat (keyboard_irq_count es)"
    using irq_run_init[OF assms] by blast
  then show ?thesis
    using run_ops_account[OF run(1) scancode_buffer_new_inv] assms d0
    by (auto simp: keyboard_counters_def pit_ok_def)
qed

theorem interrupts_any_order_witness:
  "\<exists>rs st. irq_run [KeyboardIrq 0x1E, TimerIrq, SetPitHz 50, PopScancode, PopScancode]
       (interrupts_init interrupt_statics) = Ret (rs, st) \<and>
     rs = [Some 0x1E, None] \<and> is_ticks st = 1"
  using interrupts_any_order[of "[KeyboardIrq 0x1E, TimerIrq, SetPitHz 50, PopScancode, PopScancode]"]
  by (auto simp: SCANCODE_BUFFER_SIZE_def timer_irqs_def)

text \<open>
  C31. Programming the PIT. The divisor written is the input clock divided by the request clamped
  to \<open>[19, 1193182]\<close>; it fits the 16-bit counter and is not 0, the two data bytes
  reassemble to it, low byte first; the frequency returned and stored is the input clock
  divided by the divisor, in range and at least the clamped request; and asking for the
  frequency that was returned programs the same frequency again.
\<close>
theorem set_pit_hz_correct:
  shows "unat (pit_divisor hz) = 1193182 div clamped_hz hz \<and> 1 \<le> pit_divisor hz \<and>
    snd (program_pit hz) = [PortWrite 0x43 0x36, PortWrite 0x40 (ucast (pit_divisor hz AND 0xff)),
      PortWrite 0x40 (ucast (drop_bit 8 (pit_divisor hz)))] \<and>
    unat (ucast (pit_divisor hz AND 0xff) :: u8) + 256 * unat (ucast (drop_bit 8 (pit_divisor hz)) :: u8)
      = unat (pit_divisor hz) \<and>
    unat (fst (set_pit_hz hz st)) = 1193182 div unat (pit_divisor hz) \<and>
    is_pit_hz (snd (set_pit_hz hz st)) = fst (set_pit_hz hz st) \<and>
    clamped_hz hz \<le> unat (fst (set_pit_hz hz st)) \<and> unat (fst (set_pit_hz hz st)) \<le> 1193182 \<and>
    fst (set_pit_hz (fst (set_pit_hz hz st)) st') = fst (set_pit_hz hz st)"
proof -
  let ?d = "1193182 div clamped_hz hz" and ?new = "fst (program_pit hz)"
  have d: "0 < ?d" "?d \<le> 1193182"
    using clamped_hz_bounds[of hz] by (auto simp: div_greater_zero_iff)
  have "1 \<le> pit_divisor hz"
    using d(1) by (simp add: word_le_nat_alt unat_pit_divisor)
  moreover have "clamped_hz ?new = unat ?new"
    using unat_programmed_hz(2,3)[of hz] by (simp add: clamped_hz_def)
  then have "unat (fst (program_pit ?new)) = unat ?new"
    using div_div_div_same[OF d] by (simp add: unat_programmed_hz(1))
  then have "fst (program_pit ?new) = ?new"
    by (simp add: word_unat_eq_iff)
  ultimately show ?thesis
    using unat_programmed_hz[of hz] pit_divisor_bytes[of "pit_divisor hz"]
    by (simp add: unat_pit_divisor set_pit_hz_def split_beta program_pit_def Let_def
        PIT_COMMAND_PORT_def PIT_CHANNEL0_PORT_def device_def)
qed

text \<open>
  Even from an arbitrary, inconsistent buffer (any indices and length) the guard makes
  \<open>push\<close> and \<open>pop\<close> stay inside the array: they cannot index out of bounds or underflow,
  and leave indices and length in range.
\<close>
lemma scancode_ops_stay_in_bounds:
  assumes "length (sb_entries b) = SCANCODE_BUFFER_SIZE"
  shows "(case scancode_pop b of Ret (r, b') \<Rightarrow> sb_read_index b' < SCANCODE_BUFFER_SIZE \<and>
            sb_write_index b' < SCANCODE_BUFFER_SIZE \<and> sb_len b' \<le> SCANCODE_BUFFER_SIZE
          | Panic e \<Rightarrow> False) \<and>
    (case scancode_push x b of Ret b' \<Rightarrow> sb_read_index b' < SCANCODE_BUFFER_SIZE \<and>
            sb_write_index b' < SCANCODE_BUFFER_SIZE \<and> sb_len b' \<le> SCANCODE_BUFFER_SIZE
          | Panic e \<Rightarrow> e = ArithmeticOverflow \<and> sb_dropped b = - 1)"
proof -
  have ovf: "unat (d :: u64) + 1 < 2 ^ 64 \<or> d = - 1" for d
    using unat_le_max[of d] unat_max_word[where 'a = 64] word_unat_eq_iff[of d "- 1"]
    by fastforce
  show ?thesis
    using assms ovf[of "sb_dropped b"]
    by (auto simp: scancode_pop_def scancode_push_def scancode_repair_def Let_def
        add_checked_build_def SCANCODE_BUFFER_SIZE_def arr_get_def arr_set_def sub_usize_def)
qed

end
