(* ===== verification/Gdt.thy ===== *)
theory Gdt
  imports Kernel_Prelude
begin

text \<open>
  \<open>kernel/src/gdt.rs\<close>: the segment descriptors in the order the kernel appends them, the
  selectors it keeps and the registers it loads. \<open>GlobalDescriptorTable\<close> belongs to the crate
  \<open>x86_64\<close>; its \<open>append\<close> is a parameter.
\<close>

unbundle bit_operations_syntax

datatype descriptor = KernelCode | KernelData | UserData | UserCode | TssSegment u64

record Selectors =
  sl_kernel_code_selector :: u16
  sl_kernel_data_selector :: u16
  sl_user_code_selector :: u16
  sl_user_data_selector :: u16
  sl_tss_selector :: u16

definition RING0_STACK_SIZE :: u64 where "RING0_STACK_SIZE = 4096 * 64"

text \<open>The static \<open>TSS\<close>: the stack the CPU switches to on entry from ring 3.\<close>

definition tss_privilege_stack :: "(u64 \<Rightarrow> u64 \<Rightarrow> u64 run) \<Rightarrow> u64 \<Rightarrow> u64 run" where
  "tss_privilege_stack add ring0_stack = add ring0_stack RING0_STACK_SIZE"

definition gdt_build :: "('g \<Rightarrow> descriptor \<Rightarrow> u16 \<times> 'g) \<Rightarrow> 'g \<Rightarrow> u64 \<Rightarrow> 'g \<times> Selectors" where
  "gdt_build append_entry gdt tss =
     (let (kernel_code_selector, gdt) = append_entry gdt KernelCode;
          (kernel_data_selector, gdt) = append_entry gdt KernelData;
          (user_data_selector, gdt) = append_entry gdt UserData;
          (user_code_selector, gdt) = append_entry gdt UserCode;
          (tss_selector, gdt) = append_entry gdt (TssSegment tss)
      in (gdt, \<lparr>sl_kernel_code_selector = kernel_code_selector,
                sl_kernel_data_selector = kernel_data_selector,
                sl_user_code_selector = user_code_selector,
                sl_user_data_selector = user_data_selector,
                sl_tss_selector = tss_selector\<rparr>))"

datatype segment_load = LoadGdt | SetCS u16 | SetSS u16 | SetDS u16 | SetES u16 | SetFS u16 | SetGS u16 | LoadTss u16

definition gdt_init :: "Selectors \<Rightarrow> segment_load list" where
  "gdt_init s =
     [LoadGdt, SetCS (sl_kernel_code_selector s), SetSS (sl_kernel_data_selector s),
      SetDS (sl_kernel_data_selector s), SetES (sl_kernel_data_selector s),
      SetFS 0, SetGS 0, LoadTss (sl_tss_selector s)]"

section \<open>The selectors\<close>

text \<open>
  The documented behaviour of \<open>append\<close>, with the number of slots in use as the table's abstract state:
  the selector is eight times the slot, with privilege 3 for the user segments; a TSS takes two slots.
\<close>

definition selector_of :: "nat \<Rightarrow> descriptor \<Rightarrow> u16" where
  "selector_of slot d = of_nat (8 * slot) OR (if d = UserData \<or> d = UserCode then 3 else 0)"

definition slots_of :: "descriptor \<Rightarrow> nat" where
  "slots_of d = (case d of TssSegment _ \<Rightarrow> 2 | _ \<Rightarrow> 1)"

locale gdt_documented =
  fixes append_entry :: "'g \<Rightarrow> descriptor \<Rightarrow> u16 \<times> 'g" and used :: "'g \<Rightarrow> nat"
  assumes append_selector: "used g + slots_of d \<le> 8 \<Longrightarrow> fst (append_entry g d) = selector_of (used g) d"
    and append_used: "used g + slots_of d \<le> 8 \<Longrightarrow> used (snd (append_entry g d)) = used g + slots_of d"
begin

lemma selectors_built:
  assumes "used g = 1"
  shows "snd (gdt_build append_entry g tss) = \<lparr>sl_kernel_code_selector = 8, sl_kernel_data_selector = 16,
     sl_user_code_selector = 35, sl_user_data_selector = 27, sl_tss_selector = 40\<rparr>"
proof -
  obtain s1 g1 where a1: "append_entry g KernelCode = (s1, g1)" by (cases "append_entry g KernelCode")
  obtain s2 g2 where a2: "append_entry g1 KernelData = (s2, g2)" by (cases "append_entry g1 KernelData")
  obtain s3 g3 where a3: "append_entry g2 UserData = (s3, g3)" by (cases "append_entry g2 UserData")
  obtain s4 g4 where a4: "append_entry g3 UserCode = (s4, g4)" by (cases "append_entry g3 UserCode")
  obtain s5 g5 where a5: "append_entry g4 (TssSegment tss) = (s5, g5)" by (cases "append_entry g4 (TssSegment tss)")
  have u1: "used g1 = 2" using append_used[of g KernelCode] assms a1 by (simp add: slots_of_def)
  have u2: "used g2 = 3" using append_used[of g1 KernelData] u1 a2 by (simp add: slots_of_def)
  have u3: "used g3 = 4" using append_used[of g2 UserData] u2 a3 by (simp add: slots_of_def)
  have u4: "used g4 = 5" using append_used[of g3 UserCode] u3 a4 by (simp add: slots_of_def)
  have "s1 = 8" "s2 = 16" "s3 = 27" "s4 = 35" "s5 = 40"
    using append_selector[of g KernelCode] append_selector[of g1 KernelData]
      append_selector[of g2 UserData] append_selector[of g3 UserCode] append_selector[of g4 "TssSegment tss"]
      assms u1 u2 u3 u4 a1 a2 a3 a4 a5
    by (simp_all add: slots_of_def selector_of_def)
  then show ?thesis
    by (simp add: gdt_build_def a1 a2 a3 a4 a5)
qed

end

text \<open>A table that is the number of its slots.\<close>

definition slot_append :: "nat \<Rightarrow> descriptor \<Rightarrow> u16 \<times> nat" where
  "slot_append g d = (selector_of g d, g + slots_of d)"

interpretation slot_gdt: gdt_documented slot_append "\<lambda>g. g"
  by unfold_locales (simp_all add: slot_append_def)

end
