(* ===== verification/Syscall.thy ===== *)
theory Syscall
  imports Interrupts Memory Gdt
begin

text \<open>
  \<open>kernel/src/syscall.rs\<close>: the system call numbers and their dispatch, the status encoding between
  handler and caller, the handler on the saved registers, and the set-up of the fast system call
  (\<open>syscall\<close>/\<open>sysret\<close>) registers of the CPU.
\<close>

unbundle bit_operations_syntax

section \<open>Numbers, statuses and errors\<close>

definition SYSCALL_GET_TICKS :: u64 where "SYSCALL_GET_TICKS = 0"
definition SYSCALL_GET_UPTIME_SECONDS :: u64 where "SYSCALL_GET_UPTIME_SECONDS = 1"
definition SYSCALL_ADD :: u64 where "SYSCALL_ADD = 2"
definition SYSCALL_GET_USABLE_MEMORY :: u64 where "SYSCALL_GET_USABLE_MEMORY = 3"
definition SYSCALL_GET_USABLE_FRAMES :: u64 where "SYSCALL_GET_USABLE_FRAMES = 4"

definition SYSCALL_STATUS_OK :: u64 where "SYSCALL_STATUS_OK = 0"
definition SYSCALL_STATUS_UNKNOWN_NUMBER :: u64 where "SYSCALL_STATUS_UNKNOWN_NUMBER = 1"
definition SYSCALL_STATUS_OVERFLOW :: u64 where "SYSCALL_STATUS_OVERFLOW = 2"
definition SYSCALL_STATUS_CONTEXT_UNAVAILABLE :: u64 where "SYSCALL_STATUS_CONTEXT_UNAVAILABLE = 3"

lemmas syscall_numbers = SYSCALL_GET_TICKS_def SYSCALL_GET_UPTIME_SECONDS_def SYSCALL_ADD_def
  SYSCALL_GET_USABLE_MEMORY_def SYSCALL_GET_USABLE_FRAMES_def

lemmas syscall_statuses = SYSCALL_STATUS_OK_def SYSCALL_STATUS_UNKNOWN_NUMBER_def
  SYSCALL_STATUS_OVERFLOW_def SYSCALL_STATUS_CONTEXT_UNAVAILABLE_def

datatype SyscallError = UnknownNumber u64 | Overflow | ContextUnavailable

record SyscallRegisters =
  rg_rax :: u64
  rg_rbx :: u64
  rg_rcx :: u64
  rg_rdx :: u64
  rg_rsi :: u64
  rg_rdi :: u64
  rg_rbp :: u64
  rg_r8 :: u64
  rg_r9 :: u64
  rg_r10 :: u64
  rg_r11 :: u64
  rg_r12 :: u64
  rg_r13 :: u64
  rg_r14 :: u64
  rg_r15 :: u64

text \<open>What the dispatcher reads of the kernel: the interrupt module and the memory summary.\<close>

record kernel_services =
  ks_interrupts :: InterruptState
  ks_memory :: "MemorySummary option"

definition dispatch ::
  "kernel_services \<Rightarrow> u64 \<Rightarrow> u64 \<Rightarrow> u64 \<Rightarrow> u64 \<Rightarrow> (u64, SyscallError) result run" where
  "dispatch ks number arg0 arg1 arg2 =
     (if number = SYSCALL_GET_TICKS then Ret (Inr (is_ticks (ks_interrupts ks)))
      else if number = SYSCALL_GET_UPTIME_SECONDS then
        bind_run (div_word (is_ticks (ks_interrupts ks)) (ucast (is_pit_hz (ks_interrupts ks))))
          (\<lambda>s. Ret (Inr s))
      else if number = SYSCALL_ADD then
        Ret (case checked_add arg0 arg1 of Some s \<Rightarrow> Inr s | None \<Rightarrow> Inl Overflow)
      else if number = SYSCALL_GET_USABLE_MEMORY then
        Ret (case kernel_memory_summary (ks_memory ks) of
               None \<Rightarrow> Inl ContextUnavailable | Some summary \<Rightarrow> Inr (ms_usable_bytes summary))
      else if number = SYSCALL_GET_USABLE_FRAMES then
        Ret (case kernel_memory_summary (ks_memory ks) of
               None \<Rightarrow> Inl ContextUnavailable | Some summary \<Rightarrow> Inr (ms_usable_frames_4k summary))
      else Ret (Inl (UnknownNumber number)))"

definition encode_error :: "SyscallError \<Rightarrow> u64 \<times> u64" where
  "encode_error e =
     (case e of
        UnknownNumber number \<Rightarrow> (number, SYSCALL_STATUS_UNKNOWN_NUMBER)
      | Overflow \<Rightarrow> (0, SYSCALL_STATUS_OVERFLOW)
      | ContextUnavailable \<Rightarrow> (0, SYSCALL_STATUS_CONTEXT_UNAVAILABLE))"

definition decode_response :: "u64 \<Rightarrow> u64 \<Rightarrow> (u64, SyscallError) result" where
  "decode_response status value =
     (if status = SYSCALL_STATUS_OK then Inr value
      else if status = SYSCALL_STATUS_UNKNOWN_NUMBER then Inl (UnknownNumber value)
      else if status = SYSCALL_STATUS_OVERFLOW then Inl Overflow
      else if status = SYSCALL_STATUS_CONTEXT_UNAVAILABLE then Inl ContextUnavailable
      else Inl ContextUnavailable)"

definition handle_interrupt_from_registers ::
  "kernel_services \<Rightarrow> SyscallRegisters \<Rightarrow> SyscallRegisters run" where
  "handle_interrupt_from_registers ks registers =
     (let number = rg_rax registers; arg0 = rg_rdi registers; arg1 = rg_rsi registers;
          arg2 = rg_rdx registers
      in bind_run (dispatch ks number arg0 arg1 arg2) (\<lambda>r.
         Ret (case r of
            Inr value \<Rightarrow> registers\<lparr>rg_rax := value, rg_rcx := SYSCALL_STATUS_OK\<rparr>
          | Inl error \<Rightarrow> (let (value, status) = encode_error error
                        in registers\<lparr>rg_rax := value, rg_rcx := status\<rparr>))))"

definition syscall_name :: "u64 \<Rightarrow> string" where
  "syscall_name number =
     (if number = SYSCALL_GET_TICKS then ''get_ticks''
      else if number = SYSCALL_GET_UPTIME_SECONDS then ''get_uptime_seconds''
      else if number = SYSCALL_ADD then ''add''
      else if number = SYSCALL_GET_USABLE_MEMORY then ''get_usable_memory''
      else if number = SYSCALL_GET_USABLE_FRAMES then ''get_usable_frames''
      else ''unknown'')"

definition error_name :: "SyscallError \<Rightarrow> string" where
  "error_name e =
     (case e of
        UnknownNumber _ \<Rightarrow> ''unknown syscall number''
      | Overflow \<Rightarrow> ''arithmetic overflow''
      | ContextUnavailable \<Rightarrow> ''syscall context unavailable'')"

datatype SyscallAbiMode = InterruptRegistersV2

definition abi_mode :: SyscallAbiMode where "abi_mode = InterruptRegistersV2"

definition abi_mode_name :: string where
  "abi_mode_name = (case abi_mode of InterruptRegistersV2 \<Rightarrow> ''interrupt-register-v2'')"

definition abi_mode_details :: string where
  "abi_mode_details = (case abi_mode of InterruptRegistersV2 \<Rightarrow>
     ''int 0x80 + rax(number), rdi/rsi/rdx(args), rax(return), rcx(status)'')"

definition fast_abi_mode_details :: string where
  "fast_abi_mode_details = ''syscall/sysret + rax(number), rdi/rsi/rdx(args), rax(return), r10(status)''"

section \<open>The fast system call registers\<close>

datatype FastSyscallStage =
    Uninitialized
  | UnsupportedCpu
  | Scaffolded
  | MsrProgrammedNoSce
  | SceEnabledExperimental

definition fast_syscall_stage_name :: "FastSyscallStage \<Rightarrow> string" where
  "fast_syscall_stage_name stage =
     (case stage of
        Uninitialized \<Rightarrow> ''uninitialized''
      | UnsupportedCpu \<Rightarrow> ''unsupported-cpu''
      | Scaffolded \<Rightarrow> ''scaffolded-not-enabled''
      | MsrProgrammedNoSce \<Rightarrow> ''msr-programmed-no-sce''
      | SceEnabledExperimental \<Rightarrow> ''sce-enabled-experimental'')"

record FastSyscallSelectorPlan =
  sp_kernel_cs :: u16
  sp_kernel_ss :: u16
  sp_user_cs :: u16
  sp_user_ss :: u16

record FastSyscallStatus =
  fs_stage :: FastSyscallStage
  fs_cpu_support :: bool
  fs_sce_enabled :: bool
  fs_selectors :: "FastSyscallSelectorPlan option"
  fs_lstar :: "u64 option"
  fs_kernel_gs_base :: "u64 option"
  fs_note :: string

definition DEFAULT_FAST_SYSCALL_STATUS :: FastSyscallStatus where
  "DEFAULT_FAST_SYSCALL_STATUS = \<lparr>fs_stage = Uninitialized, fs_cpu_support = False,
     fs_sce_enabled = False, fs_selectors = None, fs_lstar = None, fs_kernel_gs_base = None,
     fs_note = ''not initialized''\<rparr>"

definition FAST_SYSCALL_STACK_SIZE :: u64 where "FAST_SYSCALL_STACK_SIZE = 4096 * 4"
definition ENABLE_FAST_SYSCALL_SCE :: bool where "ENABLE_FAST_SYSCALL_SCE = True"

record FastSyscallCpuLocal =
  cl_kernel_rsp :: u64
  cl_user_rsp :: u64

text \<open>
  The model-specific registers the module writes, with the static \<open>FAST_SYSCALL_CPU_LOCAL\<close> and the order in which
  they have been written.
\<close>

datatype fast_write =
    StarWrite u16 u16 u16 u16
  | LStarWrite u64
  | SFMaskWrite u64
  | CpuLocalWrite FastSyscallCpuLocal
  | KernelGsBaseWrite u64
  | SceWrite

record fast_msrs =
  msr_efer_sce :: bool
  msr_star :: "(u16 \<times> u16 \<times> u16 \<times> u16) option"
  msr_lstar :: u64
  msr_sfmask :: u64
  msr_kernel_gs_base :: u64
  msr_cpu_local :: FastSyscallCpuLocal
  msr_writes :: "fast_write list"

text \<open>
  The CPU and the \<open>x86_64\<close> crate as the module sees them: \<open>cpuid\<close>, whether \<open>Star::write\<close> accepts
  four selectors, the effect of writing the system call bit of \<open>EFER\<close>, the flag bits, and the
  addresses the linker gives to the entry stub and the two statics.
\<close>

record fast_env =
  fe_cpuid_eax :: "u32 \<Rightarrow> u32"
  fe_cpuid_edx :: "u32 \<Rightarrow> u32"
  fe_star_ok :: "u16 \<Rightarrow> u16 \<Rightarrow> u16 \<Rightarrow> u16 \<Rightarrow> bool"
  fe_set_sce :: "fast_msrs \<Rightarrow> fast_msrs"
  fe_flag_interrupt :: u64
  fe_flag_trap :: u64
  fe_flag_direction :: u64
  fe_entry :: u64
  fe_stack :: u64
  fe_cpu_local :: u64

definition cpu_supports_syscall :: "fast_env \<Rightarrow> bool" where
  "cpu_supports_syscall E =
     (let max_extended = fe_cpuid_eax E 0x80000000
      in if max_extended < 0x80000001 then False
         else fe_cpuid_edx E 0x80000001 AND push_bit 11 1 \<noteq> 0)"

definition selector_plan :: "Selectors \<Rightarrow> FastSyscallSelectorPlan" where
  "selector_plan s = \<lparr>sp_kernel_cs = sl_kernel_code_selector s, sp_kernel_ss = sl_kernel_data_selector s,
     sp_user_cs = sl_user_code_selector s, sp_user_ss = sl_user_data_selector s\<rparr>"

text \<open>A write to a register, and the write of the system call bit of \<open>EFER\<close>, which the processor may refuse.\<close>

fun write_fast :: "fast_env \<Rightarrow> fast_write \<Rightarrow> fast_msrs \<Rightarrow> fast_msrs" where
  "write_fast E (StarWrite ucs uss kcs kss) msrs =
     msrs\<lparr>msr_star := Some (ucs, uss, kcs, kss), msr_writes := msr_writes msrs @ [StarWrite ucs uss kcs kss]\<rparr>"
| "write_fast E (LStarWrite a) msrs = msrs\<lparr>msr_lstar := a, msr_writes := msr_writes msrs @ [LStarWrite a]\<rparr>"
| "write_fast E (SFMaskWrite v) msrs = msrs\<lparr>msr_sfmask := v, msr_writes := msr_writes msrs @ [SFMaskWrite v]\<rparr>"
| "write_fast E (CpuLocalWrite c) msrs = msrs\<lparr>msr_cpu_local := c, msr_writes := msr_writes msrs @ [CpuLocalWrite c]\<rparr>"
| "write_fast E (KernelGsBaseWrite a) msrs =
     msrs\<lparr>msr_kernel_gs_base := a, msr_writes := msr_writes msrs @ [KernelGsBaseWrite a]\<rparr>"
| "write_fast E SceWrite msrs = (fe_set_sce E msrs)\<lparr>msr_writes := msr_writes msrs @ [SceWrite]\<rparr>"

definition program_fast_syscall_msrs ::
  "x86_64_api \<Rightarrow> fast_env \<Rightarrow> Selectors \<Rightarrow> fast_msrs \<Rightarrow>
   ((FastSyscallSelectorPlan \<times> u64 \<times> u64, string) result \<times> fast_msrs) run" where
  "program_fast_syscall_msrs X E s msrs =
     (let plan = selector_plan s
      in if \<not> fe_star_ok E (sl_user_code_selector s) (sl_user_data_selector s)
               (sl_kernel_code_selector s) (sl_kernel_data_selector s)
         then Ret (Inl ''STAR selector layout rejected by x86_64 crate'', msrs)
         else
     (let msrs = write_fast E (StarWrite (sl_user_code_selector s) (sl_user_data_selector s)
               (sl_kernel_code_selector s) (sl_kernel_data_selector s)) msrs
      in bind_run (va_new X (fe_entry E)) (\<lambda>lstar.
     let msrs = write_fast E (LStarWrite lstar) msrs;
         msrs = write_fast E (SFMaskWrite (fe_flag_interrupt E OR fe_flag_trap E OR fe_flag_direction E)) msrs
     in bind_run (va_new X (fe_stack E)) (\<lambda>stack_start.
        bind_run (va_add X stack_start FAST_SYSCALL_STACK_SIZE) (\<lambda>stack_end.
     let stack_top = stack_end AND NOT 0xf;
         msrs = write_fast E (CpuLocalWrite \<lparr>cl_kernel_rsp = stack_top, cl_user_rsp = 0\<rparr>) msrs
     in bind_run (va_new X (fe_cpu_local E)) (\<lambda>kernel_gs_base.
        Ret (Inr (plan, lstar, kernel_gs_base), write_fast E (KernelGsBaseWrite kernel_gs_base) msrs)))))))"

definition init_fast_syscall_scaffold ::
  "x86_64_api \<Rightarrow> fast_env \<Rightarrow> Selectors \<Rightarrow> fast_msrs \<Rightarrow> (FastSyscallStatus \<times> fast_msrs) run" where
  "init_fast_syscall_scaffold X E s msrs =
     (let cpu_support = cpu_supports_syscall E; sce_before = msr_efer_sce msrs
      in if \<not> cpu_support
         then Ret (\<lparr>fs_stage = UnsupportedCpu, fs_cpu_support = False, fs_sce_enabled = sce_before,
                    fs_selectors = None, fs_lstar = None, fs_kernel_gs_base = None,
                    fs_note = ''cpu does not report SYSCALL/SYSRET support''\<rparr>, msrs)
         else bind_run (program_fast_syscall_msrs X E s msrs) (\<lambda>(r, msrs). case r of
           Inl note \<Rightarrow>
             Ret (\<lparr>fs_stage = Scaffolded, fs_cpu_support = True, fs_sce_enabled = sce_before,
                    fs_selectors = Some (selector_plan s), fs_lstar = None, fs_kernel_gs_base = None,
                    fs_note = note\<rparr>, msrs)
         | Inr (plan, lstar, kernel_gs_base) \<Rightarrow>
             (let msrs = (if ENABLE_FAST_SYSCALL_SCE then write_fast E SceWrite msrs else msrs);
                  sce_after = msr_efer_sce msrs
              in if sce_after
                 then Ret (\<lparr>fs_stage = SceEnabledExperimental, fs_cpu_support = True,
                    fs_sce_enabled = True, fs_selectors = Some plan, fs_lstar = Some lstar,
                    fs_kernel_gs_base = Some kernel_gs_base,
                    fs_note = ''SCE enabled (experimental); int 0x80 remains default monitor ABI while syscall path is validated''\<rparr>, msrs)
                 else Ret (\<lparr>fs_stage = MsrProgrammedNoSce, fs_cpu_support = True,
                    fs_sce_enabled = False, fs_selectors = Some plan, fs_lstar = Some lstar,
                    fs_kernel_gs_base = Some kernel_gs_base,
                    fs_note = ''STAR/LSTAR/SFMASK programmed; SCE not enabled (CPU/firmware policy)''\<rparr>, msrs))))"

section \<open>The clock the dispatcher reads\<close>

text \<open>A tick counter with a frequency that is never zero: the division by it cannot panic.\<close>

locale tick_source =
  fixes ticks :: "'s \<Rightarrow> u64" and hz :: "'s \<Rightarrow> u32" and inv :: "'s \<Rightarrow> bool"
  assumes hz_pos: "inv s \<Longrightarrow> hz s \<noteq> 0"
begin

lemma unat_hz: "inv s \<Longrightarrow> 0 < unat (hz s)"
  using hz_pos by (simp add: unat_gt_0)

lemma uptime_defined:
  assumes "inv s"
  shows "\<exists>secs. div_word (ticks s) (ucast (hz s)) = Ret secs \<and> unat secs = unat (ticks s) div unat (hz s)"
proof -
  have "unat (ucast (hz s) :: u64) = unat (hz s)"
    by (simp add: unsigned_ucast_eq take_bit_nat_eq_self order.strict_trans2[OF unat_less_2p])
  moreover from this have "(ucast (hz s) :: u64) \<noteq> 0"
    using unat_hz[OF assms] by (metis less_irrefl unat_0)
  ultimately show ?thesis by (simp add: div_word_def unat_div)
qed

end

interpretation pit_clock: tick_source is_ticks is_pit_hz pit_ok
proof
  fix st
  assume "pit_ok st"
  then have "19 \<le> unat (is_pit_hz st)" by (simp add: pit_ok_def PIT_MIN_HZ_def word_le_nat_alt)
  then show "is_pit_hz st \<noteq> 0" by auto
qed

lemma decode_encode_error: "encode_error e = (value, status) \<Longrightarrow> decode_response status value = Inl e"
  by (cases e) (auto simp: encode_error_def decode_response_def syscall_statuses)

lemma dispatch_total: "pit_ok (ks_interrupts ks) \<Longrightarrow> \<exists>r. dispatch ks number arg0 arg1 arg2 = Ret r"
  using pit_clock.uptime_defined[of "ks_interrupts ks"] by (auto simp: dispatch_def)

text \<open>The value and the status the handler leaves for a result, from which the caller decodes it.\<close>

definition response_of :: "(u64, SyscallError) result \<Rightarrow> u64 \<times> u64" where
  "response_of r = (case r of Inr v \<Rightarrow> (v, SYSCALL_STATUS_OK) | Inl e \<Rightarrow> encode_error e)"

lemma decode_response_of: "response_of r = (v, s) \<Longrightarrow> decode_response s v = r"
  by (cases r) (simp_all add: response_of_def decode_encode_error, simp add: decode_response_def)

lemma handle_interrupt_response:
  assumes "dispatch ks (rg_rax rs) (rg_rdi rs) (rg_rsi rs) (rg_rdx rs) = Ret r" "response_of r = (v, s)"
  shows "handle_interrupt_from_registers ks rs = Ret (rs\<lparr>rg_rax := v, rg_rcx := s\<rparr>)"
  using assms by (cases r) (auto simp: handle_interrupt_from_registers_def response_of_def)

lemma handle_interrupt_result:
  assumes "dispatch ks (rg_rax rs) (rg_rdi rs) (rg_rsi rs) (rg_rdx rs) = Ret r"
  shows "\<exists>value status. handle_interrupt_from_registers ks rs = Ret (rs\<lparr>rg_rax := value, rg_rcx := status\<rparr>) \<and>
    decode_response status value = r"
  using handle_interrupt_response[OF assms] decode_response_of[of r] by (cases "response_of r") auto

section \<open>Properties\<close>

text \<open>
  C21. The status protocol loses nothing: for every number and arguments the handler returns, changes
  \<open>rax\<close> and \<open>rcx\<close> only, and what the caller decodes from them is exactly the dispatcher's result,
  value or error; in particular the error of an unknown number carries that number.
\<close>

theorem syscall_protocol_round_trip:
  assumes "pit_ok (ks_interrupts ks)"
  shows "\<exists>rs' r. handle_interrupt_from_registers ks rs = Ret rs' \<and>
      dispatch ks (rg_rax rs) (rg_rdi rs) (rg_rsi rs) (rg_rdx rs) = Ret r \<and>
      decode_response (rg_rcx rs') (rg_rax rs') = r \<and>
      rs' = rs\<lparr>rg_rax := rg_rax rs', rg_rcx := rg_rcx rs'\<rparr>"
proof -
  obtain r where r: "dispatch ks (rg_rax rs) (rg_rdi rs) (rg_rsi rs) (rg_rdx rs) = Ret r"
    using dispatch_total[OF assms] by blast
  from handle_interrupt_result[OF r] r show ?thesis by auto
qed

definition demo_services :: kernel_services where
  "demo_services = \<lparr>ks_interrupts = interrupts_init interrupt_statics,
     ks_memory = Some (summarize_memory demo_regions)\<rparr>"

definition zero_registers :: SyscallRegisters where
  "zero_registers = \<lparr>rg_rax = 0, rg_rbx = 0, rg_rcx = 0, rg_rdx = 0, rg_rsi = 0, rg_rdi = 0, rg_rbp = 0,
     rg_r8 = 0, rg_r9 = 0, rg_r10 = 0, rg_r11 = 0, rg_r12 = 0, rg_r13 = 0, rg_r14 = 0, rg_r15 = 0\<rparr>"

lemma demo_services_pit: "pit_ok (ks_interrupts demo_services)"
  by (simp add: demo_services_def interrupts_init_fields)

theorem syscall_protocol_round_trip_witness:
  "pit_ok (ks_interrupts demo_services) \<and>
   (\<exists>rs'. handle_interrupt_from_registers demo_services (zero_registers\<lparr>rg_rax := 99\<rparr>) = Ret rs' \<and>
     decode_response (rg_rcx rs') (rg_rax rs') = Inl (UnknownNumber 99))"
  using syscall_protocol_round_trip[OF demo_services_pit, of "zero_registers\<lparr>rg_rax := 99\<rparr>"] demo_services_pit
  by (auto simp: dispatch_def syscall_numbers)

text \<open>
  C22. What each system call returns, over any execution of the interrupt module from \<open>init\<close> on: the
  tick call counts the timer interrupts, the uptime call divides them by the current frequency and
  never panics, addition is exact or reports an overflow, the memory calls answer from the summary or
  report that there is none, and every other number is rejected.
\<close>

theorem dispatch_after_any_interrupts:
  assumes "irq_run es (interrupts_init interrupt_statics) = Ret (outs, st)" "length es < 2 ^ 64"
    and "ks_interrupts ks = st"
  shows "(\<exists>t. dispatch ks 0 a b c = Ret (Inr t) \<and> unat t = timer_irqs es) \<and>
    (\<exists>s. dispatch ks 1 a b c = Ret (Inr s) \<and> unat s = timer_irqs es div unat (is_pit_hz st)) \<and>
    dispatch ks 2 a b c = Ret (if unat a + unat b < 2 ^ 64 then Inr (a + b) else Inl Overflow) \<and>
    dispatch ks 3 a b c = Ret (case ks_memory ks of None \<Rightarrow> Inl ContextUnavailable
           | Some summary \<Rightarrow> Inr (ms_usable_bytes summary)) \<and>
    dispatch ks 4 a b c = Ret (case ks_memory ks of None \<Rightarrow> Inl ContextUnavailable
           | Some summary \<Rightarrow> Inr (ms_usable_frames_4k summary)) \<and>
    (\<forall>n > 4. dispatch ks n a b c = Ret (Inl (UnknownNumber n)))"
proof -
  have st: "is_ticks st = of_nat (timer_irqs es)" "pit_ok st"
    using irq_run_from_init[OF assms(1,2)] by simp_all
  have "timer_irqs es \<le> length es" by (simp add: timer_irqs_def)
  then have t: "unat (is_ticks st) = timer_irqs es"
    using assms(2) st(1) by (simp add: unat_of_nat take_bit_nat_eq_self)
  then have "\<exists>t. dispatch ks 0 a b c = Ret (Inr t) \<and> unat t = timer_irqs es"
    using assms(3) by (simp add: dispatch_def syscall_numbers)
  moreover have "\<exists>s. dispatch ks 1 a b c = Ret (Inr s) \<and> unat s = timer_irqs es div unat (is_pit_hz st)"
    using pit_clock.uptime_defined[OF st(2)] t assms(3) by (auto simp: dispatch_def syscall_numbers)
  moreover have "\<forall>n > 4. dispatch ks n a b c = Ret (Inl (UnknownNumber n))"
    by (auto simp: dispatch_def syscall_numbers)
  ultimately show ?thesis
    by (simp add: dispatch_def syscall_numbers checked_add_def kernel_memory_summary_def)
qed

theorem dispatch_after_any_interrupts_witness:
  "\<exists>outs st. irq_run [TimerIrq, KeyboardIrq 0x1E, TimerIrq] (interrupts_init interrupt_statics) = Ret (outs, st) \<and>
     (\<exists>t. dispatch \<lparr>ks_interrupts = st, ks_memory = None\<rparr> 0 0 0 0 = Ret (Inr t) \<and> unat t = 2) \<and>
     dispatch \<lparr>ks_interrupts = st, ks_memory = None\<rparr> 9 0 0 0 = Ret (Inl (UnknownNumber 9))"
proof -
  let ?es = "[TimerIrq, KeyboardIrq 0x1E, TimerIrq]"
  obtain outs st where run: "irq_run ?es (interrupts_init interrupt_statics) = Ret (outs, st)"
    using irq_run_total[of ?es] by auto
  have len: "length ?es < 2 ^ 64" by simp
  show ?thesis
    using dispatch_after_any_interrupts[OF run len, of "\<lparr>ks_interrupts = st, ks_memory = None\<rparr>" 0 0 0] run
    by (auto simp: timer_irqs_def)
qed

text \<open>
  What the CPU and the crate promise of the fast system call set-up: writing the system call bit of
  \<open>EFER\<close> changes no other register, the linker's addresses are canonical with room for the
  stack, and \<open>Star::write\<close> accepts the selectors that \<open>sysret\<close> and \<open>syscall\<close> can derive from each
  other.
\<close>

definition fast_env_ok :: "fast_env \<Rightarrow> bool" where
  "fast_env_ok E \<longleftrightarrow> canonical_addr (fe_entry E) \<and> canonical_addr (fe_stack E) \<and>
     canonical_addr (fe_cpu_local E) \<and> address_window (fe_stack E) FAST_SYSCALL_STACK_SIZE"

definition sce_write_documented :: "fast_env \<Rightarrow> bool" where
  "sce_write_documented E \<longleftrightarrow> (\<forall>m. fe_set_sce E m = m\<lparr>msr_efer_sce := msr_efer_sce (fe_set_sce E m)\<rparr>)"

definition star_documented :: "fast_env \<Rightarrow> bool" where
  "star_documented E \<longleftrightarrow> (\<forall>ucs uss kcs kss. fe_star_ok E ucs uss kcs kss \<longleftrightarrow>
     uint ucs - 16 = uint uss - 8 \<and> uint kcs = uint kss - 8 \<and> uss AND 3 = 3 \<and> kss AND 3 = 0)"

text \<open>The writes of a set-up that goes through, before the system call bit.\<close>

definition fast_writes :: "fast_env \<Rightarrow> Selectors \<Rightarrow> fast_write list" where
  "fast_writes E s = [StarWrite (sl_user_code_selector s) (sl_user_data_selector s) (sl_kernel_code_selector s) (sl_kernel_data_selector s),
     LStarWrite (fe_entry E), SFMaskWrite (fe_flag_interrupt E OR fe_flag_trap E OR fe_flag_direction E),
     CpuLocalWrite \<lparr>cl_kernel_rsp = (fe_stack E + FAST_SYSCALL_STACK_SIZE) AND NOT 0xf, cl_user_rsp = 0\<rparr>,
     KernelGsBaseWrite (fe_cpu_local E)]"

lemma program_fast_syscall_msrs_ok:
  assumes "x86_64_documented X" "fast_env_ok E"
    and "fe_star_ok E (sl_user_code_selector s) (sl_user_data_selector s)
      (sl_kernel_code_selector s) (sl_kernel_data_selector s)"
  shows "program_fast_syscall_msrs X E s msrs =
    Ret (Inr (selector_plan s, fe_entry E, fe_cpu_local E),
      msrs\<lparr>msr_star := Some (sl_user_code_selector s, sl_user_data_selector s,
             sl_kernel_code_selector s, sl_kernel_data_selector s),
           msr_lstar := fe_entry E,
           msr_sfmask := fe_flag_interrupt E OR fe_flag_trap E OR fe_flag_direction E,
           msr_cpu_local := \<lparr>cl_kernel_rsp = (fe_stack E + FAST_SYSCALL_STACK_SIZE) AND NOT 0xf, cl_user_rsp = 0\<rparr>,
           msr_kernel_gs_base := fe_cpu_local E, msr_writes := msr_writes msrs @ fast_writes E s\<rparr>)"
  using assms(2,3)
  by (simp add: program_fast_syscall_msrs_def x86_64_documented.va_new[OF assms(1)]
      x86_64_documented.va_add[OF assms(1)] fast_env_ok_def fast_writes_def Let_def)

lemma unat_align_down_16: "unat ((a :: u64) AND NOT 0xf) = unat a - unat a mod 16"
proof -
  have "(a AND NOT (mask 4)) + (a AND mask 4) = a"
    by (subst disjunctive_add_eq_or; intro bit_word_eqI) (auto simp: bit_and_iff bit_or_iff bit_not_iff)
  moreover have "unat (a AND mask 4) = unat a mod 16"
    by (simp only: take_bit_eq_mask[symmetric] take_bit_eq_mod) (simp add: unat_mod)
  moreover have "(a AND mask 4) \<le> a" by (rule word_and_le2)
  ultimately have "unat (a AND NOT (mask 4)) = unat a - unat a mod 16"
    by (metis add_diff_cancel_right' unat_sub)
  then show ?thesis by (simp add: mask_eq_exp_minus_1)
qed

text \<open>
  C27. Setting up the fast system call: it returns, the reported \<open>SCE\<close> state is the one in \<open>EFER\<close>, a
  CPU without support or a rejected selector layout leaves every register as it was, and whenever the
  registers are reported as programmed, they hold the entry stub, the kernel's and the user's
  selectors, a mask with the interrupt, trap and direction flags, and a 16-byte aligned kernel stack
  pointer at the top of the fast system call stack. The bit that enables the instruction is written last, after
  each of these registers has been written once and with its final value.
\<close>

theorem init_fast_syscall_programs_registers:
  assumes "x86_64_documented X" "fast_env_ok E" "sce_write_documented E"
  shows "\<exists>status msrs'. init_fast_syscall_scaffold X E s msrs = Ret (status, msrs') \<and>
    fs_sce_enabled status = msr_efer_sce msrs' \<and> fs_cpu_support status = cpu_supports_syscall E \<and>
    (fs_stage status \<in> {UnsupportedCpu, Scaffolded} \<longrightarrow> msrs' = msrs) \<and>
    (fs_stage status \<notin> {UnsupportedCpu, Scaffolded} \<longrightarrow>
      fs_lstar status = Some (fe_entry E) \<and> msr_lstar msrs' = fe_entry E \<and>
      fs_kernel_gs_base status = Some (fe_cpu_local E) \<and> msr_kernel_gs_base msrs' = fe_cpu_local E \<and>
      fs_selectors status = Some (selector_plan s) \<and>
      msr_star msrs' = Some (sl_user_code_selector s, sl_user_data_selector s,
        sl_kernel_code_selector s, sl_kernel_data_selector s) \<and>
      msr_sfmask msrs' = fe_flag_interrupt E OR fe_flag_trap E OR fe_flag_direction E \<and>
      unat (cl_kernel_rsp (msr_cpu_local msrs')) mod 16 = 0 \<and>
      unat (fe_stack E) + 16384 - 16 < unat (cl_kernel_rsp (msr_cpu_local msrs')) \<and>
      unat (cl_kernel_rsp (msr_cpu_local msrs')) \<le> unat (fe_stack E) + 16384 \<and>
      msr_writes msrs' = msr_writes msrs @
        [StarWrite (sl_user_code_selector s) (sl_user_data_selector s) (sl_kernel_code_selector s) (sl_kernel_data_selector s),
         LStarWrite (msr_lstar msrs'), SFMaskWrite (msr_sfmask msrs'), CpuLocalWrite (msr_cpu_local msrs'),
         KernelGsBaseWrite (msr_kernel_gs_base msrs'), SceWrite])"
proof (cases "cpu_supports_syscall E \<and> fe_star_ok E (sl_user_code_selector s) (sl_user_data_selector s)
      (sl_kernel_code_selector s) (sl_kernel_data_selector s)")
  case False
  then show ?thesis
    by (auto simp: init_fast_syscall_scaffold_def program_fast_syscall_msrs_def Let_def)
next
  case True
  let ?top = "fe_stack E + FAST_SYSCALL_STACK_SIZE"
  have "unat ?top = unat (fe_stack E) + 16384"
    using assms(2) by (simp add: fast_env_ok_def address_window_def FAST_SYSCALL_STACK_SIZE_def unat_word_ariths)
  then have rsp: "unat (?top AND NOT 0xf) mod 16 = 0"
    "unat (fe_stack E) + 16384 - 16 < unat (?top AND NOT 0xf)" "unat (?top AND NOT 0xf) \<le> unat (fe_stack E) + 16384"
    unfolding unat_align_down_16
    by (simp_all add: minus_mod_eq_mult_div)
  have sce: "fe_set_sce E m = m\<lparr>msr_efer_sce := msr_efer_sce (fe_set_sce E m)\<rparr>" for m
    using assms(3) unfolding sce_write_documented_def by blast
  define m where "m = msrs\<lparr>msr_star := Some (sl_user_code_selector s, sl_user_data_selector s,
             sl_kernel_code_selector s, sl_kernel_data_selector s),
           msr_lstar := fe_entry E,
           msr_sfmask := fe_flag_interrupt E OR fe_flag_trap E OR fe_flag_direction E,
           msr_cpu_local := \<lparr>cl_kernel_rsp = ?top AND NOT 0xf, cl_user_rsp = 0\<rparr>,
           msr_kernel_gs_base := fe_cpu_local E, msr_writes := msr_writes msrs @ fast_writes E s\<rparr>"
  have p: "program_fast_syscall_msrs X E s msrs = Ret (Inr (selector_plan s, fe_entry E, fe_cpu_local E), m)"
    using program_fast_syscall_msrs_ok[OF assms(1,2)] True by (simp add: m_def)
  obtain b where b: "fe_set_sce E m = m\<lparr>msr_efer_sce := b\<rparr>" using sce by metis
  show ?thesis
    using True rsp
    by (cases b) (simp_all add: init_fast_syscall_scaffold_def p ENABLE_FAST_SYSCALL_SCE_def Let_def b,
        simp_all add: m_def fast_writes_def)
qed

text \<open>An environment whose CPU has the instruction and takes the bit.\<close>

definition demo_env :: fast_env where
  "demo_env = \<lparr>fe_cpuid_eax = (\<lambda>_. 0x80000008), fe_cpuid_edx = (\<lambda>_. 0x2c100800),
     fe_star_ok = (\<lambda>ucs uss kcs kss. uint ucs - 16 = uint uss - 8 \<and> uint kcs = uint kss - 8 \<and>
        uss AND 3 = 3 \<and> kss AND 3 = 0),
     fe_set_sce = (\<lambda>m. m\<lparr>msr_efer_sce := True\<rparr>),
     fe_flag_interrupt = 0x200, fe_flag_trap = 0x100, fe_flag_direction = 0x400,
     fe_entry = 0x200000, fe_stack = 0x300008, fe_cpu_local = 0x400000\<rparr>"

definition reset_msrs :: fast_msrs where
  "reset_msrs = \<lparr>msr_efer_sce = False, msr_star = None, msr_lstar = 0, msr_sfmask = 0,
     msr_kernel_gs_base = 0, msr_cpu_local = \<lparr>cl_kernel_rsp = 0, cl_user_rsp = 0\<rparr>, msr_writes = []\<rparr>"

lemma demo_env_facts: "fast_env_ok demo_env" "sce_write_documented demo_env" "star_documented demo_env"
  "cpu_supports_syscall demo_env"
  by (simp_all add: demo_env_def fast_env_ok_def canonical_addr_def address_window_def
      FAST_SYSCALL_STACK_SIZE_def sce_write_documented_def star_documented_def cpu_supports_syscall_def)

definition demo_selectors :: Selectors where
  "demo_selectors = \<lparr>sl_kernel_code_selector = 8, sl_kernel_data_selector = 16, sl_user_code_selector = 35,
     sl_user_data_selector = 27, sl_tss_selector = 40\<rparr>"

theorem init_fast_syscall_programs_registers_witness:
  "fast_env_ok demo_env \<and> sce_write_documented demo_env \<and>
   (\<exists>status msrs'. init_fast_syscall_scaffold x86_64_functions demo_env demo_selectors reset_msrs = Ret (status, msrs') \<and>
     fs_stage status = SceEnabledExperimental \<and> fs_sce_enabled status = msr_efer_sce msrs' \<and>
     msr_writes msrs' = [StarWrite 35 27 8 16, LStarWrite 0x200000, SFMaskWrite (msr_sfmask msrs'), CpuLocalWrite (msr_cpu_local msrs'),
       KernelGsBaseWrite 0x400000, SceWrite])"
proof -
  have "fe_star_ok demo_env (sl_user_code_selector demo_selectors) (sl_user_data_selector demo_selectors)
      (sl_kernel_code_selector demo_selectors) (sl_kernel_data_selector demo_selectors)"
    by (simp add: demo_env_def demo_selectors_def)
  from program_fast_syscall_msrs_ok[OF x86_64.x86_64_documented_axioms demo_env_facts(1) this] demo_env_facts(4)
  have "\<exists>status m. init_fast_syscall_scaffold x86_64_functions demo_env demo_selectors reset_msrs = Ret (status, m) \<and>
      fs_stage status = SceEnabledExperimental"
    by (simp add: init_fast_syscall_scaffold_def ENABLE_FAST_SYSCALL_SCE_def) (simp add: demo_env_def)
  moreover have "fe_entry demo_env = 0x200000" "fe_cpu_local demo_env = 0x400000" "msr_writes reset_msrs = []"
    by (simp_all add: demo_env_def reset_msrs_def)
  ultimately show ?thesis
    using init_fast_syscall_programs_registers[OF x86_64.x86_64_documented_axioms demo_env_facts(1,2), of demo_selectors reset_msrs]
      demo_env_facts(1,2)
    by (auto simp: demo_selectors_def)
qed

text \<open>
  C26. The order in which the kernel appends its segments (user data before user code) gives selectors
  that \<open>Star::write\<close> accepts, so on a CPU with support that takes the bit, the boot sequence from a
  table holding the null descriptor ends with the fast system call enabled.
\<close>

theorem gdt_layout_enables_fast_syscall:
  assumes "x86_64_documented X" "fast_env_ok E" "star_documented E" "gdt_documented append_entry used"
    and "used gdt = 1" "cpu_supports_syscall E" "\<forall>m. fe_set_sce E m = m\<lparr>msr_efer_sce := True\<rparr>"
  shows "\<exists>status msrs'.
    init_fast_syscall_scaffold X E (snd (gdt_build append_entry gdt tss)) msrs = Ret (status, msrs') \<and>
    fs_stage status = SceEnabledExperimental \<and> msr_efer_sce msrs' \<and>
    fs_selectors status = Some \<lparr>sp_kernel_cs = 8, sp_kernel_ss = 16, sp_user_cs = 35, sp_user_ss = 27\<rparr>"
proof -
  let ?s = "snd (gdt_build append_entry gdt tss)"
  note s = gdt_documented.selectors_built[OF assms(4,5), of tss]
  have "fe_star_ok E (sl_user_code_selector ?s) (sl_user_data_selector ?s)
      (sl_kernel_code_selector ?s) (sl_kernel_data_selector ?s)"
    using assms(3) unfolding star_documented_def by (simp add: s)
  from program_fast_syscall_msrs_ok[OF assms(1,2) this, of msrs] assms(6,7)
  show ?thesis
    by (simp add: init_fast_syscall_scaffold_def ENABLE_FAST_SYSCALL_SCE_def)
      (simp add: s selector_plan_def)
qed

theorem gdt_layout_enables_fast_syscall_witness:
  "cpu_supports_syscall demo_env \<and>
   (\<exists>status msrs'. init_fast_syscall_scaffold x86_64_functions demo_env
       (snd (gdt_build slot_append 1 0)) reset_msrs = Ret (status, msrs') \<and>
     fs_stage status = SceEnabledExperimental)"
proof -
  have "\<forall>m. fe_set_sce demo_env m = m\<lparr>msr_efer_sce := True\<rparr>" by (simp add: demo_env_def)
  from gdt_layout_enables_fast_syscall[OF x86_64.x86_64_documented_axioms demo_env_facts(1,3)
      slot_gdt.gdt_documented_axioms _ demo_env_facts(4) this, of 1 0 reset_msrs] demo_env_facts(4)
  show ?thesis by auto
qed

end
