(* ===== verification/Entry_Stubs.thy ===== *)
theory Entry_Stubs
  imports Syscall
begin

text \<open>
  The assembly stubs of \<open>kernel/src/interrupts.rs\<close> (interrupt 0x80, interrupt 0x81 and the fast system
  call entry) as lists of instructions over a small machine: the fifteen general registers in the
  record the Rust code sees them as, the stack pointer, the frame registers, the two GS bases and
  memory. Memory is read and written in the 8-byte cells at the addresses the stubs use; the CPU
  aligns the interrupt stack and the kernel aligns the fast system call stack to 16 bytes.
\<close>

unbundle bit_operations_syntax

section \<open>The machine\<close>

datatype reg = RAX | RBX | RCX | RDX | RSI | RDI | RBP | R8 | R9 | R10 | R11 | R12 | R13 | R14 | R15

fun get_reg :: "reg \<Rightarrow> SyscallRegisters \<Rightarrow> u64" where
  "get_reg RAX = rg_rax" | "get_reg RBX = rg_rbx" | "get_reg RCX = rg_rcx" | "get_reg RDX = rg_rdx"
| "get_reg RSI = rg_rsi" | "get_reg RDI = rg_rdi" | "get_reg RBP = rg_rbp" | "get_reg R8 = rg_r8"
| "get_reg R9 = rg_r9" | "get_reg R10 = rg_r10" | "get_reg R11 = rg_r11" | "get_reg R12 = rg_r12"
| "get_reg R13 = rg_r13" | "get_reg R14 = rg_r14" | "get_reg R15 = rg_r15"

fun set_reg :: "reg \<Rightarrow> u64 \<Rightarrow> SyscallRegisters \<Rightarrow> SyscallRegisters" where
  "set_reg RAX v r = r\<lparr>rg_rax := v\<rparr>" | "set_reg RBX v r = r\<lparr>rg_rbx := v\<rparr>"
| "set_reg RCX v r = r\<lparr>rg_rcx := v\<rparr>" | "set_reg RDX v r = r\<lparr>rg_rdx := v\<rparr>"
| "set_reg RSI v r = r\<lparr>rg_rsi := v\<rparr>" | "set_reg RDI v r = r\<lparr>rg_rdi := v\<rparr>"
| "set_reg RBP v r = r\<lparr>rg_rbp := v\<rparr>" | "set_reg R8 v r = r\<lparr>rg_r8 := v\<rparr>"
| "set_reg R9 v r = r\<lparr>rg_r9 := v\<rparr>" | "set_reg R10 v r = r\<lparr>rg_r10 := v\<rparr>"
| "set_reg R11 v r = r\<lparr>rg_r11 := v\<rparr>" | "set_reg R12 v r = r\<lparr>rg_r12 := v\<rparr>"
| "set_reg R13 v r = r\<lparr>rg_r13 := v\<rparr>" | "set_reg R14 v r = r\<lparr>rg_r14 := v\<rparr>"
| "set_reg R15 v r = r\<lparr>rg_r15 := v\<rparr>"

record cpu =
  cp_regs :: SyscallRegisters
  cp_rsp :: u64
  cp_rip :: u64
  cp_cs :: u64
  cp_rflags :: u64
  cp_ss :: u64
  cp_gs_base :: u64
  cp_kernel_gs_base :: u64
  cp_mem :: "u64 \<Rightarrow> u64"

datatype instr =
    Push reg
  | PopR reg
  | MovRdiRsp
  | MovR10Rcx
  | LeaRdiRsp8
  | SubRsp8
  | AddRsp8
  | CallDispatch
  | SwapGs
  | SaveUserRsp
  | LoadKernelRsp
  | LoadUserRsp
  | Iretq
  | Sysretq

text \<open>
  The Rust handler as the stub sees it: it reads and writes the register record that \<open>rdi\<close> points
  to, may leave anything in the registers and in the cells it uses below the stack pointer, and needs the
  stack aligned to 16 bytes.
\<close>

record callee =
  ce_handler :: "SyscallRegisters \<Rightarrow> SyscallRegisters run"
  ce_regs :: SyscallRegisters
  ce_scratch :: "u64 \<Rightarrow> u64"
  ce_depth :: nat

text \<open>The layout of \<open>SyscallRegisters\<close>, a \<open>repr(C)\<close> struct: one cell per field from its address on.\<close>

definition struct_regs :: "reg list" where
  "struct_regs = [RAX, RBX, RCX, RDX, RSI, RDI, RBP, R8, R9, R10, R11, R12, R13, R14, R15]"

fun load_struct :: "reg list \<Rightarrow> u64 \<Rightarrow> (u64 \<Rightarrow> u64) \<Rightarrow> SyscallRegisters \<Rightarrow> SyscallRegisters" where
  "load_struct [] p m r = r"
| "load_struct (x # xs) p m r = load_struct xs (p + 8) m (set_reg x (m p) r)"

fun store_struct :: "reg list \<Rightarrow> u64 \<Rightarrow> SyscallRegisters \<Rightarrow> (u64 \<Rightarrow> u64) \<Rightarrow> u64 \<Rightarrow> u64" where
  "store_struct [] p r m = m"
| "store_struct (x # xs) p r m = store_struct xs (p + 8) r (m(p := get_reg x r))"

definition call_dispatch :: "callee \<Rightarrow> cpu \<Rightarrow> cpu run" where
  "call_dispatch C c =
     (if cp_rsp c AND 0xf \<noteq> 0 then Panic UnhandledException else
      (let p = rg_rdi (cp_regs c); rs = load_struct struct_regs p (cp_mem c) zero_registers
       in bind_run (ce_handler C rs) (\<lambda>rs'.
          Ret (c\<lparr>cp_regs := ce_regs C,
                 cp_mem := (\<lambda>a. if unat (cp_rsp c - 1 - a) < ce_depth C then ce_scratch C a
                               else store_struct struct_regs p rs' (cp_mem c) a)\<rparr>))))"

text \<open>The return from an interrupt: \<open>rip\<close>, \<open>cs\<close>, \<open>rflags\<close>, \<open>rsp\<close> and \<open>ss\<close> from the stack.\<close>

definition iretq :: "cpu \<Rightarrow> cpu" where
  [simp]: "iretq c = c\<lparr>cp_rip := cp_mem c (cp_rsp c), cp_cs := cp_mem c (cp_rsp c + 8),
     cp_rflags := cp_mem c (cp_rsp c + 16), cp_ss := cp_mem c (cp_rsp c + 32),
     cp_rsp := cp_mem c (cp_rsp c + 24)\<rparr>"

fun exec1 :: "callee \<Rightarrow> instr \<Rightarrow> cpu \<Rightarrow> cpu run" where
  "exec1 C (Push x) c = Ret (c\<lparr>cp_rsp := cp_rsp c - 8,
     cp_mem := (cp_mem c)(cp_rsp c - 8 := get_reg x (cp_regs c))\<rparr>)"
| "exec1 C (PopR x) c = Ret (c\<lparr>cp_regs := set_reg x (cp_mem c (cp_rsp c)) (cp_regs c), cp_rsp := cp_rsp c + 8\<rparr>)"
| "exec1 C MovRdiRsp c = Ret (c\<lparr>cp_regs := set_reg RDI (cp_rsp c) (cp_regs c)\<rparr>)"
| "exec1 C MovR10Rcx c = Ret (c\<lparr>cp_regs := set_reg R10 (get_reg RCX (cp_regs c)) (cp_regs c)\<rparr>)"
| "exec1 C LeaRdiRsp8 c = Ret (c\<lparr>cp_regs := set_reg RDI (cp_rsp c + 8) (cp_regs c)\<rparr>)"
| "exec1 C SubRsp8 c = Ret (c\<lparr>cp_rsp := cp_rsp c - 8\<rparr>)"
| "exec1 C AddRsp8 c = Ret (c\<lparr>cp_rsp := cp_rsp c + 8\<rparr>)"
| "exec1 C CallDispatch c = call_dispatch C c"
| "exec1 C SwapGs c = Ret (c\<lparr>cp_gs_base := cp_kernel_gs_base c, cp_kernel_gs_base := cp_gs_base c\<rparr>)"
| "exec1 C SaveUserRsp c = Ret (c\<lparr>cp_mem := (cp_mem c)(cp_gs_base c + 8 := cp_rsp c)\<rparr>)"
| "exec1 C LoadKernelRsp c = Ret (c\<lparr>cp_rsp := cp_mem c (cp_gs_base c)\<rparr>)"
| "exec1 C LoadUserRsp c = Ret (c\<lparr>cp_rsp := cp_mem c (cp_gs_base c + 8)\<rparr>)"
| "exec1 C Iretq c = Ret (iretq c)"
| "exec1 C Sysretq c = Ret (c\<lparr>cp_rip := get_reg RCX (cp_regs c), cp_rflags := get_reg R11 (cp_regs c)\<rparr>)"

fun exec :: "callee \<Rightarrow> instr list \<Rightarrow> cpu \<Rightarrow> cpu run" where
  "exec C [] c = Ret c"
| "exec C (i # is) c = bind_run (exec1 C i c) (exec C is)"

section \<open>The stubs\<close>

definition jingos_syscall_interrupt_entry :: "instr list" where
  "jingos_syscall_interrupt_entry =
     [Push R15, Push R14, Push R13, Push R12, Push R11, Push R10, Push R9, Push R8, Push RBP, Push RDI,
      Push RSI, Push RDX, Push RCX, Push RBX, Push RAX,
      MovRdiRsp, CallDispatch,
      PopR RAX, PopR RBX, PopR RCX, PopR RDX, PopR RSI, PopR RDI, PopR RBP, PopR R8, PopR R9, PopR R10,
      PopR R11, PopR R12, PopR R13, PopR R14, PopR R15, Iretq]"

definition jingos_usermode_exit_interrupt_entry :: "instr list" where
  "jingos_usermode_exit_interrupt_entry =
     [Push R15, Push R14, Push R13, Push R12, Push R11, Push R10, Push R9, Push R8, Push RBP, Push RDI,
      Push RSI, Push RDX, Push RCX, Push RBX, Push RAX,
      MovRdiRsp, CallDispatch,
      PopR RAX, PopR RBX, PopR RCX, PopR RDX, PopR RSI, PopR RDI, PopR RBP, PopR R8, PopR R9, PopR R10,
      PopR R11, PopR R12, PopR R13, PopR R14, PopR R15, Iretq]"

definition jingos_fast_syscall_entry :: "instr list" where
  "jingos_fast_syscall_entry =
     [SwapGs, SaveUserRsp, LoadKernelRsp, Push R11, Push RCX,
      Push R15, Push R14, Push R13, Push R12, Push R11, Push R10, Push R9, Push R8, Push RBP, Push RDI,
      Push RSI, Push RDX, Push RCX, Push RBX, Push RAX,
      SubRsp8, LeaRdiRsp8, CallDispatch, AddRsp8,
      PopR RAX, PopR RBX, PopR RCX, PopR RDX, PopR RSI, PopR RDI, PopR RBP, PopR R8, PopR R9, PopR R10,
      PopR R11, PopR R12, PopR R13, PopR R14, PopR R15,
      MovR10Rcx, PopR RCX, PopR R11, LoadUserRsp, SwapGs, Sysretq]"

text \<open>
  Interrupt delivery and the \<open>syscall\<close> instruction as the CPU performs them: an interrupt switches to
  the TSS stack when it comes from ring 3, aligns the stack to 16 bytes and pushes the frame; \<open>syscall\<close>
  saves \<open>rip\<close> and \<open>rflags\<close> in \<open>rcx\<close> and \<open>r11\<close>.
\<close>

definition deliver_interrupt :: "u64 \<Rightarrow> u64 \<Rightarrow> cpu \<Rightarrow> cpu" where
  "deliver_interrupt tss_rsp0 entry c =
     (let top = (if cp_cs c AND 3 = 3 then tss_rsp0 else cp_rsp c) AND NOT 0xf
      in c\<lparr>cp_rsp := top - 40, cp_rip := entry,
           cp_mem := (cp_mem c)(top - 8 := cp_ss c, top - 16 := cp_rsp c, top - 24 := cp_rflags c,
             top - 32 := cp_cs c, top - 40 := cp_rip c)\<rparr>)"

definition deliver_syscall :: "u64 \<Rightarrow> u64 \<Rightarrow> cpu \<Rightarrow> cpu" where
  "deliver_syscall lstar sfmask c =
     c\<lparr>cp_regs := (cp_regs c)\<lparr>rg_rcx := cp_rip c, rg_r11 := cp_rflags c\<rparr>,
       cp_rip := lstar, cp_rflags := cp_rflags c AND NOT sfmask\<rparr>"

text \<open>
  The instruction \<open>int\<close>: the gate's privilege must admit the caller, then the stub of the gate runs.
  The gates without a stub of their own are compiled by the Rust compiler and are not reached here.
\<close>

definition stub_of :: "handler \<Rightarrow> instr list option" where
  "stub_of h =
     (case h of
        SyscallInterruptEntry \<Rightarrow> Some jingos_syscall_interrupt_entry
      | UsermodeExitInterruptEntry \<Rightarrow> Some jingos_usermode_exit_interrupt_entry
      | _ \<Rightarrow> None)"

definition software_interrupt :: "(handler \<Rightarrow> callee) \<Rightarrow> u64 \<Rightarrow> u64 \<Rightarrow> u8 \<Rightarrow> cpu \<Rightarrow> cpu run" where
  "software_interrupt CF tss_rsp0 entry vector c =
     (case idt_gate vector of
        None \<Rightarrow> Panic UnhandledException
      | Some (h, dpl) \<Rightarrow>
          if cp_cs c AND 3 = 3 \<and> dpl = Ring0 then Panic UnhandledException
          else (case stub_of h of
             None \<Rightarrow> Panic UnhandledException
           | Some stub \<Rightarrow> exec (CF h) stub (deliver_interrupt tss_rsp0 entry c)))"

definition invoke_via_interrupt ::
  "(handler \<Rightarrow> callee) \<Rightarrow> u64 \<Rightarrow> u64 \<Rightarrow> u64 \<Rightarrow> u64 \<Rightarrow> u64 \<Rightarrow> u64 \<Rightarrow> cpu \<Rightarrow>
   ((u64, SyscallError) result \<times> cpu) run" where
  "invoke_via_interrupt CF tss_rsp0 entry number arg0 arg1 arg2 c =
     bind_run (software_interrupt CF tss_rsp0 entry SYSCALL_INTERRUPT_VECTOR
        (c\<lparr>cp_regs := (cp_regs c)\<lparr>rg_rax := number, rg_rdi := arg0, rg_rsi := arg1, rg_rdx := arg2\<rparr>\<rparr>))
       (\<lambda>c'. Ret (decode_response (rg_rcx (cp_regs c')) (rg_rax (cp_regs c')), c'))"

section \<open>Running the stubs\<close>

lemma aligned_iff: "(y :: u64) AND 0xf = 0 \<longleftrightarrow> 16 dvd unat y"
proof -
  have "y AND 0xf = y AND mask 4" by (simp add: mask_eq_exp_minus_1)
  also have "\<dots> = y mod 16" by (simp only: take_bit_eq_mask[symmetric] take_bit_eq_mod) simp
  finally have "unat (y AND 0xf) = unat y mod 16" by (simp add: unat_mod)
  then show ?thesis by (simp add: dvd_eq_mod_eq_0 flip: unat_eq_zero)
qed

lemma align_sub:
  fixes y :: u64
  assumes "y AND 0xf = 0" "d AND 0xf = 0"
  shows "(y - d) AND 0xf = 0"
proof -
  have "(16 :: nat) dvd 2 ^ 64" by (simp add: dvd_eq_mod_eq_0)
  with assms show ?thesis
    unfolding aligned_iff unat_sub_if' by (auto intro!: dvd_diff_nat dvd_add)
qed

lemma aligned_down: "((a :: u64) AND NOT 0xf) AND 0xf = 0"
  unfolding aligned_iff unat_align_down_16 by (simp add: minus_mod_eq_mult_div)

text \<open>The cells of a struct, and that storing and loading it are inverse.\<close>

fun cells :: "u64 \<Rightarrow> nat \<Rightarrow> u64 list" where
  "cells p 0 = []"
| "cells p (Suc n) = p # cells (p + 8) n"

lemma in_cells: "q \<in> set (cells p n) \<longleftrightarrow> (\<exists>i<n. q = p + 8 * of_nat i)"
proof (induction n arbitrary: p)
  case (Suc n)
  have "(\<exists>i<Suc n. q = p + 8 * of_nat i) \<longleftrightarrow> q = p \<or> (\<exists>i<n. q = p + 8 * of_nat (Suc i))"
    by (auto simp: less_Suc_eq_0_disj)
  then show ?case by (simp add: Suc.IH algebra_simps)
qed simp

lemma unat_of_nat_u64: "k < 2 ^ 64 \<Longrightarrow> unat (of_nat k :: u64) = k"
  by (simp add: unat_of_nat take_bit_nat_eq_self)

lemma not_in_next_cells: "n < 2 ^ 32 \<Longrightarrow> p \<notin> set (cells (p + 8) n)"
proof
  assume n: "n < 2 ^ 32" and "p \<in> set (cells (p + 8) n)"
  then obtain i where i: "i < n" "p = p + 8 + 8 * of_nat i" by (auto simp: in_cells)
  then have "(of_nat (8 + 8 * i) :: u64) = 0" by (simp add: algebra_simps)
  moreover have "unat (of_nat (8 + 8 * i) :: u64) = 8 + 8 * i"
    using i(1) n by (intro unat_of_nat_u64) simp
  ultimately show False by simp
qed

lemma store_struct_other: "q \<notin> set (cells p (length xs)) \<Longrightarrow> store_struct xs p r m q = m q"
  by (induction xs arbitrary: p m) auto

lemma store_struct_upd:
  "q \<notin> set (cells p (length xs)) \<Longrightarrow> store_struct xs p r (m(q := v)) = (store_struct xs p r m)(q := v)"
proof (induction xs arbitrary: p m)
  case (Cons x xs)
  then have "p \<noteq> q" by auto
  then have "m(q := v, p := get_reg x r) = m(p := get_reg x r, q := v)" by (rule fun_upd_twist[symmetric])
  then show ?case using Cons.prems Cons.IH[of "p + 8" "m(p := get_reg x r)"] by (simp del: fun_upd_apply)
qed simp

lemma store_struct_snoc:
  "store_struct (xs @ [x]) p r m = (store_struct xs p r m)(p + 8 * of_nat (length xs) := get_reg x r)"
  by (induction xs arbitrary: p m) (simp_all add: algebra_simps)

lemma store_struct_two:
  "store_struct (xs @ [x, y]) p r m = (store_struct xs p r m)
     (p + 8 * of_nat (length xs) := get_reg x r, p + 8 * of_nat (length xs) + 8 := get_reg y r)"
  using store_struct_snoc[of "xs @ [x]" y p r m]
  by (simp add: store_struct_snoc algebra_simps del: fun_upd_apply)

lemma load_struct_cong:
  "(\<And>q. q \<in> set (cells p (length xs)) \<Longrightarrow> m q = m' q) \<Longrightarrow> load_struct xs p m r = load_struct xs p m' r"
  by (induction xs arbitrary: p r) auto

lemma load_store_struct:
  "length xs < 2 ^ 32 \<Longrightarrow> load_struct xs p (store_struct xs p r m) r0 = foldl (\<lambda>s x. set_reg x (get_reg x r) s) r0 xs"
proof (induction xs arbitrary: p m r0)
  case (Cons x xs)
  then have "p \<notin> set (cells (p + 8) (length xs))" by (intro not_in_next_cells) simp
  with Cons show ?case by (simp add: store_struct_other)
qed simp

lemma load_struct_append:
  assumes "length (xs @ ys) < 2 ^ 32"
  shows "load_struct xs p (store_struct (xs @ ys) p r m) r0 = foldl (\<lambda>s x. set_reg x (get_reg x r) s) r0 xs"
  using assms
proof (induction xs arbitrary: p m r0)
  case (Cons x xs)
  then have "p \<notin> set (cells (p + 8) (length (xs @ ys)))" by (intro not_in_next_cells) simp
  with Cons show ?case by (simp add: store_struct_other)
qed simp

lemma all_regs_loaded [simp]: "foldl (\<lambda>s x. set_reg x (get_reg x r) s) r0 struct_regs = r"
  by (simp add: struct_regs_def)

text \<open>Runs of pushes and pops.\<close>

lemma exec_append: "exec C (xs @ ys) c = bind_run (exec C xs c) (exec C ys)"
proof (induction xs arbitrary: c)
  case (Cons x xs)
  then show ?case by (cases "exec1 C x c") simp_all
qed simp

lemma exec_pushes:
  "length xs < 2 ^ 32 \<Longrightarrow> exec C (map Push xs) c =
   Ret (c\<lparr>cp_rsp := cp_rsp c - 8 * of_nat (length xs),
     cp_mem := store_struct (rev xs) (cp_rsp c - 8 * of_nat (length xs)) (cp_regs c) (cp_mem c)\<rparr>)"
proof (induction xs arbitrary: c)
  case (Cons x xs)
  let ?n = "8 * of_nat (length xs) :: u64" and ?r = "cp_rsp c"
  have "?r - 8 \<notin> set (cells (?r - 8 - ?n) (length xs))"
  proof
    assume "?r - 8 \<in> set (cells (?r - 8 - ?n) (length xs))"
    then obtain i where i: "i < length xs" "(of_nat (8 * length xs) :: u64) = of_nat (8 * i)"
      by (auto simp: in_cells algebra_simps)
    moreover have "unat (of_nat (8 * length xs) :: u64) = 8 * length xs" "unat (of_nat (8 * i) :: u64) = 8 * i"
      using i(1) Cons.prems by (intro unat_of_nat_u64; simp)+
    ultimately show False by simp
  qed
  moreover have p: "?r - 8 - ?n = ?r - 8 * of_nat (length (x # xs))"
    "?r - 8 * of_nat (length (x # xs)) + ?n = ?r - 8"
    by (simp_all add: algebra_simps)
  ultimately have "store_struct (rev xs) (?r - 8 - ?n) (cp_regs c) ((cp_mem c)(?r - 8 := get_reg x (cp_regs c))) =
      store_struct (rev (x # xs)) (?r - 8 * of_nat (length (x # xs))) (cp_regs c) (cp_mem c)"
    unfolding p(1) by (simp only: rev.simps store_struct_snoc length_rev p(2))
      (simp add: store_struct_upd del: fun_upd_apply)
  then show ?case
    using Cons.IH[of "c\<lparr>cp_rsp := ?r - 8, cp_mem := (cp_mem c)(?r - 8 := get_reg x (cp_regs c))\<rparr>"]
      Cons.prems p(1) by (simp del: of_nat_Suc fun_upd_apply)
qed simp

lemma exec_pops:
  "exec C (map PopR xs) c = Ret (c\<lparr>cp_regs := load_struct xs (cp_rsp c) (cp_mem c) (cp_regs c),
     cp_rsp := cp_rsp c + 8 * of_nat (length xs)\<rparr>)"
  by (induction xs arbitrary: c) (simp_all add: algebra_simps)

lemma interrupt_entry_parts:
  "jingos_syscall_interrupt_entry =
   map Push (rev struct_regs) @ [MovRdiRsp, CallDispatch] @ map PopR struct_regs @ [Iretq]"
  "jingos_usermode_exit_interrupt_entry = jingos_syscall_interrupt_entry"
  "jingos_fast_syscall_entry = [SwapGs, SaveUserRsp, LoadKernelRsp] @ map Push ([R11, RCX] @ rev struct_regs) @
     [SubRsp8, LeaRdiRsp8, CallDispatch, AddRsp8] @ map PopR struct_regs @
     [MovR10Rcx, PopR RCX, PopR R11, LoadUserRsp, SwapGs, Sysretq]"
  by (simp_all add: jingos_syscall_interrupt_entry_def jingos_usermode_exit_interrupt_entry_def
      jingos_fast_syscall_entry_def struct_regs_def)

text \<open>The handler call, on a stack whose top is the saved register record.\<close>

lemma call_dispatch_saved:
  assumes "cp_rsp c AND 0xf = 0" "ce_handler C rs = Ret rs'"
    and "load_struct struct_regs (rg_rdi (cp_regs c)) (cp_mem c) zero_registers = rs"
  shows "call_dispatch C c = Ret (c\<lparr>cp_regs := ce_regs C,
     cp_mem := (\<lambda>a. if unat (cp_rsp c - 1 - a) < ce_depth C then ce_scratch C a
                   else store_struct struct_regs (rg_rdi (cp_regs c)) rs' (cp_mem c) a)\<rparr>)"
  using assms by (simp add: call_dispatch_def Let_def)

text \<open>Cells at or above the stack pointer are out of the handler's reach.\<close>

lemma above_stack:
  assumes "i < 2 ^ 32" "d < 2 ^ 63"
  shows "\<not> unat (p - 1 - (p + of_nat i) :: u64) < d"
proof -
  have "p - 1 - (p + of_nat i) = (- 1 :: u64) - of_nat i" by simp
  moreover have "unat ((- 1 :: u64) - of_nat i) = 2 ^ 64 - 1 - i"
    using assms(1) by (subst unat_sub) (simp_all add: unat_max_word unat_of_nat_u64 word_le_nat_alt)
  ultimately show ?thesis using assms by simp
qed

lemma saved_cells_kept:
  assumes "q \<in> set (cells (p + of_nat k) n)" "k + 8 * n < 2 ^ 32" "d < 2 ^ 63"
  shows "\<not> unat (p - 1 - q :: u64) < d"
proof -
  obtain i where i: "i < n" "q = p + of_nat k + 8 * of_nat i" using assms(1) by (auto simp: in_cells)
  then have "q = p + of_nat (k + 8 * i)" by simp
  with above_stack[of "k + 8 * i" d p] i(1) assms(2,3) show ?thesis by simp
qed

lemma length_struct_regs [simp]: "length struct_regs = 15"
  by (simp add: struct_regs_def)

lemma above_struct:
  assumes "q = p + 120 + of_nat j" "j < 2 ^ 20"
  shows "q \<notin> set (cells p 15)"
proof
  assume "q \<in> set (cells p 15)"
  then obtain i where i: "i < 15" "q = p + 8 * of_nat i" by (auto simp: in_cells)
  then have "(of_nat (120 + j) :: u64) = of_nat (8 * i)" using assms(1) by (simp add: add.assoc)
  moreover have "unat (of_nat (120 + j) :: u64) = 120 + j" "unat (of_nat (8 * i) :: u64) = 8 * i"
    using assms(2) i(1) by (intro unat_of_nat_u64; simp)+
  ultimately show False using i(1) by simp
qed

text \<open>The common part of the stubs: save, call with the stack \<open>d\<close> below the record, restore.\<close>

lemma interrupt_stub_run:
  assumes align: "(cp_rsp c - 120) AND 0xf = 0" and handler: "ce_handler C (cp_regs c) = Ret rs'"
    and depth: "ce_depth C < 2 ^ 63"
  shows "\<exists>m. exec C jingos_syscall_interrupt_entry c =
    Ret (c\<lparr>cp_regs := rs', cp_rip := cp_mem c (cp_rsp c), cp_cs := cp_mem c (cp_rsp c + 8),
      cp_rflags := cp_mem c (cp_rsp c + 16), cp_ss := cp_mem c (cp_rsp c + 32),
      cp_rsp := cp_mem c (cp_rsp c + 24), cp_mem := m\<rparr>)"
proof -
  let ?p = "cp_rsp c - 120"
  let ?m1 = "store_struct struct_regs ?p (cp_regs c) (cp_mem c)"
  define m2 where "m2 = (\<lambda>a. if unat (?p - 1 - a) < ce_depth C then ce_scratch C a
      else store_struct struct_regs ?p rs' ?m1 a)"
  have kept: "m2 (?p + of_nat k) = store_struct struct_regs ?p rs' ?m1 (?p + of_nat k)" if "k < 2 ^ 32" for k
    using above_stack[OF that depth, of ?p] by (simp add: m2_def)
  have load: "load_struct struct_regs ?p m2 r = rs'" for r
  proof -
    have "load_struct struct_regs ?p m2 r = load_struct struct_regs ?p (store_struct struct_regs ?p rs' ?m1) r"
      using saved_cells_kept[of _ ?p 0 15 "ce_depth C"] depth by (intro load_struct_cong) (simp add: m2_def)
    then show ?thesis by (simp add: load_store_struct)
  qed
  have frame: "m2 (cp_rsp c + of_nat j) = cp_mem c (cp_rsp c + of_nat j)" if "j < 2 ^ 20" for j
    using kept[of "120 + j"] that above_struct[of "cp_rsp c + of_nat j" ?p j]
    by (simp add: store_struct_other)
  let ?s1 = "c\<lparr>cp_rsp := ?p, cp_mem := ?m1\<rparr>"
  let ?s2 = "?s1\<lparr>cp_regs := set_reg RDI ?p (cp_regs c)\<rparr>"
  let ?s3 = "?s2\<lparr>cp_regs := ce_regs C, cp_mem := m2\<rparr>"
  have push: "exec C (map Push (rev struct_regs)) c = Ret ?s1"
    by (simp add: exec_pushes)
  have "call_dispatch C ?s2 = Ret ?s3"
    using call_dispatch_saved[of ?s2 C "cp_regs c" rs'] align handler
    by (simp add: load_store_struct m2_def cong: if_cong)
  then have call: "exec C [MovRdiRsp, CallDispatch] ?s1 = Ret ?s3" by simp
  have pop: "exec C (map PopR struct_regs) ?s3 = Ret (?s3\<lparr>cp_regs := rs', cp_rsp := cp_rsp c\<rparr>)"
    by (simp add: exec_pops load)
  show ?thesis
    unfolding interrupt_entry_parts(1) exec_append push bind_run.simps call pop
    using frame[of 0] frame[of 8] frame[of 16] frame[of 24] frame[of 32]
    by (intro exI[of _ m2]) simp
qed

text \<open>Delivery and return: the frame the CPU pushed is the frame it pops.\<close>

lemma interrupt_round_trip:
  assumes handler: "ce_handler C (cp_regs c) = Ret rs'" and depth: "ce_depth C < 2 ^ 63"
  shows "\<exists>m. exec C jingos_syscall_interrupt_entry (deliver_interrupt tss_rsp0 entry c) =
    Ret (c\<lparr>cp_regs := rs', cp_mem := m\<rparr>)"
proof -
  let ?top = "(if cp_cs c AND 3 = 3 then tss_rsp0 else cp_rsp c) AND NOT 0xf"
  let ?d = "deliver_interrupt tss_rsp0 entry c"
  have d: "cp_rsp ?d = ?top - 40" "cp_regs ?d = cp_regs c"
    "cp_mem ?d (?top - 40) = cp_rip c" "cp_mem ?d (?top - 40 + 8) = cp_cs c"
    "cp_mem ?d (?top - 40 + 16) = cp_rflags c" "cp_mem ?d (?top - 40 + 24) = cp_rsp c"
    "cp_mem ?d (?top - 40 + 32) = cp_ss c"
    by (simp_all add: deliver_interrupt_def Let_def)
  have "(?top - 160) AND 0xf = 0" using align_sub[OF aligned_down, of 160] by simp
  then have a: "(cp_rsp ?d - 120) AND 0xf = 0" by (simp add: d)
  have h: "ce_handler C (cp_regs ?d) = Ret rs'" using handler by (simp add: d)
  obtain m where "exec C jingos_syscall_interrupt_entry ?d =
    Ret (?d\<lparr>cp_regs := rs', cp_rip := cp_rip c, cp_cs := cp_cs c, cp_rflags := cp_rflags c, cp_ss := cp_ss c,
      cp_rsp := cp_rsp c, cp_mem := m\<rparr>)"
    using interrupt_stub_run[OF a h depth] unfolding d by metis
  moreover have "?d\<lparr>cp_regs := rs', cp_rip := cp_rip c, cp_cs := cp_cs c, cp_rflags := cp_rflags c,
      cp_ss := cp_ss c, cp_rsp := cp_rsp c, cp_mem := m\<rparr> = c\<lparr>cp_regs := rs', cp_mem := m\<rparr>"
    by (simp add: deliver_interrupt_def Let_def)
  ultimately show ?thesis by metis
qed

text \<open>An address outside the part of the kernel stack that a fast system call may write.\<close>

definition stack_clear :: "u64 \<Rightarrow> nat \<Rightarrow> u64 \<Rightarrow> bool" where
  "stack_clear K depth a \<longleftrightarrow> 144 + depth \<le> unat (K - 1 - a)"

lemma fast_stub_run:
  fixes c :: cpu
  defines "g \<equiv> cp_kernel_gs_base c"
  defines "K \<equiv> cp_mem c g"
  assumes align: "K AND 0xf = 0" and handler: "ce_handler C (cp_regs c) = Ret rs'"
    and depth: "ce_depth C < 2 ^ 63"
    and local: "stack_clear K (ce_depth C) g" "stack_clear K (ce_depth C) (g + 8)"
  shows "\<exists>m. m g = K \<and> exec C jingos_fast_syscall_entry c =
    Ret (c\<lparr>cp_regs := rs'\<lparr>rg_r10 := rg_rcx rs', rg_rcx := rg_rcx (cp_regs c), rg_r11 := rg_r11 (cp_regs c)\<rparr>,
      cp_rip := rg_rcx (cp_regs c), cp_rflags := rg_r11 (cp_regs c), cp_mem := m\<rparr>)"
proof -
  let ?m0 = "(cp_mem c)(g + 8 := cp_rsp c)" and ?p = "K - 136" and ?q = "K - 144"
  let ?s0 = "c\<lparr>cp_gs_base := g, cp_kernel_gs_base := cp_gs_base c, cp_mem := ?m0, cp_rsp := K\<rparr>"
  have enter: "exec C [SwapGs, SaveUserRsp, LoadKernelRsp] c = Ret ?s0"
    by (simp add: g_def K_def)
  let ?m1 = "store_struct (struct_regs @ [RCX, R11]) ?p (cp_regs c) ?m0"
  let ?s1 = "?s0\<lparr>cp_rsp := ?p, cp_mem := ?m1\<rparr>"
  have push: "exec C (map Push ([R11, RCX] @ rev struct_regs)) ?s0 = Ret ?s1"
    by (subst exec_pushes) (simp_all del: fun_upd_apply)
  define m2 where "m2 = (\<lambda>a. if unat (?q - 1 - a) < ce_depth C then ce_scratch C a
      else store_struct struct_regs ?p rs' ?m1 a)"
  let ?s2 = "?s1\<lparr>cp_rsp := ?q, cp_regs := set_reg RDI ?p (cp_regs c)\<rparr>"
  let ?s3 = "?s1\<lparr>cp_rsp := ?q, cp_regs := ce_regs C, cp_mem := m2\<rparr>"
  have loaded: "load_struct struct_regs ?p ?m1 zero_registers = cp_regs c"
    using load_struct_append[of struct_regs "[RCX, R11]" ?p "cp_regs c" ?m0 zero_registers] by simp
  have "?q AND 0xf = 0" using align_sub[OF align, of 144] by simp
  then have "call_dispatch C ?s2 = Ret ?s3"
    using call_dispatch_saved[of ?s2 C "cp_regs c" rs'] handler loaded
    by (simp add: m2_def del: fun_upd_apply cong: if_cong)
  then have call: "exec C [SubRsp8, LeaRdiRsp8, CallDispatch, AddRsp8] ?s1 = Ret (?s3\<lparr>cp_rsp := ?p\<rparr>)"
    by (simp del: fun_upd_apply)
  have kept: "m2 (?p + of_nat k) = store_struct struct_regs ?p rs' ?m1 (?p + of_nat k)" if "k < 2 ^ 20" for k
    using above_stack[of "8 + k" "ce_depth C" ?q] that depth by (simp add: m2_def)
  have load: "load_struct struct_regs ?p m2 r = rs'" for r
  proof -
    have "load_struct struct_regs ?p m2 r = load_struct struct_regs ?p (store_struct struct_regs ?p rs' ?m1) r"
      using saved_cells_kept[of _ ?q 8 15 "ce_depth C"] depth by (intro load_struct_cong) (simp add: m2_def)
    then show ?thesis by (simp add: load_store_struct)
  qed
  have pop: "exec C (map PopR struct_regs) (?s3\<lparr>cp_rsp := ?p\<rparr>) = Ret (?s3\<lparr>cp_regs := rs', cp_rsp := K - 16\<rparr>)"
    by (simp add: exec_pops load del: fun_upd_apply)
  have rcx: "m2 (K - 16) = rg_rcx (cp_regs c)"
    using kept[of 120] above_struct[of "K - 16" ?p 0]
    by (simp add: store_struct_other store_struct_two)
  have r11: "m2 (K - 8) = rg_r11 (cp_regs c)"
    using kept[of 128] above_struct[of "K - 8" ?p 8]
    by (simp add: store_struct_other store_struct_two)
  have clear: "m2 a = ?m0 a" if local: "stack_clear K (ce_depth C) a" for a
  proof -
    let ?d = "K - 1 - a"
    have far: "a \<noteq> K - of_nat k" if "0 < k" "k \<le> 144" for k
    proof
      assume "a = K - of_nat k"
      then have d: "?d = of_nat k - 1" by simp
      have "unat (of_nat k :: u64) = k" using that by (intro unat_of_nat_u64) simp
      then have "unat ?d < 144" unfolding d
        using that unat_minus_one[of "of_nat k :: u64"] by (cases "of_nat k = (0 :: u64)") auto
      with local show False by (simp add: stack_clear_def)
    qed
    have "a \<notin> set (cells ?p 15)"
    proof
      assume "a \<in> set (cells ?p 15)"
      then obtain i where "i < 15" "a = K - of_nat (136 - 8 * i)"
        by (auto simp: in_cells of_nat_diff algebra_simps)
      moreover from this(1) have "0 < 136 - 8 * i" "136 - 8 * i \<le> 144" by linarith+
      ultimately show False using far[of "136 - 8 * i"] by blast
    qed
    moreover have "a \<noteq> K - 16" "a \<noteq> K - 8" using far[of 16] far[of 8] by simp_all
    moreover have "unat (?q - 1 - a) = unat ?d - 144"
    proof -
      have "?q - 1 - a = ?d - 144" by (simp add: algebra_simps)
      moreover have "144 \<le> ?d" using local by (simp add: stack_clear_def word_le_nat_alt)
      ultimately show ?thesis by (simp only: unat_sub) simp
    qed
    moreover have "\<not> unat ?d - 144 < ce_depth C" using local unfolding stack_clear_def by linarith
    ultimately show ?thesis
      by (simp add: m2_def store_struct_other store_struct_two)
  qed
  have user: "m2 (g + 8) = cp_rsp c" "m2 g = K" using clear[OF local(2)] clear[OF local(1)] by (simp_all add: K_def)
  show ?thesis
    unfolding interrupt_entry_parts(3) exec_append enter push call pop bind_run.simps
    by (intro exI[of _ m2]) (simp add: rcx r11 user[unfolded g_def] user(2) g_def del: fun_upd_apply)
qed

section \<open>Handlers behind the stubs\<close>

text \<open>
  The contract of a handler the stubs call: of the saved registers it changes \<open>rax\<close> and \<open>rcx\<close> only.
  Behind such a handler an interrupt is invisible to the interrupted code apart from these two.
\<close>

locale register_handler =
  fixes h :: "SyscallRegisters \<Rightarrow> SyscallRegisters run"
  assumes changes_result_only: "h rs = Ret rs' \<Longrightarrow> rs' = rs\<lparr>rg_rax := rg_rax rs', rg_rcx := rg_rcx rs'\<rparr>"
begin

lemma interrupt_transparent:
  assumes "ce_handler C = h" "ce_depth C < 2 ^ 63" "h (cp_regs c) = Ret rs'"
  shows "\<exists>m. exec C jingos_syscall_interrupt_entry (deliver_interrupt tss_rsp0 entry c) =
    Ret (c\<lparr>cp_regs := (cp_regs c)\<lparr>rg_rax := rg_rax rs', rg_rcx := rg_rcx rs'\<rparr>, cp_mem := m\<rparr>)"
  using interrupt_round_trip[of C c rs' tss_rsp0 entry] assms changes_result_only[OF assms(3)] by metis

end

interpretation syscall_handler: register_handler "handle_interrupt_from_registers ks" for ks
proof
  fix rs rs'
  assume "handle_interrupt_from_registers ks rs = Ret rs'"
  moreover from this obtain r where "dispatch ks (rg_rax rs) (rg_rdi rs) (rg_rsi rs) (rg_rdx rs) = Ret r"
    by (auto simp: handle_interrupt_from_registers_def bind_run_Ret_iff)
  ultimately show "rs' = rs\<lparr>rg_rax := rg_rax rs', rg_rcx := rg_rcx rs'\<rparr>"
    using handle_interrupt_result[of ks rs r] by auto
qed

lemma syscall_gate: "idt_gate SYSCALL_INTERRUPT_VECTOR = Some (SyscallInterruptEntry, Ring3)"
  by (simp add: idt_gate_def IDT_def SYSCALL_INTERRUPT_VECTOR_def USERMODE_EXIT_INTERRUPT_VECTOR_def
      interrupt_index_as_u8_def PIC_1_OFFSET_def)

lemma software_interrupt_syscall:
  "software_interrupt CF tss_rsp0 entry SYSCALL_INTERRUPT_VECTOR c =
   exec (CF SyscallInterruptEntry) jingos_syscall_interrupt_entry (deliver_interrupt tss_rsp0 entry c)"
  by (simp add: software_interrupt_def syscall_gate stub_of_def)

text \<open>What \<open>int 0x80\<close> does, from the CPU's push of the frame to \<open>iretq\<close>.\<close>

lemma int_0x80_result:
  assumes "ce_handler (CF SyscallInterruptEntry) = handle_interrupt_from_registers ks"
    and "ce_depth (CF SyscallInterruptEntry) < 2 ^ 63"
    and "dispatch ks (rg_rax (cp_regs c)) (rg_rdi (cp_regs c)) (rg_rsi (cp_regs c)) (rg_rdx (cp_regs c)) = Ret r"
  shows "\<exists>v s m. software_interrupt CF tss_rsp0 entry SYSCALL_INTERRUPT_VECTOR c =
      Ret (c\<lparr>cp_regs := (cp_regs c)\<lparr>rg_rax := v, rg_rcx := s\<rparr>, cp_mem := m\<rparr>) \<and> decode_response s v = r"
proof -
  obtain v s where h: "handle_interrupt_from_registers ks (cp_regs c) = Ret ((cp_regs c)\<lparr>rg_rax := v, rg_rcx := s\<rparr>)"
    and r: "decode_response s v = r"
    using handle_interrupt_result[OF assms(3)] by blast
  obtain m where "exec (CF SyscallInterruptEntry) jingos_syscall_interrupt_entry (deliver_interrupt tss_rsp0 entry c) =
      Ret (c\<lparr>cp_regs := (cp_regs c)\<lparr>rg_rax := v, rg_rcx := s\<rparr>, cp_mem := m\<rparr>)"
    using syscall_handler.interrupt_transparent[OF assms(1,2) h] by auto
  with r show ?thesis by (auto simp: software_interrupt_syscall)
qed

text \<open>What the instruction \<open>syscall\<close> does, up to \<open>sysretq\<close>; the per-CPU record keeps the kernel stack.\<close>

lemma fast_syscall_result:
  fixes c :: cpu
  defines "K \<equiv> cp_mem c (cp_kernel_gs_base c)"
  assumes "ce_handler C = handle_interrupt_from_registers ks" "pit_ok (ks_interrupts ks)"
    and "K AND 0xf = 0" "ce_depth C < 2 ^ 63"
    and "stack_clear K (ce_depth C) (cp_kernel_gs_base c)" "stack_clear K (ce_depth C) (cp_kernel_gs_base c + 8)"
  shows "\<exists>r v s m. dispatch ks (rg_rax (cp_regs c)) (rg_rdi (cp_regs c)) (rg_rsi (cp_regs c)) (rg_rdx (cp_regs c)) = Ret r \<and>
    response_of r = (v, s) \<and> m (cp_kernel_gs_base c) = K \<and>
    exec C jingos_fast_syscall_entry (deliver_syscall lstar sfmask c) =
      Ret (c\<lparr>cp_regs := (cp_regs c)\<lparr>rg_rax := v, rg_r10 := s, rg_rcx := cp_rip c, rg_r11 := cp_rflags c\<rparr>,
        cp_mem := m\<rparr>)"
proof -
  let ?c = "deliver_syscall lstar sfmask c"
  have d: "cp_kernel_gs_base ?c = cp_kernel_gs_base c" "cp_mem ?c = cp_mem c" "rg_rcx (cp_regs ?c) = cp_rip c"
    "rg_r11 (cp_regs ?c) = cp_rflags c" "cp_regs ?c = (cp_regs c)\<lparr>rg_rcx := cp_rip c, rg_r11 := cp_rflags c\<rparr>"
    by (simp_all add: deliver_syscall_def)
  obtain r where r: "dispatch ks (rg_rax (cp_regs c)) (rg_rdi (cp_regs c)) (rg_rsi (cp_regs c)) (rg_rdx (cp_regs c)) = Ret r"
    using dispatch_total[OF assms(3)] by blast
  obtain v s where vs: "response_of r = (v, s)" by (cases "response_of r")
  have h: "ce_handler C (cp_regs ?c) = Ret ((cp_regs ?c)\<lparr>rg_rax := v, rg_rcx := s\<rparr>)"
    using handle_interrupt_response[of ks "cp_regs ?c" r, OF _ vs] r assms(2) by (simp add: d(5))
  obtain m where "m (cp_kernel_gs_base c) = K" "exec C jingos_fast_syscall_entry ?c =
     Ret (?c\<lparr>cp_regs := (cp_regs ?c)\<lparr>rg_rax := v, rg_rcx := s\<rparr>\<lparr>rg_r10 := s, rg_rcx := cp_rip c, rg_r11 := cp_rflags c\<rparr>,
      cp_rip := cp_rip c, cp_rflags := cp_rflags c, cp_mem := m\<rparr>)"
    using fast_stub_run[OF _ h assms(5), unfolded d(1,2)] assms(4,6,7) by (auto simp: K_def d(3,4))
  moreover have "?c\<lparr>cp_regs := (cp_regs ?c)\<lparr>rg_rax := v, rg_rcx := s\<rparr>\<lparr>rg_r10 := s, rg_rcx := cp_rip c, rg_r11 := cp_rflags c\<rparr>,
      cp_rip := cp_rip c, cp_rflags := cp_rflags c, cp_mem := m\<rparr> =
    c\<lparr>cp_regs := (cp_regs c)\<lparr>rg_rax := v, rg_r10 := s, rg_rcx := cp_rip c, rg_r11 := cp_rflags c\<rparr>, cp_mem := m\<rparr>"
    by (simp add: deliver_syscall_def)
  ultimately show ?thesis using r vs by metis
qed

section \<open>Properties\<close>

text \<open>
  C5. A system call through interrupt 0x80, end to end: from any state, in ring 0 or ring 3, with any
  stack, the stub and the handler return to the instruction after \<open>int\<close> with the caller's stack
  pointer, flags and segments and all registers except \<open>rax\<close> and \<open>rcx\<close>, the handler runs on a 16-byte
  aligned stack whatever it leaves in registers and below the stack pointer, and the caller decodes
  exactly the dispatcher's result for its number and arguments.
\<close>

theorem invoke_via_interrupt_correct:
  assumes "ce_handler (CF SyscallInterruptEntry) = handle_interrupt_from_registers ks"
    and "ce_depth (CF SyscallInterruptEntry) < 2 ^ 63" "pit_ok (ks_interrupts ks)"
  shows "\<exists>r c'. invoke_via_interrupt CF tss_rsp0 entry number arg0 arg1 arg2 c = Ret (r, c') \<and>
    dispatch ks number arg0 arg1 arg2 = Ret r \<and>
    (\<exists>v s m. c' = c\<lparr>cp_regs := (cp_regs c)\<lparr>rg_rdi := arg0, rg_rsi := arg1, rg_rdx := arg2, rg_rax := v, rg_rcx := s\<rparr>,
       cp_mem := m\<rparr>)"
proof -
  let ?c = "c\<lparr>cp_regs := (cp_regs c)\<lparr>rg_rax := number, rg_rdi := arg0, rg_rsi := arg1, rg_rdx := arg2\<rparr>\<rparr>"
  obtain r where r: "dispatch ks number arg0 arg1 arg2 = Ret r"
    using dispatch_total[OF assms(3)] by blast
  then obtain v s m where "software_interrupt CF tss_rsp0 entry SYSCALL_INTERRUPT_VECTOR ?c =
      Ret (?c\<lparr>cp_regs := (cp_regs ?c)\<lparr>rg_rax := v, rg_rcx := s\<rparr>, cp_mem := m\<rparr>)" "decode_response s v = r"
    using int_0x80_result[where CF = CF, OF assms(1,2), of ?c r tss_rsp0 entry] by auto
  with r show ?thesis
    by (auto simp: invoke_via_interrupt_def)
qed

text \<open>A ring 3 caller with an odd stack pointer, and a handler that clobbers everything it may.\<close>

definition demo_callee :: callee where
  "demo_callee = \<lparr>ce_handler = handle_interrupt_from_registers demo_services,
     ce_regs = zero_registers, ce_scratch = (\<lambda>_. 0xdead), ce_depth = 4096\<rparr>"

definition demo_cpu :: cpu where
  "demo_cpu = \<lparr>cp_regs = zero_registers\<lparr>rg_rax := 2, rg_rdi := 40, rg_rsi := 2\<rparr>, cp_rsp = 0x7777,
     cp_rip = 0x666600000000, cp_cs = 35, cp_rflags = 0x202, cp_ss = 27, cp_gs_base = 0,
     cp_kernel_gs_base = 0x400000, cp_mem = (\<lambda>a. if a = 0x400000 then 0x304000 else 0)\<rparr>"

theorem invoke_via_interrupt_correct_witness:
  "ce_depth demo_callee < 2 ^ 63 \<and> pit_ok (ks_interrupts demo_services) \<and>
   (\<exists>c'. invoke_via_interrupt (\<lambda>_. demo_callee) 0x500000 0 2 40 2 0 demo_cpu = Ret (Inr 42, c') \<and>
     cp_rsp c' = 0x7777 \<and> cp_rip c' = 0x666600000000)"
proof -
  have h: "ce_handler ((\<lambda>_. demo_callee) SyscallInterruptEntry) = handle_interrupt_from_registers demo_services"
    and d: "ce_depth ((\<lambda>_. demo_callee) SyscallInterruptEntry) < 2 ^ 63"
    by (simp_all add: demo_callee_def)
  have "dispatch demo_services 2 40 2 0 = Ret (Inr 42)"
    by (simp add: dispatch_def syscall_numbers checked_add_def)
  then show ?thesis
    using invoke_via_interrupt_correct[where CF = "\<lambda>_. demo_callee", OF h d demo_services_pit,
        of "0x500000" 0 2 40 2 0 demo_cpu] d demo_services_pit
    by (auto simp: demo_cpu_def)
qed

text \<open>
  C20. A system call through the fast entry: on an aligned kernel stack that does not hold the per-CPU
  record, the stub returns to the user with \<open>rip\<close> and \<open>rflags\<close> taken from \<open>rcx\<close> and \<open>r11\<close>, which keep
  their values, with the user's stack pointer and both GS bases restored, the value in \<open>rax\<close>, the status
  in \<open>r10\<close>, and every other register unchanged.
\<close>

theorem fast_syscall_correct:
  fixes c :: cpu
  defines "K \<equiv> cp_mem c (cp_kernel_gs_base c)"
  assumes "ce_handler C = handle_interrupt_from_registers ks" "pit_ok (ks_interrupts ks)"
    and "K AND 0xf = 0" "ce_depth C < 2 ^ 63"
    and "stack_clear K (ce_depth C) (cp_kernel_gs_base c)" "stack_clear K (ce_depth C) (cp_kernel_gs_base c + 8)"
  shows "\<exists>r v s m. dispatch ks (rg_rax (cp_regs c)) (rg_rdi (cp_regs c)) (rg_rsi (cp_regs c)) (rg_rdx (cp_regs c)) = Ret r \<and>
    decode_response s v = r \<and>
    exec C jingos_fast_syscall_entry (deliver_syscall lstar sfmask c) =
      Ret (c\<lparr>cp_regs := (cp_regs c)\<lparr>rg_rax := v, rg_r10 := s, rg_rcx := cp_rip c, rg_r11 := cp_rflags c\<rparr>,
        cp_mem := m\<rparr>)"
  using fast_syscall_result[OF assms(2,3) assms(4-7)[unfolded K_def], of lstar sfmask] decode_response_of by blast

theorem fast_syscall_correct_witness:
  "cp_mem demo_cpu (cp_kernel_gs_base demo_cpu) AND 0xf = 0 \<and>
   (\<exists>v s m. decode_response s v = Inr 42 \<and>
    exec demo_callee jingos_fast_syscall_entry (deliver_syscall 0x200000 0x700 demo_cpu) =
      Ret (demo_cpu\<lparr>cp_regs := (cp_regs demo_cpu)\<lparr>rg_rax := v, rg_r10 := s, rg_rcx := cp_rip demo_cpu,
        rg_r11 := cp_rflags demo_cpu\<rparr>, cp_mem := m\<rparr>))"
proof -
  have K: "cp_mem demo_cpu (cp_kernel_gs_base demo_cpu) AND 0xf = 0" "ce_depth demo_callee < 2 ^ 63"
    "stack_clear (cp_mem demo_cpu (cp_kernel_gs_base demo_cpu)) (ce_depth demo_callee) (cp_kernel_gs_base demo_cpu)"
    "stack_clear (cp_mem demo_cpu (cp_kernel_gs_base demo_cpu)) (ce_depth demo_callee) (cp_kernel_gs_base demo_cpu + 8)"
    "ce_handler demo_callee = handle_interrupt_from_registers demo_services"
    by (simp_all add: demo_cpu_def demo_callee_def stack_clear_def)
  have "dispatch demo_services (rg_rax (cp_regs demo_cpu)) (rg_rdi (cp_regs demo_cpu))
      (rg_rsi (cp_regs demo_cpu)) (rg_rdx (cp_regs demo_cpu)) = Ret (Inr 42)"
    by (simp add: demo_cpu_def zero_registers_def dispatch_def syscall_numbers checked_add_def)
  then show ?thesis
    using fast_syscall_correct[OF K(5) demo_services_pit K(1-4), of "0x200000" "0x700"] K(1) by auto
qed

text \<open>From ring 3 the instruction \<open>int\<close> reaches the kernel through vectors 0x80 and 0x81 only.\<close>

lemma user_interrupts_limited:
  assumes "cp_cs c AND 3 = 3" "software_interrupt CF tss_rsp0 entry vector c = Ret c'"
  shows "vector = 0x80 \<or> vector = 0x81"
proof -
  obtain h where "idt_gate vector = Some (h, Ring3)"
    using assms by (auto simp: software_interrupt_def split: option.splits if_splits intro: privilege.exhaust)
  then have "(vector, h, Ring3) \<in> set IDT"
    unfolding idt_gate_def by (auto dest!: map_of_SomeD)
  then show ?thesis
    by (auto simp: IDT_def SYSCALL_INTERRUPT_VECTOR_def USERMODE_EXIT_INTERRUPT_VECTOR_def)
qed

end
