(* ===== verification/User_Code.thy ===== *)
theory User_Code
  imports Kernel_Prelude
begin

text \<open>
  The code builder of \<open>kernel/src/usermode.rs\<close>: a buffer of 256 bytes, the encoders of the few
  instructions the ring 3 demos use, and the two demo programs they build.
\<close>

unbundle bit_operations_syntax

section \<open>The builder\<close>

definition USER_CODE_MAX_BYTES :: nat where "USER_CODE_MAX_BYTES = 256"

record UserCodeBuilder =
  ub_bytes :: "u8 list"
  ub_len :: nat

definition builder_new :: UserCodeBuilder where
  "builder_new = \<lparr>ub_bytes = replicate USER_CODE_MAX_BYTES 0, ub_len = 0\<rparr>"

text \<open>\<open>UserCode\<close> has the builder's fields; \<open>finish\<close> moves them and \<open>as_slice\<close> reads the used part.\<close>

definition code_as_slice :: "UserCodeBuilder \<Rightarrow> u8 list" where
  "code_as_slice ub = take (ub_len ub) (ub_bytes ub)"

definition code_too_long :: string where
  "code_too_long = ''user mode demo code exceeded max length''"

fun bind_result :: "('a, 'e) result \<Rightarrow> ('a \<Rightarrow> ('b, 'e) result) \<Rightarrow> ('b, 'e) result" where
  "bind_result (Inl e) f = Inl e"
| "bind_result (Inr x) f = f x"

definition emit_byte :: "u8 \<Rightarrow> UserCodeBuilder \<Rightarrow> (UserCodeBuilder, string) result" where
  "emit_byte byte ub =
     (if length (ub_bytes ub) \<le> ub_len ub then Inl code_too_long
      else Inr (ub\<lparr>ub_bytes := (ub_bytes ub)[ub_len ub := byte], ub_len := ub_len ub + 1\<rparr>))"

definition emit_bytes :: "u8 list \<Rightarrow> UserCodeBuilder \<Rightarrow> (UserCodeBuilder, string) result" where
  "emit_bytes bs ub =
     (if length (ub_bytes ub) < ub_len ub + length bs then Inl code_too_long
      else (let e = ub_len ub + length bs
            in Inr (ub\<lparr>ub_bytes := take (ub_len ub) (ub_bytes ub) @ bs @ drop e (ub_bytes ub),
                       ub_len := e\<rparr>)))"

definition emit_mov_eax_imm32 :: "u32 \<Rightarrow> UserCodeBuilder \<Rightarrow> (UserCodeBuilder, string) result" where
  "emit_mov_eax_imm32 v ub = bind_result (emit_byte 0xB8 ub) (emit_bytes (to_le_bytes 4 v))"

definition emit_mov_rdi_imm64 :: "u64 \<Rightarrow> UserCodeBuilder \<Rightarrow> (UserCodeBuilder, string) result" where
  "emit_mov_rdi_imm64 v ub = bind_result (emit_bytes [0x48, 0xBF] ub) (emit_bytes (to_le_bytes 8 v))"

definition emit_mov_rsi_imm64 :: "u64 \<Rightarrow> UserCodeBuilder \<Rightarrow> (UserCodeBuilder, string) result" where
  "emit_mov_rsi_imm64 v ub = bind_result (emit_bytes [0x48, 0xBE] ub) (emit_bytes (to_le_bytes 8 v))"

definition emit_mov_rdx_imm64 :: "u64 \<Rightarrow> UserCodeBuilder \<Rightarrow> (UserCodeBuilder, string) result" where
  "emit_mov_rdx_imm64 v ub = bind_result (emit_bytes [0x48, 0xBA] ub) (emit_bytes (to_le_bytes 8 v))"

definition emit_syscall :: "UserCodeBuilder \<Rightarrow> (UserCodeBuilder, string) result" where
  "emit_syscall = emit_bytes [0x0F, 0x05]"

definition emit_mov_r8_rax :: "UserCodeBuilder \<Rightarrow> (UserCodeBuilder, string) result" where
  "emit_mov_r8_rax = emit_bytes [0x49, 0x89, 0xC0]"

definition emit_mov_r9_r10 :: "UserCodeBuilder \<Rightarrow> (UserCodeBuilder, string) result" where
  "emit_mov_r9_r10 = emit_bytes [0x4D, 0x89, 0xD1]"

definition emit_mov_r12_r10 :: "UserCodeBuilder \<Rightarrow> (UserCodeBuilder, string) result" where
  "emit_mov_r12_r10 = emit_bytes [0x4D, 0x89, 0xD4]"

definition emit_mov_r10_rax :: "UserCodeBuilder \<Rightarrow> (UserCodeBuilder, string) result" where
  "emit_mov_r10_rax = emit_bytes [0x49, 0x89, 0xC2]"

definition emit_interrupt :: "u8 \<Rightarrow> UserCodeBuilder \<Rightarrow> (UserCodeBuilder, string) result" where
  "emit_interrupt vector = emit_bytes [0xCD, vector]"

definition emit_hang_loop :: "UserCodeBuilder \<Rightarrow> (UserCodeBuilder, string) result" where
  "emit_hang_loop = emit_bytes [0xEB, 0xFE]"

definition emit_fast_syscall_capture_slot0 ::
  "u32 \<Rightarrow> u64 \<Rightarrow> u64 \<Rightarrow> u64 \<Rightarrow> UserCodeBuilder \<Rightarrow> (UserCodeBuilder, string) result" where
  "emit_fast_syscall_capture_slot0 number arg0 arg1 arg2 ub =
     bind_result (emit_mov_eax_imm32 number ub) (\<lambda>ub.
     bind_result (emit_mov_rdi_imm64 arg0 ub) (\<lambda>ub.
     bind_result (emit_mov_rsi_imm64 arg1 ub) (\<lambda>ub.
     bind_result (emit_mov_rdx_imm64 arg2 ub) (\<lambda>ub.
     bind_result (emit_syscall ub) (\<lambda>ub.
     bind_result (emit_mov_r8_rax ub) emit_mov_r9_r10)))))"

definition emit_fast_syscall_capture_slot1 ::
  "u32 \<Rightarrow> u64 \<Rightarrow> u64 \<Rightarrow> u64 \<Rightarrow> UserCodeBuilder \<Rightarrow> (UserCodeBuilder, string) result" where
  "emit_fast_syscall_capture_slot1 number arg0 arg1 arg2 ub =
     bind_result (emit_mov_eax_imm32 number ub) (\<lambda>ub.
     bind_result (emit_mov_rdi_imm64 arg0 ub) (\<lambda>ub.
     bind_result (emit_mov_rsi_imm64 arg1 ub) (\<lambda>ub.
     bind_result (emit_mov_rdx_imm64 arg2 ub) (\<lambda>ub.
     bind_result (emit_syscall ub) (\<lambda>ub.
     bind_result (emit_mov_r12_r10 ub) emit_mov_r10_rax)))))"

section \<open>What the builder appends\<close>

definition builder_ok :: "UserCodeBuilder \<Rightarrow> bool" where
  "builder_ok ub \<longleftrightarrow> ub_len ub \<le> length (ub_bytes ub)"

text \<open>
  An emitter that appends the bytes \<open>bs\<close>: it succeeds exactly when they fit, and then the code grows
  by them.
\<close>

definition appends :: "u8 list \<Rightarrow> (UserCodeBuilder \<Rightarrow> (UserCodeBuilder, string) result) \<Rightarrow> bool" where
  "appends bs emit \<longleftrightarrow> (\<forall>ub. builder_ok ub \<longrightarrow>
     (if length (ub_bytes ub) < ub_len ub + length bs then emit ub = Inl code_too_long
      else \<exists>ub'. emit ub = Inr ub' \<and> builder_ok ub' \<and> length (ub_bytes ub') = length (ub_bytes ub) \<and>
        ub_len ub' = ub_len ub + length bs \<and> code_as_slice ub' = code_as_slice ub @ bs))"

lemma appends_bytes: "appends bs (emit_bytes bs)"
  by (auto simp: appends_def emit_bytes_def builder_ok_def code_as_slice_def Let_def)

lemma emit_byte_bytes: "builder_ok ub \<Longrightarrow> emit_byte b ub = emit_bytes [b] ub"
  by (auto simp: emit_byte_def emit_bytes_def builder_ok_def upd_conv_take_nth_drop)

lemma appends_byte: "appends [b] (emit_byte b)"
  using appends_bytes[of "[b]"] by (auto simp: appends_def emit_byte_bytes)

lemma appends_bind:
  assumes "appends bs e1" "appends cs e2"
  shows "appends (bs @ cs) (\<lambda>ub. bind_result (e1 ub) e2)"
  unfolding appends_def
proof (intro allI impI)
  fix ub
  assume ok: "builder_ok ub"
  show "if length (ub_bytes ub) < ub_len ub + length (bs @ cs) then bind_result (e1 ub) e2 = Inl code_too_long
     else \<exists>ub'. bind_result (e1 ub) e2 = Inr ub' \<and> builder_ok ub' \<and> length (ub_bytes ub') = length (ub_bytes ub) \<and>
        ub_len ub' = ub_len ub + length (bs @ cs) \<and> code_as_slice ub' = code_as_slice ub @ bs @ cs"
  proof (cases "length (ub_bytes ub) < ub_len ub + length bs")
    case True
    with assms(1) ok show ?thesis by (simp add: appends_def)
  next
    case False
    with assms(1) ok obtain ub1 where ub1: "e1 ub = Inr ub1" "builder_ok ub1" "length (ub_bytes ub1) = length (ub_bytes ub)"
      "ub_len ub1 = ub_len ub + length bs" "code_as_slice ub1 = code_as_slice ub @ bs"
      unfolding appends_def by metis
    from assms(2) ub1(2) show ?thesis
      unfolding appends_def using ub1 by (auto simp: add.assoc)
  qed
qed

lemmas emitter_defs = emit_mov_eax_imm32_def emit_mov_rdi_imm64_def emit_mov_rsi_imm64_def
  emit_mov_rdx_imm64_def emit_syscall_def emit_mov_r8_rax_def emit_mov_r9_r10_def emit_mov_r12_r10_def
  emit_mov_r10_rax_def emit_interrupt_def emit_hang_loop_def

definition mov_args :: "u32 \<Rightarrow> u64 \<Rightarrow> u64 \<Rightarrow> u64 \<Rightarrow> u8 list" where
  "mov_args number arg0 arg1 arg2 =
     ([0xB8] @ to_le_bytes 4 number) @ ([0x48, 0xBF] @ to_le_bytes 8 arg0) @
     ([0x48, 0xBE] @ to_le_bytes 8 arg1) @ ([0x48, 0xBA] @ to_le_bytes 8 arg2)"

text \<open>The bytes of a captured call with the two captures \<open>tail\<close> behind it.\<close>

lemma appends_capture:
  assumes "appends t1 e1" "appends t2 e2"
  shows "appends (mov_args n a0 a1 a2 @ [0x0F, 0x05] @ t1 @ t2) (\<lambda>ub.
     bind_result (emit_mov_eax_imm32 n ub) (\<lambda>ub.
     bind_result (emit_mov_rdi_imm64 a0 ub) (\<lambda>ub.
     bind_result (emit_mov_rsi_imm64 a1 ub) (\<lambda>ub.
     bind_result (emit_mov_rdx_imm64 a2 ub) (\<lambda>ub.
     bind_result (emit_syscall ub) (\<lambda>ub. bind_result (e1 ub) e2))))))"
proof -
  have "appends ([0xB8] @ to_le_bytes 4 n) (emit_mov_eax_imm32 n)"
    "appends ([0x48, 0xBF] @ to_le_bytes 8 a0) (emit_mov_rdi_imm64 a0)"
    "appends ([0x48, 0xBE] @ to_le_bytes 8 a1) (emit_mov_rsi_imm64 a1)"
    "appends ([0x48, 0xBA] @ to_le_bytes 8 a2) (emit_mov_rdx_imm64 a2)"
    "appends [0x0F, 0x05] emit_syscall"
    unfolding emitter_defs by (intro appends_bind appends_bytes appends_byte)+
  note parts = this
  have eq: "mov_args n a0 a1 a2 @ [0x0F, 0x05] @ t1 @ t2 =
      ([0xB8] @ to_le_bytes 4 n) @ ([0x48, 0xBF] @ to_le_bytes 8 a0) @ ([0x48, 0xBE] @ to_le_bytes 8 a1) @
      ([0x48, 0xBA] @ to_le_bytes 8 a2) @ [0x0F, 0x05] @ t1 @ t2"
    by (simp add: mov_args_def)
  show ?thesis unfolding eq by (intro appends_bind parts assms)
qed

definition slot0_bytes :: "u32 \<Rightarrow> u64 \<Rightarrow> u64 \<Rightarrow> u64 \<Rightarrow> u8 list" where
  "slot0_bytes n a0 a1 a2 = mov_args n a0 a1 a2 @ [0x0F, 0x05] @ [0x49, 0x89, 0xC0] @ [0x4D, 0x89, 0xD1]"

definition slot1_bytes :: "u32 \<Rightarrow> u64 \<Rightarrow> u64 \<Rightarrow> u64 \<Rightarrow> u8 list" where
  "slot1_bytes n a0 a1 a2 = mov_args n a0 a1 a2 @ [0x0F, 0x05] @ [0x4D, 0x89, 0xD4] @ [0x49, 0x89, 0xC2]"

lemma appends_slots:
  "appends (slot0_bytes n a0 a1 a2) (emit_fast_syscall_capture_slot0 n a0 a1 a2)"
  "appends (slot1_bytes n a0 a1 a2) (emit_fast_syscall_capture_slot1 n a0 a1 a2)"
proof -
  have r: "appends [0x49, 0x89, 0xC0] emit_mov_r8_rax" "appends [0x4D, 0x89, 0xD1] emit_mov_r9_r10"
    "appends [0x4D, 0x89, 0xD4] emit_mov_r12_r10" "appends [0x49, 0x89, 0xC2] emit_mov_r10_rax"
    unfolding emitter_defs by (rule appends_bytes)+
  show "appends (slot0_bytes n a0 a1 a2) (emit_fast_syscall_capture_slot0 n a0 a1 a2)"
    using appends_capture[OF r(1,2), of n a0 a1 a2]
    unfolding slot0_bytes_def emit_fast_syscall_capture_slot0_def .
  show "appends (slot1_bytes n a0 a1 a2) (emit_fast_syscall_capture_slot1 n a0 a1 a2)"
    using appends_capture[OF r(3,4), of n a0 a1 a2]
    unfolding slot1_bytes_def emit_fast_syscall_capture_slot1_def .
qed

lemma length_slots [simp]: "length (slot0_bytes n a0 a1 a2) = 43" "length (slot1_bytes n a0 a1 a2) = 43"
  by (simp_all add: slot0_bytes_def slot1_bytes_def mov_args_def)

lemma appends_from_new:
  assumes "appends bs emit" "length bs \<le> 256"
  shows "\<exists>ub. emit builder_new = Inr ub \<and> code_as_slice ub = bs"
proof -
  have "builder_ok builder_new" "length (ub_bytes builder_new) = 256" "ub_len builder_new = 0"
    "code_as_slice builder_new = []"
    by (simp_all add: builder_ok_def builder_new_def USER_CODE_MAX_BYTES_def code_as_slice_def)
  then show ?thesis using assms unfolding appends_def by force
qed

end
