(* ===== verification/Usermode.thy ===== *)
theory Usermode
  imports Entry_Stubs User_Code Paging
begin

text \<open>
  \<open>kernel/src/usermode.rs\<close>: mapping the ring 3 pages, loading and entering a demo program, and the
  handler of the exit interrupt, with a small x86 decoder on which the bytes of the demo programs run
  against the system call stubs.
\<close>

unbundle bit_operations_syntax

section \<open>Statics, reports and demo programs\<close>

definition USER_CODE_START :: u64 where "USER_CODE_START = 0x0000666600000000"
definition USER_STACK_START :: u64 where "USER_STACK_START = 0x0000666600008000"
definition USER_STACK_TOP :: u64 where "USER_STACK_TOP = USER_STACK_START + 0x2000"
definition USER_FAST_SYSCALL_UNKNOWN_NUMBER :: u32 where "USER_FAST_SYSCALL_UNKNOWN_NUMBER = 0xFFFFFF00"

record UserModeContext =
  uc_entry :: u64
  uc_stack_top :: u64

datatype FastSyscallDemoKind = SuccessPath | ErrorPath

record FastSyscallDemoReport =
  dr_kind :: FastSyscallDemoKind
  dr_call0_value :: u64
  dr_call0_status :: u64
  dr_call1_value :: u64
  dr_call1_status :: u64

definition kind_name :: "FastSyscallDemoReport \<Rightarrow> string" where
  "kind_name r = (case dr_kind r of SuccessPath \<Rightarrow> ''success-path'' | ErrorPath \<Rightarrow> ''error-path'')"

definition expected_summary :: "FastSyscallDemoReport \<Rightarrow> string" where
  "expected_summary r =
     (case dr_kind r of
        SuccessPath \<Rightarrow> ''call0 status=0; call1 value=42 status=0 (SYSCALL_ADD 40+2)''
      | ErrorPath \<Rightarrow> ''call0 value=0xffff_ff00 status=1 (unknown syscall); call1 value=0 status=2 (overflow)'')"

definition passed :: "FastSyscallDemoReport \<Rightarrow> bool" where
  "passed r =
     (case dr_kind r of
        SuccessPath \<Rightarrow> dr_call0_status r = SYSCALL_STATUS_OK \<and> dr_call1_value r = 42 \<and>
          dr_call1_status r = SYSCALL_STATUS_OK
      | ErrorPath \<Rightarrow> dr_call0_value r = ucast USER_FAST_SYSCALL_UNKNOWN_NUMBER \<and>
          dr_call0_status r = SYSCALL_STATUS_UNKNOWN_NUMBER \<and> dr_call1_value r = 0 \<and>
          dr_call1_status r = SYSCALL_STATUS_OVERFLOW)"

text \<open>The statics of the module, with what its handler writes to the serial port.\<close>

record UsermodeState =
  um_context :: "UserModeContext option"
  um_last_report :: "FastSyscallDemoReport option"
  um_pending_kind :: "FastSyscallDemoKind option"
  um_exit_expected :: bool
  um_serial :: "string list"

definition usermode_statics :: UsermodeState where
  "usermode_statics = \<lparr>um_context = None, um_last_report = None, um_pending_kind = None,
     um_exit_expected = False, um_serial = []\<rparr>"

definition USER_INT_DEMO_CODE :: "u8 list" where
  "USER_INT_DEMO_CODE = [0xB8, 0x00, 0x00, 0x00, 0x00, 0xCD, 0x80, 0xCD, 0x81, 0xEB, 0xFE]"

definition build_fast_syscall_success_code :: "(UserCodeBuilder, string) result" where
  "build_fast_syscall_success_code =
     bind_result (emit_fast_syscall_capture_slot0 (ucast SYSCALL_GET_TICKS) 0 0 0 builder_new) (\<lambda>ub.
     bind_result (emit_fast_syscall_capture_slot1 (ucast SYSCALL_ADD) 40 2 0 ub) (\<lambda>ub.
     bind_result (emit_interrupt USERMODE_EXIT_INTERRUPT_VECTOR ub) emit_hang_loop))"

definition build_fast_syscall_error_code :: "(UserCodeBuilder, string) result" where
  "build_fast_syscall_error_code =
     bind_result (emit_fast_syscall_capture_slot0 USER_FAST_SYSCALL_UNKNOWN_NUMBER 0 0 0 builder_new) (\<lambda>ub.
     bind_result (emit_fast_syscall_capture_slot1 (ucast SYSCALL_ADD) (- 1) 1 0 ub) (\<lambda>ub.
     bind_result (emit_interrupt USERMODE_EXIT_INTERRUPT_VECTOR ub) emit_hang_loop))"

section \<open>Loading and entering user code\<close>

text \<open>The two loops of \<open>write_demo_code\<close>: a page of \<open>nop\<close>, then the code over its start.\<close>

definition write_demo_code :: "'m mapper_api \<Rightarrow> u8 list \<Rightarrow> 'm machine \<Rightarrow> 'm machine run" where
  "write_demo_code M code mm =
     bind_run (write_volatile_bytes M USER_CODE_START (replicate 4096 0x90) mm)
       (write_volatile_bytes M USER_CODE_START code)"

definition init_memory ::
  "x86_64_api \<Rightarrow> 'm mapper_api \<Rightarrow> 'm machine \<Rightarrow> BootInfoFrameAllocator \<Rightarrow> UsermodeState \<Rightarrow>
   ((unit, string) result \<times> 'm machine \<times> BootInfoFrameAllocator \<times> UsermodeState) run" where
  "init_memory X M mm fa um =
     (let user_code_flags = flag_PRESENT X OR flag_WRITABLE X OR flag_USER_ACCESSIBLE X;
          user_stack_flags = flag_PRESENT X OR flag_WRITABLE X OR flag_USER_ACCESSIBLE X
      in bind_run (map_page_with_flags X M mm fa USER_CODE_START user_code_flags) (\<lambda>(r, mm, fa). case r of
           Inl e \<Rightarrow> Ret (Inl e, mm, fa, um)
         | Inr _ \<Rightarrow>
         bind_run (map_page_with_flags X M mm fa USER_STACK_START user_stack_flags) (\<lambda>(r, mm, fa). case r of
           Inl e \<Rightarrow> Ret (Inl e, mm, fa, um)
         | Inr _ \<Rightarrow>
         bind_run (map_page_with_flags X M mm fa (USER_STACK_START + 0x1000) user_stack_flags) (\<lambda>(r, mm, fa). case r of
           Inl e \<Rightarrow> Ret (Inl e, mm, fa, um)
         | Inr _ \<Rightarrow>
         bind_run (write_demo_code M USER_INT_DEMO_CODE mm) (\<lambda>mm.
           Ret (Inr (), mm, fa, um\<lparr>um_context := Some \<lparr>uc_entry = USER_CODE_START,
             uc_stack_top = USER_STACK_TOP\<rparr>\<rparr>))))))"

text \<open>
  The inline assembly that enters ring 3: it loads the data segments, pushes the frame \<open>iretq\<close> takes and
  executes it. Of the data segments the machine has the base of \<open>gs\<close>, which the load of a flat segment
  sets to zero.
\<close>

definition enter_user_mode :: "u64 \<Rightarrow> u64 \<Rightarrow> u16 \<Rightarrow> u16 \<Rightarrow> cpu \<Rightarrow> cpu" where
  "enter_user_mode user_entry user_stack_top user_code_selector user_data_selector c =
     (let rsp = cp_rsp c;
          c1 = c\<lparr>cp_rsp := rsp - 40, cp_gs_base := 0,
                 cp_mem := (cp_mem c)(rsp - 8 := ucast user_data_selector, rsp - 16 := user_stack_top,
                   rsp - 24 := cp_rflags c, rsp - 32 := ucast user_code_selector, rsp - 40 := user_entry)\<rparr>
      in iretq c1)"

text \<open>
  \<open>run_demo_code\<close> does not return when it succeeds: the result is the error, or the state in which
  the CPU is in ring 3.
\<close>

definition run_demo_code ::
  "'m mapper_api \<Rightarrow> Selectors \<Rightarrow> u8 list \<Rightarrow> FastSyscallDemoKind option \<Rightarrow> UsermodeState \<Rightarrow> 'm machine \<Rightarrow> cpu \<Rightarrow>
   (cpu \<times> 'm machine, string) result run \<times> UsermodeState" where
  "run_demo_code M selectors code fast_syscall_kind um mm c =
     (case um_context um of
        None \<Rightarrow> (Ret (Inl ''user mode memory not initialized''), um)
      | Some context \<Rightarrow>
          (let um = um\<lparr>um_pending_kind := fast_syscall_kind, um_last_report := None\<rparr>
           in (bind_run (write_demo_code M code mm) (\<lambda>mm.
               Ret (Inr (enter_user_mode (uc_entry context) (uc_stack_top context)
                   (sl_user_code_selector selectors) (sl_user_data_selector selectors) c, mm))),
               um\<lparr>um_exit_expected := True\<rparr>)))"

definition run_demo where
  "run_demo M selectors um mm c = run_demo_code M selectors USER_INT_DEMO_CODE None um mm c"

definition run_fast_syscall_demo where
  "run_fast_syscall_demo M selectors um mm c =
     (case build_fast_syscall_success_code of
        Inl e \<Rightarrow> (Ret (Inl e), um)
      | Inr code \<Rightarrow> run_demo_code M selectors (code_as_slice code) (Some SuccessPath) um mm c)"

definition run_fast_syscall_error_demo where
  "run_fast_syscall_error_demo M selectors um mm c =
     (case build_fast_syscall_error_code of
        Inl e \<Rightarrow> (Ret (Inl e), um)
      | Inr code \<Rightarrow> run_demo_code M selectors (code_as_slice code) (Some ErrorPath) um mm c)"

definition take_last_fast_syscall_report ::
  "UsermodeState \<Rightarrow> FastSyscallDemoReport option \<times> UsermodeState" where
  "take_last_fast_syscall_report um = (um_last_report um, um\<lparr>um_last_report := None\<rparr>)"

text \<open>The exit handler returns to the interrupted code, or leaves for the monitor for good.\<close>

datatype exit_outcome = ReturnsToCaller | ResumesMonitor

definition handle_exit_interrupt_from_registers ::
  "SyscallRegisters \<Rightarrow> UsermodeState \<Rightarrow> exit_outcome \<times> UsermodeState" where
  "handle_exit_interrupt_from_registers registers um =
     (if \<not> um_exit_expected um
      then (ReturnsToCaller, um\<lparr>um_exit_expected := False,
              um_serial := um_serial um @ [''ignored unexpected int 0x81 (no usermode session)'']\<rparr>)
      else
        (let pending_kind = um_pending_kind um;
             um = um\<lparr>um_exit_expected := False, um_pending_kind := None\<rparr>
         in (ResumesMonitor,
             case pending_kind of
               Some kind \<Rightarrow> um\<lparr>um_last_report := Some \<lparr>dr_kind = kind,
                   dr_call0_value = rg_r8 registers, dr_call0_status = rg_r9 registers,
                   dr_call1_value = rg_r10 registers, dr_call1_status = rg_r12 registers\<rparr>\<rparr>
             | None \<Rightarrow> um\<lparr>um_last_report := None\<rparr>)))"

section \<open>Running user code\<close>

text \<open>
  The instructions the demo programs consist of, decoded from bytes as the architecture encodes them:
  moves of immediates (32 and 64 bits) and between registers with a \<open>REX.W\<close> prefix, \<open>syscall\<close>, \<open>int\<close>,
  the short jump and \<open>nop\<close>.
\<close>

datatype user_instr = MovImm reg u64 | MovReg reg reg | SyscallInstr | IntInstr u8 | JmpShort u8 | NopInstr

definition reg_of_index :: "u8 \<Rightarrow> reg option" where
  "reg_of_index i =
     map_of [(0, RAX), (1, RCX), (2, RDX), (3, RBX), (5, RBP), (6, RSI), (7, RDI), (8, R8), (9, R9),
       (10, R10), (11, R11), (12, R12), (13, R13), (14, R14), (15, R15)] i"

definition rex_bit :: "u8 \<Rightarrow> nat \<Rightarrow> u8" where
  "rex_bit rex n = (if bit rex n then 8 else 0)"

definition decode_rex :: "u8 \<Rightarrow> u8 list \<Rightarrow> (user_instr \<times> nat) option" where
  "decode_rex rex bs =
     (case bs of
        [] \<Rightarrow> None
      | op # rest \<Rightarrow>
          if op AND 0xF8 = 0xB8 \<and> 8 \<le> length rest then
            map_option (\<lambda>r. (MovImm r (from_le_bytes (take 8 rest)), 10)) (reg_of_index ((op AND 7) + rex_bit rex 0))
          else if op = 0x89 then
            (case rest of
               [] \<Rightarrow> None
             | modrm # _ \<Rightarrow>
                 if drop_bit 6 modrm \<noteq> 3 then None
                 else (case (reg_of_index ((modrm AND 7) + rex_bit rex 0),
                             reg_of_index ((drop_bit 3 modrm AND 7) + rex_bit rex 2)) of
                         (Some dst, Some src) \<Rightarrow> Some (MovReg dst src, 3)
                       | _ \<Rightarrow> None))
          else None)"

definition decode_user :: "u8 list \<Rightarrow> (user_instr \<times> nat) option" where
  "decode_user bs =
     (case bs of
        [] \<Rightarrow> None
      | op # rest \<Rightarrow>
          if op = 0x90 then Some (NopInstr, 1)
          else if op AND 0xF8 = 0xB8 \<and> 4 \<le> length rest then
            map_option (\<lambda>r. (MovImm r (ucast (from_le_bytes (take 4 rest) :: u32)), 5)) (reg_of_index (op AND 7))
          else if op AND 0xF8 = 0x48 then decode_rex op rest
          else (case rest of
              [] \<Rightarrow> None
            | arg # _ \<Rightarrow>
                if op = 0x0F \<and> arg = 0x05 then Some (SyscallInstr, 2)
                else if op = 0xCD then Some (IntInstr arg, 2)
                else if op = 0xEB then Some (JmpShort arg, 2)
                else None))"

text \<open>What surrounds user code: the handlers behind the gates, the fast entry and the TSS stack.\<close>

record user_env =
  ue_gates :: "handler \<Rightarrow> callee"
  ue_fast :: callee
  ue_tss_rsp0 :: u64
  ue_entry :: u64
  ue_lstar :: u64
  ue_sfmask :: u64

datatype user_outcome = Running cpu | ExitInterrupt SyscallRegisters

text \<open>
  The exit interrupt up to the call of its handler: what the handler finds in the record \<open>rdi\<close> points
  to.
\<close>

definition exit_registers :: "user_env \<Rightarrow> cpu \<Rightarrow> SyscallRegisters run" where
  "exit_registers U c =
     bind_run (exec (ue_gates U UsermodeExitInterruptEntry)
        (takeWhile (\<lambda>i. i \<noteq> CallDispatch) jingos_usermode_exit_interrupt_entry)
        (deliver_interrupt (ue_tss_rsp0 U) (ue_entry U) c))
       (\<lambda>c'. Ret (load_struct struct_regs (rg_rdi (cp_regs c')) (cp_mem c') zero_registers))"

fun exec_user :: "user_env \<Rightarrow> user_instr \<Rightarrow> cpu \<Rightarrow> user_outcome run" where
  "exec_user U (MovImm r v) c = Ret (Running (c\<lparr>cp_regs := set_reg r v (cp_regs c)\<rparr>))"
| "exec_user U (MovReg d s) c = Ret (Running (c\<lparr>cp_regs := set_reg d (get_reg s (cp_regs c)) (cp_regs c)\<rparr>))"
| "exec_user U SyscallInstr c =
     bind_run (exec (ue_fast U) jingos_fast_syscall_entry (deliver_syscall (ue_lstar U) (ue_sfmask U) c))
       (\<lambda>c. Ret (Running c))"
| "exec_user U (IntInstr v) c =
     (if v = USERMODE_EXIT_INTERRUPT_VECTOR
      then bind_run (exit_registers U c) (\<lambda>rs. Ret (ExitInterrupt rs))
      else bind_run (software_interrupt (ue_gates U) (ue_tss_rsp0 U) (ue_entry U) v c) (\<lambda>c. Ret (Running c)))"
| "exec_user U (JmpShort d) c = Ret (Running (c\<lparr>cp_rip := cp_rip c + scast d\<rparr>))"
| "exec_user U NopInstr c = Ret (Running c)"

text \<open>
  Fetch, decode and execute, with the instruction pointer advanced past the instruction first; \<open>fetch\<close>
  gives the bytes from an address on. The fuel bounds the number of instructions.
\<close>

definition user_step :: "(u64 \<Rightarrow> u8 list) \<Rightarrow> user_env \<Rightarrow> cpu \<Rightarrow> user_outcome run" where
  "user_step fetch U c =
     (case decode_user (fetch (cp_rip c)) of
        None \<Rightarrow> Panic UnhandledException
      | Some (i, n) \<Rightarrow> exec_user U i (c\<lparr>cp_rip := cp_rip c + of_nat n\<rparr>))"

fun user_run :: "nat \<Rightarrow> (u64 \<Rightarrow> u8 list) \<Rightarrow> user_env \<Rightarrow> cpu \<Rightarrow> SyscallRegisters option run" where
  "user_run 0 fetch U c = Ret None"
| "user_run (Suc n) fetch U c =
     bind_run (user_step fetch U c) (\<lambda>r. case r of
        Running c' \<Rightarrow> user_run n fetch U c'
      | ExitInterrupt rs \<Rightarrow> Ret (Some rs))"

text \<open>The bytes the CPU fetches: a page's worth of user memory from the given address on.\<close>

definition fetch_bytes :: "'m mapper_api \<Rightarrow> 'm machine \<Rightarrow> u64 \<Rightarrow> u8 list" where
  "fetch_bytes M mm a = (case read_volatile_bytes M a 16 mm of Ret bs \<Rightarrow> bs | Panic _ \<Rightarrow> [])"

section \<open>The page a demo runs from\<close>

text \<open>The page after loading: the code, then \<open>nop\<close> up to its end.\<close>

definition code_page :: "u8 list \<Rightarrow> u8 list" where
  "code_page code = code @ replicate (4096 - length code) 0x90"

lemma length_code_page [simp]: "length code \<le> 4096 \<Longrightarrow> length (code_page code) = 4096"
  by (simp add: code_page_def)

lemma store_bytes_over:
  "length bs \<le> length cs \<Longrightarrow> store_bytes p bs (store_bytes p cs f) = store_bytes p (bs @ drop (length bs) cs) f"
  by (auto simp: store_bytes_def fun_eq_iff nth_append)

lemma write_demo_code_mapped:
  assumes "mapped_to M (mm_mapper mm) USER_CODE_START p 4096" "length code \<le> 4096"
  shows "write_demo_code M code mm = Ret (mm\<lparr>mm_bytes := store_bytes p (code_page code) (mm_bytes mm)\<rparr>)"
proof -
  have m: "mapped_to M (mm_mapper mm) USER_CODE_START p (length code)"
    using assms by (simp add: mapped_to_def)
  have "write_volatile_bytes M USER_CODE_START (replicate 4096 0x90) mm =
      Ret (mm\<lparr>mm_bytes := store_bytes p (replicate 4096 0x90) (mm_bytes mm)\<rparr>)"
    using assms(1) by (intro write_volatile_bytes_mapped) simp_all
  moreover have "write_volatile_bytes M USER_CODE_START code (mm\<lparr>mm_bytes := store_bytes p (replicate 4096 0x90) (mm_bytes mm)\<rparr>) =
      Ret (mm\<lparr>mm_bytes := store_bytes p code (store_bytes p (replicate 4096 0x90) (mm_bytes mm))\<rparr>)"
    using m assms(2) write_volatile_bytes_mapped[of M "mm\<lparr>mm_bytes := store_bytes p (replicate 4096 0x90) (mm_bytes mm)\<rparr>"
        USER_CODE_START p code] by simp
  moreover have "store_bytes p code (store_bytes p (replicate 4096 0x90) f) = store_bytes p (code_page code) f" for f
    using assms(2) by (subst store_bytes_over) (simp_all add: code_page_def)
  ultimately show ?thesis by (simp add: write_demo_code_def)
qed

text \<open>The bytes fetched from an img at the start of the user code.\<close>

definition loaded :: "(u64 \<Rightarrow> u8 list) \<Rightarrow> u8 list \<Rightarrow> bool" where
  "loaded fetch img \<longleftrightarrow>
     (\<forall>k. k + 16 \<le> length img \<longrightarrow> fetch (USER_CODE_START + of_nat k) = take 16 (drop k img))"

lemma loaded_fetch_bytes:
  assumes "mapped_to M (mm_mapper mm) USER_CODE_START p (length img)" "length img < 2 ^ 64"
  shows "loaded (fetch_bytes M (mm\<lparr>mm_bytes := store_bytes p img f\<rparr>)) img"
  unfolding loaded_def
proof (intro allI impI)
  fix k
  assume k: "k + 16 \<le> length img"
  let ?mm = "mm\<lparr>mm_bytes := store_bytes p img f\<rparr>"
  have "mapped_to M (mm_mapper ?mm) (USER_CODE_START + of_nat k) (p + of_nat k) 16"
    unfolding mapped_to_def
  proof (intro allI impI)
    fix i :: nat
    assume "i < 16"
    with assms(1) k show "mp_translate_addr M (mm_mapper ?mm) (USER_CODE_START + of_nat k + of_nat i) =
        Some (p + of_nat k + of_nat i)"
      unfolding mapped_to_def by (auto dest!: spec[of _ "k + i"] simp: add.assoc)
  qed
  then have "fetch_bytes M ?mm (USER_CODE_START + of_nat k) =
      map (\<lambda>i. store_bytes p img f (p + of_nat k + of_nat i)) [0..<16]"
    by (simp only: fetch_bytes_def read_volatile_bytes_mapped) simp
  also have "\<dots> = take 16 (drop k img)"
  proof (rule nth_equalityI)
    fix i
    assume "i < length (map (\<lambda>i. store_bytes p img f (p + of_nat k + of_nat i)) [0..<16])"
    then have i: "i < 16" by simp
    with k assms(2) have "unat (of_nat (k + i) :: u64) = k + i" by (intro unat_of_nat_u64) simp
    then have "store_bytes p img f (p + of_nat k + of_nat i) = img ! (k + i)"
      using i k by (simp add: store_bytes_def add.assoc)
    with i k show "map (\<lambda>i. store_bytes p img f (p + of_nat k + of_nat i)) [0..<16] ! i = take 16 (drop k img) ! i"
      by (simp del: upt_Suc upt.simps)
  qed (use k in simp)
  finally show "fetch_bytes M ?mm (USER_CODE_START + of_nat k) = take 16 (drop k img)" .
qed

section \<open>Running the demo code\<close>

definition encodes :: "u8 list \<Rightarrow> user_instr \<Rightarrow> bool" where
  "encodes bs i \<longleftrightarrow> length bs \<le> 16 \<and> (\<forall>rest. decode_user (bs @ rest) = Some (i, length bs))"

lemma from_to_le_bytes_u32 [simp]: "from_le_bytes (to_le_bytes 4 w) = (w :: u32)"
  by (simp add: from_to_le_bytes take_bit_word_eq_self)

lemma encodes_mov_imm:
  "encodes (0xB8 # to_le_bytes 4 n) (MovImm RAX (ucast (n :: u32)))"
  "encodes (0x48 # 0xBF # to_le_bytes 8 a) (MovImm RDI a)"
  "encodes (0x48 # 0xBE # to_le_bytes 8 a) (MovImm RSI a)"
  "encodes (0x48 # 0xBA # to_le_bytes 8 a) (MovImm RDX a)"
  by (simp_all add: encodes_def decode_user_def decode_rex_def reg_of_index_def rex_bit_def bit_simps)

lemma encodes_rest:
  "encodes [0x0F, 0x05] SyscallInstr"
  "encodes [0x49, 0x89, 0xC0] (MovReg R8 RAX)"
  "encodes [0x4D, 0x89, 0xD1] (MovReg R9 R10)"
  "encodes [0x4D, 0x89, 0xD4] (MovReg R12 R10)"
  "encodes [0x49, 0x89, 0xC2] (MovReg R10 RAX)"
  "encodes [0xCD, v] (IntInstr v)"
  "encodes [0xEB, v] (JmpShort v)"
  by (simp_all add: encodes_def decode_user_def decode_rex_def reg_of_index_def rex_bit_def bit_numeral_rec drop_bit_numeral_bit0 drop_bit_numeral_bit1)

text \<open>One instruction of a loaded program.\<close>

lemma user_step_loaded:
  assumes "loaded fetch (pre @ bs @ rest)" "encodes bs i" "16 \<le> length (bs @ rest)"
    "cp_rip c = USER_CODE_START + of_nat (length pre)"
  shows "user_step fetch U c = exec_user U i (c\<lparr>cp_rip := USER_CODE_START + of_nat (length (pre @ bs))\<rparr>)"
proof -
  have "fetch (cp_rip c) = take 16 (bs @ rest)"
    using assms(1,3,4) unfolding loaded_def by (auto dest!: spec[of _ "length pre"])
  also have "\<dots> = bs @ take (16 - length bs) rest" using assms(2) by (simp add: encodes_def)
  finally show ?thesis
    using assms(2,4) by (simp add: user_step_def encodes_def add.assoc)
qed

lemma user_run_loaded:
  assumes "loaded fetch (pre @ bs @ rest)" "encodes bs i" "16 \<le> length (bs @ rest)"
    "cp_rip c = USER_CODE_START + of_nat (length pre)"
    "exec_user U i (c\<lparr>cp_rip := USER_CODE_START + of_nat (length (pre @ bs))\<rparr>) = Ret (Running c')"
  shows "user_run (Suc n) fetch U c = user_run n fetch U c'"
  using user_step_loaded[OF assms(1-4), of U] assms(5) by simp

text \<open>The kernel is ready for fast system calls, which keeps it so.\<close>

definition fast_ready :: "callee \<Rightarrow> kernel_services \<Rightarrow> cpu \<Rightarrow> bool" where
  "fast_ready C ks c \<longleftrightarrow>
     ce_handler C = handle_interrupt_from_registers ks \<and> pit_ok (ks_interrupts ks) \<and>
     cp_mem c (cp_kernel_gs_base c) AND 0xf = 0 \<and> ce_depth C < 2 ^ 63 \<and>
     stack_clear (cp_mem c (cp_kernel_gs_base c)) (ce_depth C) (cp_kernel_gs_base c) \<and>
     stack_clear (cp_mem c (cp_kernel_gs_base c)) (ce_depth C) (cp_kernel_gs_base c + 8)"

lemma fast_ready_regs [simp]:
  "fast_ready C ks (c\<lparr>cp_regs := rs\<rparr>) = fast_ready C ks c" "fast_ready C ks (c\<lparr>cp_rip := a\<rparr>) = fast_ready C ks c"
  by (simp_all add: fast_ready_def)

lemma exec_user_syscall:
  assumes "fast_ready (ue_fast U) ks c"
    "dispatch ks (rg_rax (cp_regs c)) (rg_rdi (cp_regs c)) (rg_rsi (cp_regs c)) (rg_rdx (cp_regs c)) = Ret r"
    "response_of r = (v, s)"
  shows "\<exists>m. exec_user U SyscallInstr c =
      Ret (Running (c\<lparr>cp_regs := (cp_regs c)\<lparr>rg_rax := v, rg_r10 := s, rg_rcx := cp_rip c, rg_r11 := cp_rflags c\<rparr>, cp_mem := m\<rparr>)) \<and>
    fast_ready (ue_fast U) ks (c\<lparr>cp_mem := m\<rparr>)"
proof -
  note ready = assms(1)[unfolded fast_ready_def]
  obtain r' v' s' m where call: "dispatch ks (rg_rax (cp_regs c)) (rg_rdi (cp_regs c)) (rg_rsi (cp_regs c)) (rg_rdx (cp_regs c)) = Ret r'"
    "response_of r' = (v', s')" "m (cp_kernel_gs_base c) = cp_mem c (cp_kernel_gs_base c)"
    "exec (ue_fast U) jingos_fast_syscall_entry (deliver_syscall (ue_lstar U) (ue_sfmask U) c) =
      Ret (c\<lparr>cp_regs := (cp_regs c)\<lparr>rg_rax := v', rg_r10 := s', rg_rcx := cp_rip c, rg_r11 := cp_rflags c\<rparr>, cp_mem := m\<rparr>)"
    using fast_syscall_result[of "ue_fast U" ks c "ue_lstar U" "ue_sfmask U"] ready by blast
  moreover from this assms(2,3) have "v' = v" "s' = s" by auto
  moreover have "fast_ready (ue_fast U) ks (c\<lparr>cp_mem := m\<rparr>)"
    using ready call(3) by (simp add: fast_ready_def)
  ultimately show ?thesis by auto
qed

text \<open>A call with its arguments: five instructions that leave the response in \<open>rax\<close> and \<open>r10\<close>.\<close>

lemma user_run_call:
  assumes ready: "fast_ready (ue_fast U) ks c"
    and img: "loaded fetch (pre @ mov_args n a0 a1 a2 @ [0x0F, 0x05] @ rest)" "16 \<le> length rest"
    and rip: "cp_rip c = USER_CODE_START + of_nat (length pre)"
    and r: "dispatch ks (ucast n) a0 a1 a2 = Ret r" "response_of r = (v, s)"
  shows "\<exists>c'. user_run (Suc (Suc (Suc (Suc (Suc f))))) fetch U c = user_run f fetch U c' \<and> fast_ready (ue_fast U) ks c' \<and>
    cp_rip c' = USER_CODE_START + of_nat (length pre + 37) \<and> rg_rax (cp_regs c') = v \<and> rg_r10 (cp_regs c') = s \<and>
    rg_r8 (cp_regs c') = rg_r8 (cp_regs c) \<and> rg_r9 (cp_regs c') = rg_r9 (cp_regs c)"
proof -
  let ?b1 = "0xB8 # to_le_bytes 4 n" and ?b2 = "0x48 # 0xBF # to_le_bytes 8 a0"
    and ?b3 = "0x48 # 0xBE # to_le_bytes 8 a1" and ?b4 = "0x48 # 0xBA # to_le_bytes 8 a2"
  let ?at = "\<lambda>k c. c\<lparr>cp_rip := USER_CODE_START + of_nat (length pre + k)\<rparr>"
  let ?s1 = "?at 5 (c\<lparr>cp_regs := set_reg RAX (ucast n) (cp_regs c)\<rparr>)"
  let ?s2 = "?at 15 (?s1\<lparr>cp_regs := set_reg RDI a0 (cp_regs ?s1)\<rparr>)"
  let ?s3 = "?at 25 (?s2\<lparr>cp_regs := set_reg RSI a1 (cp_regs ?s2)\<rparr>)"
  let ?s4 = "?at 35 (?s3\<lparr>cp_regs := set_reg RDX a2 (cp_regs ?s3)\<rparr>)"
  have "user_run (Suc (Suc (Suc (Suc (Suc f))))) fetch U c = user_run (Suc (Suc (Suc (Suc f)))) fetch U ?s1"
    by (rule user_run_loaded[of _ pre ?b1 "?b2 @ ?b3 @ ?b4 @ [0x0F, 0x05] @ rest", OF _ encodes_mov_imm(1)])
      (use img rip in \<open>simp_all add: mov_args_def\<close>)
  also have "\<dots> = user_run (Suc (Suc (Suc f))) fetch U ?s2"
    by (rule user_run_loaded[of _ "pre @ ?b1" ?b2 "?b3 @ ?b4 @ [0x0F, 0x05] @ rest", OF _ encodes_mov_imm(2)])
      (use img in \<open>simp_all add: mov_args_def\<close>)
  also have "\<dots> = user_run (Suc (Suc f)) fetch U ?s3"
    by (rule user_run_loaded[of _ "pre @ ?b1 @ ?b2" ?b3 "?b4 @ [0x0F, 0x05] @ rest", OF _ encodes_mov_imm(3)])
      (use img in \<open>simp_all add: mov_args_def\<close>)
  also have "\<dots> = user_run (Suc f) fetch U ?s4"
    by (rule user_run_loaded[of _ "pre @ ?b1 @ ?b2 @ ?b3" ?b4 "[0x0F, 0x05] @ rest", OF _ encodes_mov_imm(4)])
      (use img in \<open>simp_all add: mov_args_def\<close>)
  finally have args: "user_run (Suc (Suc (Suc (Suc (Suc f))))) fetch U c = user_run (Suc f) fetch U ?s4" .
  obtain m where call: "exec_user U SyscallInstr (?at 37 ?s4) = Ret (Running ((?at 37 ?s4)\<lparr>cp_regs := (cp_regs ?s4)\<lparr>rg_rax := v, rg_r10 := s,
        rg_rcx := cp_rip (?at 37 ?s4), rg_r11 := cp_rflags ?s4\<rparr>, cp_mem := m\<rparr>))"
    "fast_ready (ue_fast U) ks ((?at 37 ?s4)\<lparr>cp_mem := m\<rparr>)"
    using exec_user_syscall[of U ks "?at 37 ?s4" r v s] ready r by auto
  let ?c = "(?at 37 ?s4)\<lparr>cp_regs := (cp_regs ?s4)\<lparr>rg_rax := v, rg_r10 := s,
        rg_rcx := cp_rip (?at 37 ?s4), rg_r11 := cp_rflags ?s4\<rparr>, cp_mem := m\<rparr>"
  have "user_run (Suc f) fetch U ?s4 = user_run f fetch U ?c"
    by (rule user_run_loaded[of _ "pre @ mov_args n a0 a1 a2" "[0x0F, 0x05]" rest, OF _ encodes_rest(1)])
      (use img call(1) in \<open>simp_all add: mov_args_def\<close>)
  moreover have "fast_ready (ue_fast U) ks ?c"
    using call(2) by (simp add: fast_ready_def)
  ultimately show ?thesis using args by (intro exI[of _ ?c]) simp
qed

lemma user_run_slot0:
  assumes ready: "fast_ready (ue_fast U) ks c"
    and img: "loaded fetch (pre @ slot0_bytes n a0 a1 a2 @ rest)" "16 \<le> length rest"
    and rip: "cp_rip c = USER_CODE_START + of_nat (length pre)"
    and r: "dispatch ks (ucast n) a0 a1 a2 = Ret r" "response_of r = (v, s)"
  shows "\<exists>c'. user_run (7 + f) fetch U c = user_run f fetch U c' \<and> fast_ready (ue_fast U) ks c' \<and>
    cp_rip c' = USER_CODE_START + of_nat (length pre + 43) \<and> rg_r8 (cp_regs c') = v \<and> rg_r9 (cp_regs c') = s"
proof -
  let ?t = "[0x49, 0x89, 0xC0] @ [0x4D, 0x89, 0xD1] @ rest" and ?m = "mov_args n a0 a1 a2"
  obtain c1 where c1: "user_run (7 + f) fetch U c = user_run (Suc (Suc f)) fetch U c1" "fast_ready (ue_fast U) ks c1"
    "cp_rip c1 = USER_CODE_START + of_nat (length pre + 37)" "rg_rax (cp_regs c1) = v" "rg_r10 (cp_regs c1) = s"
    using user_run_call[of U ks c fetch pre n a0 a1 a2 ?t r v s "Suc (Suc f)"] ready img rip r
    by (auto simp: slot0_bytes_def eval_nat_numeral)
  let ?c2 = "c1\<lparr>cp_regs := set_reg R8 v (cp_regs c1), cp_rip := USER_CODE_START + of_nat (length pre + 40)\<rparr>"
  let ?c3 = "?c2\<lparr>cp_regs := set_reg R9 s (cp_regs ?c2), cp_rip := USER_CODE_START + of_nat (length pre + 43)\<rparr>"
  have "user_run (Suc (Suc f)) fetch U c1 = user_run (Suc f) fetch U ?c2"
    by (rule user_run_loaded[of _ "pre @ ?m @ [0x0F, 0x05]" _ "[0x4D, 0x89, 0xD1] @ rest", OF _ encodes_rest(2)])
      (use img c1 in \<open>simp_all add: slot0_bytes_def mov_args_def\<close>)
  also have "\<dots> = user_run f fetch U ?c3"
    by (rule user_run_loaded[of _ "pre @ ?m @ [0x0F, 0x05, 0x49, 0x89, 0xC0]" _ rest, OF _ encodes_rest(3)])
      (use img c1 in \<open>simp_all add: slot0_bytes_def mov_args_def\<close>)
  finally show ?thesis using c1 by (intro exI[of _ ?c3]) simp
qed

lemma user_run_slot1:
  assumes ready: "fast_ready (ue_fast U) ks c"
    and img: "loaded fetch (pre @ slot1_bytes n a0 a1 a2 @ rest)" "16 \<le> length rest"
    and rip: "cp_rip c = USER_CODE_START + of_nat (length pre)"
    and r: "dispatch ks (ucast n) a0 a1 a2 = Ret r" "response_of r = (v, s)"
  shows "\<exists>c'. user_run (7 + f) fetch U c = user_run f fetch U c' \<and> fast_ready (ue_fast U) ks c' \<and>
    cp_rip c' = USER_CODE_START + of_nat (length pre + 43) \<and> rg_r10 (cp_regs c') = v \<and> rg_r12 (cp_regs c') = s \<and>
    rg_r8 (cp_regs c') = rg_r8 (cp_regs c) \<and> rg_r9 (cp_regs c') = rg_r9 (cp_regs c)"
proof -
  let ?t = "[0x4D, 0x89, 0xD4] @ [0x49, 0x89, 0xC2] @ rest" and ?m = "mov_args n a0 a1 a2"
  obtain c1 where c1: "user_run (7 + f) fetch U c = user_run (Suc (Suc f)) fetch U c1" "fast_ready (ue_fast U) ks c1"
    "cp_rip c1 = USER_CODE_START + of_nat (length pre + 37)" "rg_rax (cp_regs c1) = v" "rg_r10 (cp_regs c1) = s"
    "rg_r8 (cp_regs c1) = rg_r8 (cp_regs c)" "rg_r9 (cp_regs c1) = rg_r9 (cp_regs c)"
    using user_run_call[of U ks c fetch pre n a0 a1 a2 ?t r v s "Suc (Suc f)"] ready img rip r
    by (auto simp: slot1_bytes_def eval_nat_numeral)
  let ?c2 = "c1\<lparr>cp_regs := set_reg R12 s (cp_regs c1), cp_rip := USER_CODE_START + of_nat (length pre + 40)\<rparr>"
  let ?c3 = "?c2\<lparr>cp_regs := set_reg R10 v (cp_regs ?c2), cp_rip := USER_CODE_START + of_nat (length pre + 43)\<rparr>"
  have "user_run (Suc (Suc f)) fetch U c1 = user_run (Suc f) fetch U ?c2"
    by (rule user_run_loaded[of _ "pre @ ?m @ [0x0F, 0x05]" _ "[0x49, 0x89, 0xC2] @ rest", OF _ encodes_rest(4)])
      (use img c1 in \<open>simp_all add: slot1_bytes_def mov_args_def\<close>)
  also have "\<dots> = user_run f fetch U ?c3"
    by (rule user_run_loaded[of _ "pre @ ?m @ [0x0F, 0x05, 0x4D, 0x89, 0xD4]" _ rest, OF _ encodes_rest(5)])
      (use img c1 in \<open>simp_all add: slot1_bytes_def mov_args_def\<close>)
  finally show ?thesis using c1 by (intro exI[of _ ?c3]) simp
qed

text \<open>The exit interrupt hands its handler the registers of the interrupted code.\<close>

lemma exit_registers_saved: "exit_registers U c = Ret (cp_regs c)"
proof -
  have "takeWhile (\<lambda>i. i \<noteq> CallDispatch) jingos_usermode_exit_interrupt_entry = map Push (rev struct_regs) @ [MovRdiRsp]"
    by (simp add: jingos_usermode_exit_interrupt_entry_def struct_regs_def)
  then show ?thesis
    by (simp add: exit_registers_def exec_append exec_pushes load_store_struct)
      (simp add: deliver_interrupt_def Let_def)
qed

lemma user_run_exit:
  assumes "loaded fetch (pre @ [0xCD, USERMODE_EXIT_INTERRUPT_VECTOR] @ rest)" "16 \<le> length rest"
    "cp_rip c = USER_CODE_START + of_nat (length pre)"
  shows "user_run (Suc f) fetch U c = Ret (Some (cp_regs c))"
  using user_step_loaded[OF assms(1) encodes_rest(6) _ assms(3), of U] assms(2)
  by (simp add: exit_registers_saved)

text \<open>A whole demo: fifteen instructions from the start of the page to the exit interrupt.\<close>

lemma user_run_demo:
  assumes ready: "fast_ready (ue_fast U) ks c"
    and img: "loaded fetch (slot0_bytes n0 a0 b0 d0 @ slot1_bytes n1 a1 b1 d1 @ [0xCD, USERMODE_EXIT_INTERRUPT_VECTOR] @ rest)"
      "16 \<le> length rest"
    and rip: "cp_rip c = USER_CODE_START"
    and r0: "dispatch ks (ucast n0) a0 b0 d0 = Ret r0" "response_of r0 = (v0, s0)"
    and r1: "dispatch ks (ucast n1) a1 b1 d1 = Ret r1" "response_of r1 = (v1, s1)"
  shows "\<exists>rs. user_run 15 fetch U c = Ret (Some rs) \<and>
    rg_r8 rs = v0 \<and> rg_r9 rs = s0 \<and> rg_r10 rs = v1 \<and> rg_r12 rs = s1"
proof -
  let ?e = "[0xCD, USERMODE_EXIT_INTERRUPT_VECTOR] @ rest"
  obtain c1 where c1: "user_run (7 + 8) fetch U c = user_run 8 fetch U c1" "fast_ready (ue_fast U) ks c1"
    "cp_rip c1 = USER_CODE_START + of_nat 43" "rg_r8 (cp_regs c1) = v0" "rg_r9 (cp_regs c1) = s0"
    using user_run_slot0[of U ks c fetch "[]" n0 a0 b0 d0 "slot1_bytes n1 a1 b1 d1 @ ?e" r0 v0 s0 8] assms by auto
  obtain c2 where c2: "user_run (7 + 1) fetch U c1 = user_run 1 fetch U c2"
    "cp_rip c2 = USER_CODE_START + of_nat 86" "rg_r10 (cp_regs c2) = v1" "rg_r12 (cp_regs c2) = s1"
    "rg_r8 (cp_regs c2) = v0" "rg_r9 (cp_regs c2) = s0"
    using user_run_slot1[of U ks c1 fetch "slot0_bytes n0 a0 b0 d0" n1 a1 b1 d1 ?e r1 v1 s1 1] c1 img r1 by auto
  have "user_run (Suc 0) fetch U c2 = Ret (Some (cp_regs c2))"
    by (rule user_run_exit[of _ "slot0_bytes n0 a0 b0 d0 @ slot1_bytes n1 a1 b1 d1" rest]) (use img c2 in simp_all)
  with c1(1) c2 show ?thesis by auto
qed

section \<open>The demo programs\<close>

lemma build_fast_syscall_codes:
  "\<exists>ub. build_fast_syscall_success_code = Inr ub \<and>
     code_as_slice ub = slot0_bytes (ucast SYSCALL_GET_TICKS) 0 0 0 @ slot1_bytes (ucast SYSCALL_ADD) 40 2 0 @
       [0xCD, USERMODE_EXIT_INTERRUPT_VECTOR] @ [0xEB, 0xFE]"
  "\<exists>ub. build_fast_syscall_error_code = Inr ub \<and>
     code_as_slice ub = slot0_bytes USER_FAST_SYSCALL_UNKNOWN_NUMBER 0 0 0 @ slot1_bytes (ucast SYSCALL_ADD) (- 1) 1 0 @
       [0xCD, USERMODE_EXIT_INTERRUPT_VECTOR] @ [0xEB, 0xFE]"
  unfolding build_fast_syscall_success_code_def build_fast_syscall_error_code_def emit_interrupt_def emit_hang_loop_def
  by (intro appends_from_new[of _ "\<lambda>ub. bind_result (emit_fast_syscall_capture_slot0 _ _ _ _ ub) _"]
      appends_bind appends_slots appends_bytes; simp)+

lemma enter_user_mode_simps:
  "cp_rip (enter_user_mode e t cs ss c) = e" "cp_rsp (enter_user_mode e t cs ss c) = t"
  "cp_cs (enter_user_mode e t cs ss c) = ucast cs" "cp_ss (enter_user_mode e t cs ss c) = ucast ss"
  "cp_regs (enter_user_mode e t cs ss c) = cp_regs c" "cp_rflags (enter_user_mode e t cs ss c) = cp_rflags c"
  "cp_kernel_gs_base (enter_user_mode e t cs ss c) = cp_kernel_gs_base c"
  by (simp_all add: enter_user_mode_def Let_def)

text \<open>The frame for \<open>iretq\<close> is pushed on the monitor's stack, away from the per-CPU record.\<close>

definition frame_clear :: "cpu \<Rightarrow> bool" where
  "frame_clear c \<longleftrightarrow> cp_kernel_gs_base c \<notin> {cp_rsp c - 8, cp_rsp c - 16, cp_rsp c - 24, cp_rsp c - 32, cp_rsp c - 40}"

lemma fast_ready_enter: "fast_ready C ks c \<Longrightarrow> frame_clear c \<Longrightarrow> fast_ready C ks (enter_user_mode e t cs ss c)"
  by (simp add: fast_ready_def frame_clear_def enter_user_mode_simps) (simp add: enter_user_mode_def Let_def)

text \<open>
  A session of user mode: what the monitor starts, the user code until its exit interrupt, and the
  handler of that interrupt.
\<close>

definition session ::
  "'m mapper_api \<Rightarrow> user_env \<Rightarrow> nat \<Rightarrow> (cpu \<times> 'm machine, string) result run \<times> UsermodeState \<Rightarrow>
   (exit_outcome \<times> UsermodeState) option" where
  "session M U fuel start =
     (case start of
        (Ret (Inr (c, mm)), um) \<Rightarrow>
          (case user_run fuel (fetch_bytes M mm) U c of
             Ret (Some rs) \<Rightarrow> Some (handle_exit_interrupt_from_registers rs um)
           | _ \<Rightarrow> None)
      | _ \<Rightarrow> None)"

definition user_memory_ready :: "'m mapper_api \<Rightarrow> 'm machine \<Rightarrow> UsermodeState \<Rightarrow> u64 \<Rightarrow> bool" where
  "user_memory_ready M mm um p \<longleftrightarrow>
     um_context um = Some \<lparr>uc_entry = USER_CODE_START, uc_stack_top = USER_STACK_TOP\<rparr> \<and>
     mapped_to M (mm_mapper mm) USER_CODE_START p 4096"

lemma run_demo_code_starts:
  assumes "user_memory_ready M mm um p" "length code \<le> 4096"
  shows "\<exists>c' mm'. run_demo_code M sel code kind um mm c =
      (Ret (Inr (c', mm')), um\<lparr>um_pending_kind := kind, um_last_report := None, um_exit_expected := True\<rparr>) \<and>
    loaded (fetch_bytes M mm') (code_page code) \<and>
    c' = enter_user_mode USER_CODE_START USER_STACK_TOP (sl_user_code_selector sel) (sl_user_data_selector sel) c"
proof -
  from assms(1) have m: "mapped_to M (mm_mapper mm) USER_CODE_START p 4096" by (simp add: user_memory_ready_def)
  then have "mapped_to M (mm_mapper mm) USER_CODE_START p (length (code_page code))" using assms(2) by simp
  from loaded_fetch_bytes[OF this, of "mm_bytes mm"] write_demo_code_mapped[OF m assms(2)] assms
  show ?thesis
    by (simp add: run_demo_code_def user_memory_ready_def Let_def)
qed

lemma fast_demo_session:
  assumes "user_memory_ready M mm um p" "fast_ready (ue_fast U) ks c" "frame_clear c"
    and code: "code = slot0_bytes n0 a0 b0 d0 @ slot1_bytes n1 a1 b1 d1 @ [0xCD, USERMODE_EXIT_INTERRUPT_VECTOR] @ [0xEB, 0xFE]"
    and r0: "dispatch ks (ucast n0) a0 b0 d0 = Ret r0" "response_of r0 = (v0, s0)"
    and r1: "dispatch ks (ucast n1) a1 b1 d1 = Ret r1" "response_of r1 = (v1, s1)"
  shows "session M U 15 (run_demo_code M sel code (Some kind) um mm c) =
    Some (ResumesMonitor, um\<lparr>um_pending_kind := None, um_exit_expected := False,
      um_last_report := Some \<lparr>dr_kind = kind, dr_call0_value = v0, dr_call0_status = s0,
        dr_call1_value = v1, dr_call1_status = s1\<rparr>\<rparr>)"
proof -
  let ?c = "enter_user_mode USER_CODE_START USER_STACK_TOP (sl_user_code_selector sel) (sl_user_data_selector sel) c"
  have len: "length code = 90" by (simp add: code)
  then obtain mm' where start: "run_demo_code M sel code (Some kind) um mm c =
      (Ret (Inr (?c, mm')), um\<lparr>um_pending_kind := Some kind, um_last_report := None, um_exit_expected := True\<rparr>)"
    and img: "loaded (fetch_bytes M mm') (code_page code)"
    using run_demo_code_starts[OF assms(1), of code sel "Some kind" c] by auto
  have "code_page code = slot0_bytes n0 a0 b0 d0 @ slot1_bytes n1 a1 b1 d1 @ [0xCD, USERMODE_EXIT_INTERRUPT_VECTOR] @
      ([0xEB, 0xFE] @ replicate 4006 0x90)"
    by (simp add: code_page_def len) (simp add: code)
  note img = img[unfolded this]
  have "16 \<le> length ([0xEB, 0xFE] @ replicate 4006 (0x90 :: u8))" by simp
  from user_run_demo[OF fast_ready_enter[OF assms(2,3)] img this enter_user_mode_simps(1) r0 r1]
  obtain rs where "user_run 15 (fetch_bytes M mm') U ?c = Ret (Some rs)"
    "rg_r8 rs = v0" "rg_r9 rs = s0" "rg_r10 rs = v1" "rg_r12 rs = s1" by blast
  then show ?thesis
    unfolding session_def start by (simp add: handle_exit_interrupt_from_registers_def)
qed

section \<open>Preparing user memory\<close>

definition user_pages :: "u64 list" where
  "user_pages = [USER_CODE_START, USER_STACK_START, USER_STACK_START + 0x1000]"

lemma user_pages_facts:
  "canonical_addr USER_CODE_START" "canonical_addr USER_STACK_START" "canonical_addr (USER_STACK_START + 0x1000)"
  "page_of USER_CODE_START = USER_CODE_START" "page_of USER_STACK_START = USER_STACK_START"
  "page_of (USER_STACK_START + 0x1000) = USER_STACK_START + 0x1000"
  "USER_CODE_START \<noteq> USER_STACK_START" "USER_CODE_START \<noteq> USER_STACK_START + 0x1000"
  by (simp_all add: canonical_addr_def page_of_def USER_CODE_START_def USER_STACK_START_def)

context paging
begin

lemma init_memory_ok:
  assumes run: "init_memory X M mm fa um = Ret (Inr (), mm', fa', um')" and ready: "allocator_ready fa"
  shows "\<exists>p s0 s1. distinct [p, s0, s1] \<and> {p, s0, s1} \<subseteq> set (frame_pool fa) \<and>
    user_memory_ready M mm' um' p \<and> mapped_to M (mm_mapper mm') USER_STACK_START s0 4096 \<and>
    mapped_to M (mm_mapper mm') (USER_STACK_START + 0x1000) s1 4096 \<and>
    mm_bytes mm' = store_bytes p (code_page USER_INT_DEMO_CODE) (mm_bytes mm) \<and>
    (\<forall>a. page_of a \<notin> set user_pages \<longrightarrow> mp_translate_addr M (mm_mapper mm') a = mp_translate_addr M (mm_mapper mm) a)"
proof -
  let ?f = "flag_PRESENT X OR flag_WRITABLE X OR flag_USER_ACCESSIBLE X"
  obtain mm1 fa1 mm2 fa2 mm3 fa3 where m1: "map_page_with_flags X M mm fa USER_CODE_START ?f = Ret (Inr (), mm1, fa1)"
    and m2: "map_page_with_flags X M mm1 fa1 USER_STACK_START ?f = Ret (Inr (), mm2, fa2)"
    and m3: "map_page_with_flags X M mm2 fa2 (USER_STACK_START + 0x1000) ?f = Ret (Inr (), mm3, fa3)"
    and w: "write_demo_code M USER_INT_DEMO_CODE mm3 = Ret mm'"
    and um: "um' = um\<lparr>um_context := Some \<lparr>uc_entry = USER_CODE_START, uc_stack_top = USER_STACK_TOP\<rparr>\<rparr>"
    using run by (auto simp: init_memory_def Let_def bind_run_Ret_iff split: sum.split_asm)
      (metis sum.exhaust old.unit.exhaust)+
  have d: "distinct (frame_pool fa)"
    using ready by (simp add: allocator_ready_def frame_pool_def distinct_frame_addresses)
  obtain p r0 k0 where o1: "frame_pool fa = p # r0" "frame_pool fa1 = drop k0 r0" "allocator_ready fa1"
    "mapped_to M (mm_mapper mm1) USER_CODE_START p 4096" "mm_bytes mm1 = mm_bytes mm"
    "\<forall>a. page_of a \<noteq> USER_CODE_START \<longrightarrow> mp_translate_addr M (mm_mapper mm1) a = mp_translate_addr M (mm_mapper mm) a"
    using map_page_ok[OF m1 ready] by (auto simp: user_pages_facts)
  obtain s0 r1 k1 where o2: "frame_pool fa1 = s0 # r1" "frame_pool fa2 = drop k1 r1" "allocator_ready fa2"
    "mapped_to M (mm_mapper mm2) USER_STACK_START s0 4096" "mm_bytes mm2 = mm_bytes mm1"
    "\<forall>a. page_of a \<noteq> USER_STACK_START \<longrightarrow> mp_translate_addr M (mm_mapper mm2) a = mp_translate_addr M (mm_mapper mm1) a"
    using map_page_ok[OF m2 o1(3)] by (auto simp: user_pages_facts)
  obtain s1 r2 where o3: "frame_pool fa2 = s1 # r2"
    "mapped_to M (mm_mapper mm3) (USER_STACK_START + 0x1000) s1 4096" "mm_bytes mm3 = mm_bytes mm2"
    "\<forall>a. page_of a \<noteq> USER_STACK_START + 0x1000 \<longrightarrow> mp_translate_addr M (mm_mapper mm3) a = mp_translate_addr M (mm_mapper mm2) a"
    using map_page_ok[OF m3 o2(3)] by (auto simp: user_pages_facts)
  have sub: "set (frame_pool fa1) \<subseteq> set r0" "set (frame_pool fa2) \<subseteq> set r1"
    using o1(2) o2(2) by (simp_all add: set_drop_subset)
  have "distinct (frame_pool fa1)" using d o1(1,2) by simp
  then have frames: "distinct [p, s0, s1]" "{p, s0, s1} \<subseteq> set (frame_pool fa)"
    using sub d unfolding o1(1) o2(1) o3(1) by auto
  have code: "mapped_to M (mm_mapper mm3) USER_CODE_START p 4096"
  proof (rule mapped_to_keep[OF o1(4) user_pages_facts(4)])
    show "mp_translate_addr M (mm_mapper mm3) a = mp_translate_addr M (mm_mapper mm1) a"
      if "page_of a \<notin> set [USER_STACK_START, USER_STACK_START + 0x1000]" for a
      using that o2(6) o3(4) by simp
  qed (simp add: user_pages_facts)
  have stack: "mapped_to M (mm_mapper mm3) USER_STACK_START s0 4096"
  proof (rule mapped_to_keep[OF o2(4) user_pages_facts(5)])
    show "mp_translate_addr M (mm_mapper mm3) a = mp_translate_addr M (mm_mapper mm2) a"
      if "page_of a \<notin> set [USER_STACK_START + 0x1000]" for a
      using that o3(4) by simp
  qed simp
  have "mm' = mm3\<lparr>mm_bytes := store_bytes p (code_page USER_INT_DEMO_CODE) (mm_bytes mm)\<rparr>"
    using w write_demo_code_mapped[OF code, of USER_INT_DEMO_CODE] o1(5) o2(5) o3(3) by (simp add: USER_INT_DEMO_CODE_def)
  then show ?thesis
    using frames code stack o1(6) o2(6) o3(2,4) um
    by (intro exI[of _ p] exI[of _ s0] exI[of _ s1]) (simp add: user_memory_ready_def user_pages_def)
qed

end

lemma init_memory_error: "init_memory X M mm fa um = Ret (Inl e, mm', fa', um') \<Longrightarrow> um' = um"
  by (auto simp: init_memory_def Let_def bind_run_Ret_iff split: sum.split_asm) (metis sum.exhaust old.unit.exhaust)+

text \<open>The plain demo: \<open>int 0x80\<close> for the ticks, then the exit interrupt.\<close>

lemma int_demo_session:
  assumes "user_memory_ready M mm um p"
    and "ce_handler (ue_gates U SyscallInterruptEntry) = handle_interrupt_from_registers ks"
    and "ce_depth (ue_gates U SyscallInterruptEntry) < 2 ^ 63"
  shows "session M U 3 (run_demo M sel um mm c) =
    Some (ResumesMonitor, um\<lparr>um_pending_kind := None, um_exit_expected := False, um_last_report := None\<rparr>)"
proof -
  let ?c = "enter_user_mode USER_CODE_START USER_STACK_TOP (sl_user_code_selector sel) (sl_user_data_selector sel) c"
  have len: "length USER_INT_DEMO_CODE = 11" by (simp add: USER_INT_DEMO_CODE_def)
  obtain mm' where start: "run_demo M sel um mm c =
      (Ret (Inr (?c, mm')), um\<lparr>um_pending_kind := None, um_last_report := None, um_exit_expected := True\<rparr>)"
    and img: "loaded (fetch_bytes M mm') (code_page USER_INT_DEMO_CODE)"
    using run_demo_code_starts[OF assms(1), of USER_INT_DEMO_CODE sel None c] len unfolding run_demo_def by auto
  let ?b = "0xB8 # to_le_bytes 4 (0 :: u32)"
  have "code_page USER_INT_DEMO_CODE = ?b @ [0xCD, SYSCALL_INTERRUPT_VECTOR] @ [0xCD, USERMODE_EXIT_INTERRUPT_VECTOR] @
      ([0xEB, 0xFE] @ replicate 4085 0x90)"
    by (simp add: code_page_def len)
      (simp add: USER_INT_DEMO_CODE_def SYSCALL_INTERRUPT_VECTOR_def USERMODE_EXIT_INTERRUPT_VECTOR_def eval_nat_numeral)
  note img = img[unfolded this]
  let ?s1 = "?c\<lparr>cp_regs := set_reg RAX 0 (cp_regs ?c), cp_rip := USER_CODE_START + of_nat 5\<rparr>"
  have s1: "user_run 3 (fetch_bytes M mm') U ?c = user_run 2 (fetch_bytes M mm') U ?s1"
    using user_run_loaded[of "fetch_bytes M mm'" "[]" ?b _ "MovImm RAX 0" ?c U ?s1 2] img encodes_mov_imm(1)[of 0]
    by (simp add: enter_user_mode_simps eval_nat_numeral)
  let ?at = "?s1\<lparr>cp_rip := USER_CODE_START + of_nat 7\<rparr>"
  obtain v s m where int: "software_interrupt (ue_gates U) (ue_tss_rsp0 U) (ue_entry U) SYSCALL_INTERRUPT_VECTOR ?at =
      Ret (?at\<lparr>cp_regs := (cp_regs ?at)\<lparr>rg_rax := v, rg_rcx := s\<rparr>, cp_mem := m\<rparr>)"
    using int_0x80_result[where CF = "ue_gates U", OF assms(2,3), of ?at "Inr (is_ticks (ks_interrupts ks))" "ue_tss_rsp0 U" "ue_entry U"]
    by (auto simp: dispatch_def syscall_numbers)
  let ?s2 = "?at\<lparr>cp_regs := (cp_regs ?at)\<lparr>rg_rax := v, rg_rcx := s\<rparr>, cp_mem := m\<rparr>"
  have "user_run 2 (fetch_bytes M mm') U ?s1 = user_run 1 (fetch_bytes M mm') U ?s2"
    using user_run_loaded[of "fetch_bytes M mm'" ?b "[0xCD, SYSCALL_INTERRUPT_VECTOR]" _ "IntInstr SYSCALL_INTERRUPT_VECTOR" ?s1 U ?s2 1]
      img encodes_rest(6) int
    by (simp add: eval_nat_numeral USERMODE_EXIT_INTERRUPT_VECTOR_def SYSCALL_INTERRUPT_VECTOR_def)
  moreover have "user_run (Suc 0) (fetch_bytes M mm') U ?s2 = Ret (Some (cp_regs ?s2))"
    using user_run_exit[of "fetch_bytes M mm'" "?b @ [0xCD, SYSCALL_INTERRUPT_VECTOR]" "[0xEB, 0xFE] @ replicate 4085 0x90" ?s2 0 U]
      img by simp
  ultimately show ?thesis
    unfolding session_def start using s1 by (simp add: handle_exit_interrupt_from_registers_def)
qed

text \<open>A machine on which user memory can be prepared, with the callee and the CPU of the stubs' examples.\<close>

lemma page_map_accepts:
  assumes "allocator_ready fa" "frame_pool fa = frame # rest" "canonical_addr va" "mm_mapper mm (page_of va) = None"
  shows "map_page_with_flags x86_64_functions page_map_functions mm fa va flags =
    Ret (Inr (), mm\<lparr>mm_mapper := (mm_mapper mm)(page_of va \<mapsto> frame)\<rparr>, fa\<lparr>fa_next := fa_next fa + 1\<rparr>)"
  using assms(2-4)
  by (simp add: map_page_with_flags_def x86_64.va_new x86_64.page_containing_address page_of_def
      x86_64.allocate_frame_pool[OF assms(1)] pool_head_def page_map_functions_def)

lemma demo_init_memory:
  "\<exists>mm fa um. init_memory x86_64_functions page_map_functions demo_machine (allocator_init demo_regions) usermode_statics =
     Ret (Inr (), mm, fa, um)"
proof -
  let ?fa = "\<lambda>n. (allocator_init demo_regions)\<lparr>fa_next := n\<rparr>"
  let ?m1 = "[USER_CODE_START \<mapsto> (0x100000 :: u64)]"
  let ?m2 = "?m1(USER_STACK_START \<mapsto> 0x101000)"
  let ?m3 = "?m2(USER_STACK_START + 0x1000 \<mapsto> 0x103000)"
  have ready: "allocator_ready (?fa n)" for n by (simp add: demo_allocator_facts)
  have pool: "frame_pool (?fa 0) = 0x100000 # [0x101000, 0x103000]" "frame_pool (?fa 1) = 0x101000 # [0x103000]"
    "frame_pool (?fa 2) = 0x103000 # []"
    using demo_allocator_facts(2) by (simp_all add: frame_pool_def allocator_init_def)
  let ?fl = "flag_PRESENT x86_64_functions OR flag_WRITABLE x86_64_functions OR flag_USER_ACCESSIBLE x86_64_functions"
  have init: "allocator_init demo_regions = ?fa 0" by (simp add: allocator_init_def)
  have "map_page_with_flags x86_64_functions page_map_functions demo_machine (?fa 0) USER_CODE_START ?fl =
      Ret (Inr (), demo_machine\<lparr>mm_mapper := ?m1\<rparr>, ?fa 1)"
    by (subst page_map_accepts[OF ready pool(1)])
      (simp_all add: user_pages_facts demo_machine_def)
  note m1 = this[folded init]
  have m2: "map_page_with_flags x86_64_functions page_map_functions (demo_machine\<lparr>mm_mapper := ?m1\<rparr>) (?fa 1) USER_STACK_START ?fl =
      Ret (Inr (), demo_machine\<lparr>mm_mapper := ?m2\<rparr>, ?fa 2)"
    by (subst page_map_accepts[OF ready pool(2)])
      (simp_all add: user_pages_facts user_pages_facts(7,8)[symmetric])
  have m3: "map_page_with_flags x86_64_functions page_map_functions (demo_machine\<lparr>mm_mapper := ?m2\<rparr>) (?fa 2) (USER_STACK_START + 0x1000) ?fl =
      Ret (Inr (), demo_machine\<lparr>mm_mapper := ?m3\<rparr>, ?fa 3)"
    by (subst page_map_accepts[OF ready pool(3)])
      (simp_all add: user_pages_facts user_pages_facts(7,8)[symmetric])
  have "mapped_to page_map_functions ?m3 USER_CODE_START 0x100000 4096"
    unfolding mapped_to_def
  proof (intro allI impI)
    fix i :: nat
    assume "i < 4096"
    then have "(of_nat i :: u64) < 4096" by (simp add: word_less_nat_alt unat_of_nat take_bit_nat_eq_self)
    from page_of_offset[OF user_pages_facts(4) this]
    show "mp_translate_addr page_map_functions ?m3 (USER_CODE_START + of_nat i) = Some (0x100000 + of_nat i)"
      by (simp add: page_map_functions_def user_pages_facts)
  qed
  from write_demo_code_mapped[of page_map_functions "demo_machine\<lparr>mm_mapper := ?m3\<rparr>" "0x100000" USER_INT_DEMO_CODE] this
  show ?thesis
    unfolding init_memory_def Let_def m1 bind_run.simps prod.case sum.case m2 m3
    by (simp add: USER_INT_DEMO_CODE_def)
qed

definition demo_user_env :: user_env where
  "demo_user_env = \<lparr>ue_gates = (\<lambda>_. demo_callee), ue_fast = demo_callee, ue_tss_rsp0 = 0x500000,
     ue_entry = 0x200100, ue_lstar = 0x200000, ue_sfmask = 0x700\<rparr>"

definition demo_selectors :: Selectors where
  "demo_selectors = \<lparr>sl_kernel_code_selector = 8, sl_kernel_data_selector = 16, sl_user_code_selector = 35,
     sl_user_data_selector = 27, sl_tss_selector = 40\<rparr>"

lemma demo_user_facts:
  "fast_ready (ue_fast demo_user_env) demo_services demo_cpu" "frame_clear demo_cpu"
  "ce_handler (ue_gates demo_user_env SyscallInterruptEntry) = handle_interrupt_from_registers demo_services"
  "ce_depth (ue_gates demo_user_env SyscallInterruptEntry) < 2 ^ 63"
  by (simp_all add: fast_ready_def frame_clear_def demo_user_env_def demo_callee_def demo_cpu_def stack_clear_def demo_services_pit)

text \<open>A sequence of exit interrupts, each with its registers.\<close>

fun exit_interrupts :: "SyscallRegisters list \<Rightarrow> UsermodeState \<Rightarrow> exit_outcome list \<times> UsermodeState" where
  "exit_interrupts [] um = ([], um)"
| "exit_interrupts (rs # rss) um =
     (let (out, um) = handle_exit_interrupt_from_registers rs um; (outs, um) = exit_interrupts rss um
      in (out # outs, um))"

lemma exit_interrupts_idle:
  "\<not> um_exit_expected um \<Longrightarrow> exit_interrupts rss um =
   (replicate (length rss) ReturnsToCaller,
    um\<lparr>um_serial := um_serial um @ replicate (length rss) ''ignored unexpected int 0x81 (no usermode session)''\<rparr>)"
  by (induction rss arbitrary: um) (simp_all add: handle_exit_interrupt_from_registers_def)

section \<open>Properties\<close>

text \<open>
  C32. The ring 3 demos, end to end: after user memory is prepared, each of the three demos writes its
  code into the page, enters ring 3, and the CPU that decodes the bytes of that page reaches the exit
  interrupt and resumes the monitor (in 3 and in 15 instructions). Both fast system call demos leave a report that passes its
  own check: the two calls returned through the fast entry with the values and statuses the report
  expects, the error statuses included.
\<close>

theorem user_mode_demos_pass:
  assumes "x86_64_documented X" "mapper_documented M" "allocator_ready fa"
    and "init_memory X M mm fa um = Ret (Inr (), mm', fa', um')"
    and "fast_ready (ue_fast U) ks c" "frame_clear c"
    and "ce_handler (ue_gates U SyscallInterruptEntry) = handle_interrupt_from_registers ks"
    and "ce_depth (ue_gates U SyscallInterruptEntry) < 2 ^ 63"
  shows "session M U 3 (run_demo M sel um' mm' c) =
      Some (ResumesMonitor, um'\<lparr>um_pending_kind := None, um_exit_expected := False, um_last_report := None\<rparr>) \<and>
    (\<exists>um1 report. session M U 15 (run_fast_syscall_demo M sel um' mm' c) = Some (ResumesMonitor, um1) \<and>
      fst (take_last_fast_syscall_report um1) = Some report \<and> dr_kind report = SuccessPath \<and> passed report) \<and>
    (\<exists>um1 report. session M U 15 (run_fast_syscall_error_demo M sel um' mm' c) = Some (ResumesMonitor, um1) \<and>
      fst (take_last_fast_syscall_report um1) = Some report \<and> dr_kind report = ErrorPath \<and> passed report)"
proof -
  have "paging X M" using assms(1,2) by (simp add: paging_def)
  from paging.init_memory_ok[OF this assms(4,3)]
  obtain p where p: "user_memory_ready M mm' um' p" by blast
  let ?ticks = "is_ticks (ks_interrupts ks)"
  note calls = dispatch_def syscall_numbers checked_add_def USER_FAST_SYSCALL_UNKNOWN_NUMBER_def
  obtain code1 where code1: "build_fast_syscall_success_code = Inr code1"
    "code_as_slice code1 = slot0_bytes (ucast SYSCALL_GET_TICKS) 0 0 0 @ slot1_bytes (ucast SYSCALL_ADD) 40 2 0 @
       [0xCD, USERMODE_EXIT_INTERRUPT_VECTOR] @ [0xEB, 0xFE]"
    using build_fast_syscall_codes(1) by blast
  have "dispatch ks (ucast (ucast SYSCALL_GET_TICKS :: u32)) 0 0 0 = Ret (Inr ?ticks)"
    "dispatch ks (ucast (ucast SYSCALL_ADD :: u32)) 40 2 0 = Ret (Inr 42)"
    by (simp_all add: calls)
  from fast_demo_session[OF p assms(5,6) code1(2) this(1) _ this(2), unfolded response_of_def sum.case, OF refl refl]
  have ok: "session M U 15 (run_fast_syscall_demo M sel um' mm' c) = Some (ResumesMonitor,
      um'\<lparr>um_pending_kind := None, um_exit_expected := False, um_last_report := Some \<lparr>dr_kind = SuccessPath,
        dr_call0_value = ?ticks, dr_call0_status = SYSCALL_STATUS_OK, dr_call1_value = 42, dr_call1_status = SYSCALL_STATUS_OK\<rparr>\<rparr>)"
    by (simp add: run_fast_syscall_demo_def code1(1))
  obtain code2 where code2: "build_fast_syscall_error_code = Inr code2"
    "code_as_slice code2 = slot0_bytes USER_FAST_SYSCALL_UNKNOWN_NUMBER 0 0 0 @ slot1_bytes (ucast SYSCALL_ADD) (- 1) 1 0 @
       [0xCD, USERMODE_EXIT_INTERRUPT_VECTOR] @ [0xEB, 0xFE]"
    using build_fast_syscall_codes(2) by blast
  have "dispatch ks (ucast USER_FAST_SYSCALL_UNKNOWN_NUMBER) 0 0 0 =
      Ret (Inl (UnknownNumber (ucast USER_FAST_SYSCALL_UNKNOWN_NUMBER)))"
    "dispatch ks (ucast (ucast SYSCALL_ADD :: u32)) (- 1) 1 0 = Ret (Inl Overflow)"
    by (simp_all add: calls unat_max_word)
  from fast_demo_session[OF p assms(5,6) code2(2) this(1) _ this(2), unfolded response_of_def sum.case encode_error_def SyscallError.case,
      OF refl refl]
  have err: "session M U 15 (run_fast_syscall_error_demo M sel um' mm' c) = Some (ResumesMonitor,
      um'\<lparr>um_pending_kind := None, um_exit_expected := False, um_last_report := Some \<lparr>dr_kind = ErrorPath,
        dr_call0_value = ucast USER_FAST_SYSCALL_UNKNOWN_NUMBER, dr_call0_status = SYSCALL_STATUS_UNKNOWN_NUMBER,
        dr_call1_value = 0, dr_call1_status = SYSCALL_STATUS_OVERFLOW\<rparr>\<rparr>)"
    by (simp add: run_fast_syscall_error_demo_def code2(1))
  show ?thesis
    unfolding int_demo_session[OF p assms(7,8)] ok err
    by (simp add: take_last_fast_syscall_report_def passed_def)
qed

theorem user_mode_demos_pass_witness:
  "\<exists>mm um um1 report.
     session page_map_functions demo_user_env 15
       (run_fast_syscall_demo page_map_functions demo_selectors um mm demo_cpu) = Some (ResumesMonitor, um1) \<and>
     fst (take_last_fast_syscall_report um1) = Some report \<and> passed report"
proof -
  obtain mm fa um where "init_memory x86_64_functions page_map_functions demo_machine (allocator_init demo_regions)
      usermode_statics = Ret (Inr (), mm, fa, um)"
    using demo_init_memory by blast
  from user_mode_demos_pass[OF x86_64.x86_64_documented_axioms page_map.mapper_documented_axioms
      demo_allocator_facts(1) this demo_user_facts, of demo_selectors]
  show ?thesis by blast
qed

text \<open>
  C33. Preparing user memory: without an error the code page and the two stack pages are mapped to three
  different frames of the pool, the code page holds the plain demo and \<open>nop\<close> up to its end, no other
  byte of memory and no other translation has changed, and user mode can be entered; on an error user
  mode stays disabled, and a demo is refused.
\<close>

theorem init_memory_correct:
  assumes "x86_64_documented X" "mapper_documented M" "allocator_ready fa"
    and "init_memory X M mm fa usermode_statics = Ret (r, mm', fa', um')"
  shows "case r of
      Inr _ \<Rightarrow> um_context um' = Some \<lparr>uc_entry = USER_CODE_START, uc_stack_top = USER_STACK_TOP\<rparr> \<and>
        (\<exists>p s0 s1. distinct [p, s0, s1] \<and> {p, s0, s1} \<subseteq> set (frame_pool fa) \<and>
          mapped_to M (mm_mapper mm') USER_CODE_START p 4096 \<and>
          mapped_to M (mm_mapper mm') USER_STACK_START s0 4096 \<and>
          mapped_to M (mm_mapper mm') (USER_STACK_START + 0x1000) s1 4096 \<and>
          mm_bytes mm' = store_bytes p (code_page USER_INT_DEMO_CODE) (mm_bytes mm)) \<and>
        (\<forall>a. page_of a \<notin> set user_pages \<longrightarrow> mp_translate_addr M (mm_mapper mm') a = mp_translate_addr M (mm_mapper mm) a)
    | Inl e \<Rightarrow> um' = usermode_statics \<and>
        run_demo M sel um' mm' c = (Ret (Inl ''user mode memory not initialized''), um')"
proof (cases r)
  case (Inl e)
  with init_memory_error assms(4) have "um' = usermode_statics" by blast
  with Inl show ?thesis by (simp add: run_demo_def run_demo_code_def usermode_statics_def)
next
  case (Inr u)
  have "paging X M" using assms(1,2) by (simp add: paging_def)
  from paging.init_memory_ok[OF this _ assms(3)] assms(4) Inr
  obtain p s0 s1 where "distinct [p, s0, s1]" "{p, s0, s1} \<subseteq> set (frame_pool fa)" "user_memory_ready M mm' um' p"
    "mapped_to M (mm_mapper mm') USER_STACK_START s0 4096" "mapped_to M (mm_mapper mm') (USER_STACK_START + 0x1000) s1 4096"
    "mm_bytes mm' = store_bytes p (code_page USER_INT_DEMO_CODE) (mm_bytes mm)"
    "\<forall>a. page_of a \<notin> set user_pages \<longrightarrow> mp_translate_addr M (mm_mapper mm') a = mp_translate_addr M (mm_mapper mm) a"
    by (metis (full_types) old.unit.exhaust)
  with Inr show ?thesis unfolding user_memory_ready_def by (simp del: distinct.simps insert_subset) blast
qed

theorem init_memory_correct_witness:
  "\<exists>mm fa um. init_memory x86_64_functions page_map_functions demo_machine (allocator_init demo_regions) usermode_statics =
      Ret (Inr (), mm, fa, um) \<and> um_context um \<noteq> None"
proof -
  obtain mm fa um where r: "init_memory x86_64_functions page_map_functions demo_machine (allocator_init demo_regions)
      usermode_statics = Ret (Inr (), mm, fa, um)"
    using demo_init_memory by blast
  from init_memory_correct[OF x86_64.x86_64_documented_axioms page_map.mapper_documented_axioms demo_allocator_facts(1) r]
  have "um_context um \<noteq> None" unfolding sum.case by simp
  with r show ?thesis by blast
qed

text \<open>
  C34. The exit interrupt is honoured once per session. Without a session, user code or the kernel may
  raise it any number of times: each is logged and returns to its caller, and no other part of the state
  changes. In a session the first one resumes the monitor and records the captured registers as the
  report of the demo that is pending, and all later ones are ignored, so they cannot alter that report.
\<close>

theorem exit_interrupt_once:
  "(\<not> um_exit_expected um \<longrightarrow> exit_interrupts rss um =
     (replicate (length rss) ReturnsToCaller,
      um\<lparr>um_serial := um_serial um @ replicate (length rss) ''ignored unexpected int 0x81 (no usermode session)''\<rparr>)) \<and>
   (um_exit_expected um \<longrightarrow> (\<exists>um'. exit_interrupts (rs # rss) um =
        (ResumesMonitor # replicate (length rss) ReturnsToCaller, um') \<and>
      \<not> um_exit_expected um' \<and> um_pending_kind um' = None \<and> um_context um' = um_context um \<and>
      um_last_report um' = map_option (\<lambda>kind. \<lparr>dr_kind = kind, dr_call0_value = rg_r8 rs, dr_call0_status = rg_r9 rs,
        dr_call1_value = rg_r10 rs, dr_call1_status = rg_r12 rs\<rparr>) (um_pending_kind um)))"
  by (cases "um_pending_kind um")
    (simp_all add: handle_exit_interrupt_from_registers_def exit_interrupts_idle)

theorem exit_interrupt_once_witness:
  "\<exists>um'. exit_interrupts [zero_registers, zero_registers] (usermode_statics\<lparr>um_exit_expected := True\<rparr>) =
     ([ResumesMonitor, ReturnsToCaller], um') \<and> \<not> um_exit_expected um'"
  using exit_interrupt_once[of "usermode_statics\<lparr>um_exit_expected := True\<rparr>" "[zero_registers]" zero_registers]
  by auto

end
