(* ===== verification/User_Program.thy ===== *)
theory User_Program
  imports Entry_Stubs
begin

text \<open>
  \<open>kernel/src/user_program.rs\<close>: the kernel-mode demo client that makes one system call of each kind
  through \<open>int 0x80\<close> and reports the five values.
\<close>

record UserDemoReport =
  ud_ticks :: u64
  ud_uptime_seconds :: u64
  ud_sum :: u64
  ud_usable_bytes :: u64
  ud_usable_frames :: u64

type_synonym call = "cpu \<Rightarrow> ((u64, SyscallError) result \<times> cpu) run"

text \<open>A call followed by the operator \<open>?\<close>: an error ends the program.\<close>

definition call_then ::
  "call \<Rightarrow> (u64 \<Rightarrow> cpu \<Rightarrow> (('a, SyscallError) result \<times> cpu) run) \<Rightarrow> cpu \<Rightarrow> (('a, SyscallError) result \<times> cpu) run" where
  "call_then call f c = bind_run (call c) (\<lambda>(r, c). case r of Inl e \<Rightarrow> Ret (Inl e, c) | Inr v \<Rightarrow> f v c)"

definition run_user_demo ::
  "(handler \<Rightarrow> callee) \<Rightarrow> u64 \<Rightarrow> u64 \<Rightarrow> cpu \<Rightarrow> ((UserDemoReport, SyscallError) result \<times> cpu) run" where
  "run_user_demo CF tss_rsp0 entry =
     (let invoke = invoke_via_interrupt CF tss_rsp0 entry
      in call_then (invoke SYSCALL_GET_TICKS 0 0 0) (\<lambda>ticks_value.
         call_then (invoke SYSCALL_GET_UPTIME_SECONDS 0 0 0) (\<lambda>uptime_seconds.
         call_then (invoke SYSCALL_ADD 40 2 0) (\<lambda>sum.
         call_then (invoke SYSCALL_GET_USABLE_MEMORY 0 0 0) (\<lambda>usable_bytes.
         call_then (invoke SYSCALL_GET_USABLE_FRAMES 0 0 0) (\<lambda>usable_frames c.
           Ret (Inr \<lparr>ud_ticks = ticks_value, ud_uptime_seconds = uptime_seconds, ud_sum = sum,
             ud_usable_bytes = usable_bytes, ud_usable_frames = usable_frames\<rparr>, c)))))))"

text \<open>
  A system call interface: every call on a state of the kernel gives the dispatcher's result and a CPU
  that stands where the caller was.
\<close>

locale call_gate =
  fixes invoke :: "u64 \<Rightarrow> u64 \<Rightarrow> u64 \<Rightarrow> u64 \<Rightarrow> call" and serve :: "u64 \<Rightarrow> u64 \<Rightarrow> u64 \<Rightarrow> u64 \<Rightarrow> (u64, SyscallError) result"
    and same_place :: "cpu \<Rightarrow> cpu \<Rightarrow> bool"
  assumes invoke_serves: "\<exists>c'. invoke n a0 a1 a2 c = Ret (serve n a0 a1 a2, c') \<and> same_place c c'"
    and same_place_refl: "same_place c c"
    and same_place_trans: "same_place c c' \<Longrightarrow> same_place c' c'' \<Longrightarrow> same_place c c''"
begin

lemma call_then_served:
  assumes "\<And>v c'. serve n a0 a1 a2 = Inr v \<Longrightarrow> \<exists>c''. f v c' = Ret (g v, c'') \<and> same_place c' c''"
  shows "\<exists>c'. call_then (invoke n a0 a1 a2) f c =
    Ret (case serve n a0 a1 a2 of Inl e \<Rightarrow> Inl e | Inr v \<Rightarrow> g v, c') \<and> same_place c c'"
proof -
  obtain c1 where c1: "invoke n a0 a1 a2 c = Ret (serve n a0 a1 a2, c1)" "same_place c c1"
    using invoke_serves by blast
  show ?thesis
  proof (cases "serve n a0 a1 a2")
    case (Inl e)
    with c1 show ?thesis by (simp add: call_then_def)
  next
    case (Inr v)
    from assms[OF Inr, of c1] obtain c2 where "f v c1 = Ret (g v, c2)" "same_place c1 c2" by blast
    with c1 Inr same_place_trans show ?thesis by (auto simp: call_then_def)
  qed
qed

end

definition dispatch_result :: "kernel_services \<Rightarrow> u64 \<Rightarrow> u64 \<Rightarrow> u64 \<Rightarrow> u64 \<Rightarrow> (u64, SyscallError) result" where
  "dispatch_result ks n a0 a1 a2 = (case dispatch ks n a0 a1 a2 of Ret r \<Rightarrow> r | Panic _ \<Rightarrow> Inl ContextUnavailable)"

text \<open>Two states of the CPU with the same stack, code and segments and the same callee-saved registers.\<close>

definition same_context :: "cpu \<Rightarrow> cpu \<Rightarrow> bool" where
  "same_context c c' \<longleftrightarrow> cp_rsp c' = cp_rsp c \<and> cp_rip c' = cp_rip c \<and> cp_cs c' = cp_cs c \<and> cp_ss c' = cp_ss c \<and>
     cp_rflags c' = cp_rflags c \<and> cp_gs_base c' = cp_gs_base c \<and> cp_kernel_gs_base c' = cp_kernel_gs_base c \<and>
     (\<forall>r\<in>{RBX, RBP, R8, R9, R10, R11, R12, R13, R14, R15}. get_reg r (cp_regs c') = get_reg r (cp_regs c))"

lemma invoke_via_interrupt_served:
  assumes "ce_handler (CF SyscallInterruptEntry) = handle_interrupt_from_registers ks"
    and "ce_depth (CF SyscallInterruptEntry) < 2 ^ 63" "pit_ok (ks_interrupts ks)"
  shows "\<exists>c'. invoke_via_interrupt CF tss_rsp0 entry n a0 a1 a2 c = Ret (dispatch_result ks n a0 a1 a2, c') \<and> same_context c c'"
proof -
  let ?c = "c\<lparr>cp_regs := (cp_regs c)\<lparr>rg_rax := n, rg_rdi := a0, rg_rsi := a1, rg_rdx := a2\<rparr>\<rparr>"
  obtain r where r: "dispatch ks n a0 a1 a2 = Ret r" using dispatch_total[OF assms(3)] by blast
  then obtain v s m where "software_interrupt CF tss_rsp0 entry SYSCALL_INTERRUPT_VECTOR ?c =
      Ret (?c\<lparr>cp_regs := (cp_regs ?c)\<lparr>rg_rax := v, rg_rcx := s\<rparr>, cp_mem := m\<rparr>)" "decode_response s v = r"
    using int_0x80_result[where CF = CF, OF assms(1,2), of ?c r tss_rsp0 entry] by auto
  with r show ?thesis
    by (simp add: invoke_via_interrupt_def dispatch_result_def same_context_def)
qed

lemma interrupt_gate:
  assumes "ce_handler (CF SyscallInterruptEntry) = handle_interrupt_from_registers ks"
    and "ce_depth (CF SyscallInterruptEntry) < 2 ^ 63" "pit_ok (ks_interrupts ks)"
  shows "call_gate (invoke_via_interrupt CF tss_rsp0 entry) (dispatch_result ks) same_context"
proof
  show "\<exists>c'. invoke_via_interrupt CF tss_rsp0 entry n a0 a1 a2 c = Ret (dispatch_result ks n a0 a1 a2, c') \<and> same_context c c'"
    for n a0 a1 a2 c by (rule invoke_via_interrupt_served[where CF = CF, OF assms])
qed (auto simp: same_context_def)

interpretation demo_gate: call_gate "invoke_via_interrupt (\<lambda>_. demo_callee) tss_rsp0 entry"
  "dispatch_result demo_services" same_context for tss_rsp0 entry
  by (rule interrupt_gate) (simp_all add: demo_callee_def demo_services_pit)

section \<open>Properties\<close>

text \<open>
  The demo client makes its five calls and returns where it was called from. Its report holds the
  tick count, the uptime (ticks divided by the timer frequency), 42 and the two totals of the memory
  summary; without a memory summary it ends with the error of the first call that needs it.
\<close>

lemma run_user_demo_report:
  assumes "ce_handler (CF SyscallInterruptEntry) = handle_interrupt_from_registers ks"
    and "ce_depth (CF SyscallInterruptEntry) < 2 ^ 63" "pit_ok (ks_interrupts ks)"
  shows "\<exists>c'. same_context c c' \<and> run_user_demo CF tss_rsp0 entry c =
    Ret (case ks_memory ks of
       None \<Rightarrow> Inl ContextUnavailable
     | Some summary \<Rightarrow> Inr \<lparr>ud_ticks = is_ticks (ks_interrupts ks),
         ud_uptime_seconds = is_ticks (ks_interrupts ks) div ucast (is_pit_hz (ks_interrupts ks)), ud_sum = 42,
         ud_usable_bytes = ms_usable_bytes summary, ud_usable_frames = ms_usable_frames_4k summary\<rparr>, c')"
proof -
  let ?t = "is_ticks (ks_interrupts ks)" and ?hz = "ucast (is_pit_hz (ks_interrupts ks)) :: u64"
  obtain secs where "div_word ?t ?hz = Ret secs"
    using pit_clock.uptime_defined[OF assms(3)] by blast
  then have up: "div_word ?t ?hz = Ret (?t div ?hz)" by (auto simp: div_word_def split: if_splits)
  have served: "dispatch_result ks SYSCALL_GET_TICKS 0 0 0 = Inr ?t"
    "dispatch_result ks SYSCALL_GET_UPTIME_SECONDS 0 0 0 = Inr (?t div ?hz)"
    "dispatch_result ks SYSCALL_ADD 40 2 0 = Inr 42"
    "dispatch_result ks SYSCALL_GET_USABLE_MEMORY 0 0 0 =
       (case ks_memory ks of None \<Rightarrow> Inl ContextUnavailable | Some s \<Rightarrow> Inr (ms_usable_bytes s))"
    "dispatch_result ks SYSCALL_GET_USABLE_FRAMES 0 0 0 =
       (case ks_memory ks of None \<Rightarrow> Inl ContextUnavailable | Some s \<Rightarrow> Inr (ms_usable_frames_4k s))"
    by (simp_all add: dispatch_result_def dispatch_def syscall_numbers checked_add_def up kernel_memory_summary_def)
  let ?R = "\<lambda>t u s b f. Inr \<lparr>ud_ticks = t, ud_uptime_seconds = u, ud_sum = s, ud_usable_bytes = b, ud_usable_frames = f\<rparr>"
  let ?call = "\<lambda>n a b. dispatch_result ks n a b 0"
  note gate = interrupt_gate[where CF = CF, OF assms, of tss_rsp0 entry]
  have "\<exists>c'. run_user_demo CF tss_rsp0 entry c = Ret (
      case ?call SYSCALL_GET_TICKS 0 0 of Inl e \<Rightarrow> Inl e | Inr t \<Rightarrow>
      case ?call SYSCALL_GET_UPTIME_SECONDS 0 0 of Inl e \<Rightarrow> Inl e | Inr u \<Rightarrow>
      case ?call SYSCALL_ADD 40 2 of Inl e \<Rightarrow> Inl e | Inr s \<Rightarrow>
      case ?call SYSCALL_GET_USABLE_MEMORY 0 0 of Inl e \<Rightarrow> Inl e | Inr b \<Rightarrow>
      case ?call SYSCALL_GET_USABLE_FRAMES 0 0 of Inl e \<Rightarrow> Inl e | Inr f \<Rightarrow> ?R t u s b f, c') \<and> same_context c c'"
    unfolding run_user_demo_def Let_def
    by (intro call_gate.call_then_served[OF gate]) (simp add: call_gate.same_place_refl[OF gate])
  then show ?thesis
    unfolding served by (cases "ks_memory ks") auto
qed

end
