(* ===== verification/Refinement.thy ===== *)
theory Refinement
  imports Kernel_Prelude
begin

text \<open>
  The contract between a data structure of the monitor and its specification: an operation that may
  panic, run from a state that stands in the given relation to an abstract state, does not panic,
  returns what the specification returns and leaves related states. Where the abstract state is a view
  of the concrete one the relation is an invariant together with that view. The input line and the command history
  are such machines, the framebuffer is one of the first kind.
\<close>

fun run_calls :: "('o \<Rightarrow> 's \<Rightarrow> ('r \<times> 's) run) \<Rightarrow> 'o list \<Rightarrow> 's \<Rightarrow> ('r list \<times> 's) run" where
  "run_calls step [] s = Ret ([], s)"
| "run_calls step (x # xs) s =
     bind_run (step x s) (\<lambda>(r, s). bind_run (run_calls step xs s) (\<lambda>(rs, s). Ret (r # rs, s)))"

fun spec_calls :: "('o \<Rightarrow> 'a \<Rightarrow> 'r \<times> 'a) \<Rightarrow> 'o list \<Rightarrow> 'a \<Rightarrow> 'r list \<times> 'a" where
  "spec_calls spec [] a = ([], a)"
| "spec_calls spec (x # xs) a = (let (r, a) = spec x a; (rs, a) = spec_calls spec xs a in (r # rs, a))"

locale simulated_machine =
  fixes step :: "'o \<Rightarrow> 's \<Rightarrow> ('r \<times> 's) run"
    and spec :: "'o \<Rightarrow> 'a \<Rightarrow> 'r \<times> 'a"
    and rel :: "'s \<Rightarrow> 'a \<Rightarrow> bool"
    and valid :: "'o \<Rightarrow> bool"
  assumes step_simulates: "rel s a \<Longrightarrow> valid x \<Longrightarrow>
    \<exists>r s' a'. step x s = Ret (r, s') \<and> spec x a = (r, a') \<and> rel s' a'"
begin

lemma calls_simulate:
  "rel s a \<Longrightarrow> list_all valid xs \<Longrightarrow>
   \<exists>rs s' a'. run_calls step xs s = Ret (rs, s') \<and> spec_calls spec xs a = (rs, a') \<and> rel s' a'"
proof (induction xs arbitrary: s a)
  case (Cons x xs)
  then obtain r s1 a1 where s1: "step x s = Ret (r, s1)" "spec x a = (r, a1)" "rel s1 a1"
    using step_simulates[of s a x] by auto
  with Cons obtain rs s2 a2 where "run_calls step xs s1 = Ret (rs, s2)" "spec_calls spec xs a1 = (rs, a2)" "rel s2 a2"
    by force
  with s1 show ?case by simp
qed simp

end

locale refined_machine =
  fixes step :: "'o \<Rightarrow> 's \<Rightarrow> ('r \<times> 's) run"
    and spec :: "'o \<Rightarrow> 'a \<Rightarrow> 'r \<times> 'a"
    and view :: "'s \<Rightarrow> 'a"
    and inv :: "'s \<Rightarrow> bool"
    and valid :: "'o \<Rightarrow> bool"
  assumes step_refines: "inv s \<Longrightarrow> valid x \<Longrightarrow>
    \<exists>r s'. step x s = Ret (r, s') \<and> inv s' \<and> spec x (view s) = (r, view s')"

sublocale refined_machine \<subseteq> viewed: simulated_machine step spec "\<lambda>s a. inv s \<and> a = view s" valid
  by unfold_locales (use step_refines in blast)

context refined_machine
begin

lemma calls_refine:
  "inv s \<Longrightarrow> list_all valid xs \<Longrightarrow>
   \<exists>rs s'. run_calls step xs s = Ret (rs, s') \<and> inv s' \<and> spec_calls spec xs (view s) = (rs, view s')"
  using viewed.calls_simulate[of s "view s" xs] by auto

text \<open>What every step of the specification keeps, the implementation keeps.\<close>

lemma calls_keep:
  assumes "inv s" "list_all valid xs" "run_calls step xs s = Ret (rs, s')" "I (view s)"
    and "\<And>x a r a'. valid x \<Longrightarrow> I a \<Longrightarrow> spec x a = (r, a') \<Longrightarrow> I a'"
  shows "I (view s')"
  using assms(1-4)
proof (induction xs arbitrary: s rs)
  case (Cons x xs)
  obtain r s1 where s1: "step x s = Ret (r, s1)" "inv s1" "spec x (view s) = (r, view s1)"
    using step_refines[of s x] Cons.prems(1,2) by auto
  with Cons.prems(3) obtain rs1 where "run_calls step xs s1 = Ret (rs1, s')"
    by (auto simp: bind_run_Ret_iff)
  moreover have "I (view s1)" using assms(5)[OF _ Cons.prems(4) s1(3)] Cons.prems(2) by simp
  ultimately show ?case using Cons.IH[OF s1(2)] Cons.prems(2) by simp
qed simp

end

end
