(* ===== verification/Input_Line.thy ===== *)
theory Input_Line
  imports Refinement
begin

text \<open>
  The line editor of the monitor, \<open>InputLine\<close> of \<open>kernel/src/main.rs\<close>: a buffer of 128 bytes with a
  length and a cursor. A byte is a \<open>char\<close>, a \<open>str\<close> is the list of its bytes.
\<close>

section \<open>Characters and strings of the Rust core library\<close>

definition is_ascii :: "char \<Rightarrow> bool" where
  "is_ascii c \<longleftrightarrow> (of_char c :: nat) < 128"

definition char_between :: "nat \<Rightarrow> nat \<Rightarrow> char \<Rightarrow> bool" where
  "char_between lo hi c \<longleftrightarrow> lo \<le> (of_char c :: nat) \<and> (of_char c :: nat) \<le> hi"

definition is_ascii_whitespace :: "char \<Rightarrow> bool" where
  "is_ascii_whitespace c \<longleftrightarrow> (of_char c :: nat) \<in> {9, 10, 12, 13, 32}"

definition is_ascii_alphanumeric :: "char \<Rightarrow> bool" where
  "is_ascii_alphanumeric c \<longleftrightarrow> char_between 48 57 c \<or> char_between 65 90 c \<or> char_between 97 122 c"

text \<open>The sequences of bytes \<open>core::str::from_utf8\<close> accepts.\<close>

fun utf8_valid :: "char list \<Rightarrow> bool" where
  "utf8_valid [] = True"
| "utf8_valid (a # bs) =
     (if is_ascii a then utf8_valid bs else
      case bs of [] \<Rightarrow> False | b # cs \<Rightarrow>
      if char_between 0xC2 0xDF a then char_between 0x80 0xBF b \<and> utf8_valid cs else
      case cs of [] \<Rightarrow> False | c # ds \<Rightarrow>
      if char_between 0xE0 0xEF a then
        (if of_char a = (0xE0 :: nat) then char_between 0xA0 0xBF b
         else if of_char a = (0xED :: nat) then char_between 0x80 0x9F b else char_between 0x80 0xBF b) \<and>
        char_between 0x80 0xBF c \<and> utf8_valid ds else
      case ds of [] \<Rightarrow> False | d # es \<Rightarrow>
      char_between 0xF0 0xF4 a \<and>
        (if of_char a = (0xF0 :: nat) then char_between 0x90 0xBF b
         else if of_char a = (0xF4 :: nat) then char_between 0x80 0x8F b else char_between 0x80 0xBF b) \<and>
        char_between 0x80 0xBF c \<and> char_between 0x80 0xBF d \<and> utf8_valid es)"

definition from_utf8_or_empty :: "char list \<Rightarrow> string" where
  "from_utf8_or_empty bs = (if utf8_valid bs then bs else '''')"

lemma ascii_utf8: "list_all is_ascii bs \<Longrightarrow> utf8_valid bs"
  by (induction bs) simp_all

text \<open>A slice \<open>bs[..n]\<close> and \<open>bs[a..b].copy_from_slice(xs)\<close>.\<close>

definition slice_to :: "'a list \<Rightarrow> nat \<Rightarrow> 'a list run" where
  "slice_to bs n = (if n \<le> length bs then Ret (take n bs) else Panic IndexOutOfBounds)"

definition copy_from_slice :: "'a list \<Rightarrow> nat \<Rightarrow> nat \<Rightarrow> 'a list \<Rightarrow> 'a list run" where
  "copy_from_slice bs a b xs =
     (if \<not> (a \<le> b \<and> b \<le> length bs) then Panic IndexOutOfBounds
      else if length xs \<noteq> b - a then Panic SliceLengthMismatch
      else Ret (take a bs @ xs @ drop b bs))"

section \<open>The buffer\<close>

definition INPUT_LINE_MAX :: nat where "INPUT_LINE_MAX = 128"

record InputLine =
  il_bytes :: "char list"
  il_len :: nat
  il_cursor :: nat

definition line_new :: InputLine where
  "line_new = \<lparr>il_bytes = replicate INPUT_LINE_MAX CHR 0x00, il_len = 0, il_cursor = 0\<rparr>"

text \<open>The loops that move bytes up by \<open>k\<close> (from the last index down) and down by \<open>k\<close>.\<close>

fun shift_up :: "nat \<Rightarrow> nat list \<Rightarrow> char list \<Rightarrow> char list run" where
  "shift_up k [] bs = Ret bs"
| "shift_up k (i # is) bs =
     bind_run (arr_get bs i) (\<lambda>b. bind_run (arr_set bs (i + k) b) (shift_up k is))"

fun shift_down :: "nat \<Rightarrow> nat list \<Rightarrow> char list \<Rightarrow> char list run" where
  "shift_down k [] bs = Ret bs"
| "shift_down k (i # is) bs =
     bind_run (arr_get bs i) (\<lambda>b. bind_run (sub_usize i k) (\<lambda>j.
     bind_run (arr_set bs j b) (shift_down k is)))"

definition insert_char :: "char \<Rightarrow> InputLine \<Rightarrow> (bool \<times> InputLine) run" where
  "insert_char character line =
     (if \<not> is_ascii character \<or> length (il_bytes line) \<le> il_len line then Ret (False, line) else
      bind_run (shift_up 1 (rev [il_cursor line..<il_len line]) (il_bytes line)) (\<lambda>bs.
      bind_run (arr_set bs (il_cursor line) character) (\<lambda>bs.
      Ret (True, line\<lparr>il_bytes := bs, il_len := il_len line + 1, il_cursor := il_cursor line + 1\<rparr>))))"

definition insert_or_overwrite_char :: "char \<Rightarrow> bool \<Rightarrow> InputLine \<Rightarrow> (bool \<times> InputLine) run" where
  "insert_or_overwrite_char character overwrite_mode line =
     (if \<not> is_ascii character then Ret (False, line)
      else if overwrite_mode \<and> il_cursor line < il_len line then
        bind_run (arr_set (il_bytes line) (il_cursor line) character) (\<lambda>bs.
        Ret (True, line\<lparr>il_bytes := bs, il_cursor := il_cursor line + 1\<rparr>))
      else insert_char character line)"

definition append_str :: "string \<Rightarrow> InputLine \<Rightarrow> (bool \<times> InputLine) run" where
  "append_str text line =
     (if \<not> list_all is_ascii text \<or> length (il_bytes line) < il_len line + length text then Ret (False, line) else
      let insert_len = length text
      in bind_run (shift_up insert_len (rev [il_cursor line..<il_len line]) (il_bytes line)) (\<lambda>bs.
         bind_run (copy_from_slice bs (il_cursor line) (il_cursor line + insert_len) text) (\<lambda>bs.
         Ret (True, line\<lparr>il_bytes := bs, il_len := il_len line + insert_len,
           il_cursor := il_cursor line + insert_len\<rparr>))))"

definition line_clear :: "InputLine \<Rightarrow> InputLine" where
  "line_clear line = line\<lparr>il_len := 0, il_cursor := 0\<rparr>"

definition set_from_str :: "string \<Rightarrow> InputLine \<Rightarrow> (bool \<times> InputLine) run" where
  "set_from_str text line =
     (if \<not> list_all is_ascii text \<or> length (il_bytes line) < length text then Ret (False, line) else
      let line = line_clear line
      in bind_run (copy_from_slice (il_bytes line) 0 (length text) text) (\<lambda>bs.
         Ret (True, line\<lparr>il_bytes := bs, il_len := length text, il_cursor := length text\<rparr>)))"

definition line_backspace :: "InputLine \<Rightarrow> (bool \<times> InputLine) run" where
  "line_backspace line =
     (if il_cursor line = 0 then Ret (False, line) else
      let removed = il_cursor line - 1
      in bind_run (shift_down 1 [removed + 1..<il_len line] (il_bytes line)) (\<lambda>bs.
         bind_run (sub_usize (il_len line) 1) (\<lambda>n.
         Ret (True, line\<lparr>il_bytes := bs, il_len := n, il_cursor := il_cursor line - 1\<rparr>))))"

definition line_delete :: "InputLine \<Rightarrow> (bool \<times> InputLine) run" where
  "line_delete line =
     (if il_len line \<le> il_cursor line then Ret (False, line) else
      bind_run (shift_down 1 [il_cursor line + 1..<il_len line] (il_bytes line)) (\<lambda>bs.
      bind_run (sub_usize (il_len line) 1) (\<lambda>n.
      Ret (True, line\<lparr>il_bytes := bs, il_len := n\<rparr>))))"

definition line_as_str :: "InputLine \<Rightarrow> string run" where
  "line_as_str line = bind_run (slice_to (il_bytes line) (il_len line)) (\<lambda>bs. Ret (from_utf8_or_empty bs))"

definition as_prefix_str :: "InputLine \<Rightarrow> string run" where
  "as_prefix_str line = bind_run (slice_to (il_bytes line) (il_cursor line)) (\<lambda>bs. Ret (from_utf8_or_empty bs))"

definition is_cursor_at_end :: "InputLine \<Rightarrow> bool" where
  "is_cursor_at_end line \<longleftrightarrow> il_cursor line = il_len line"

definition line_is_empty :: "InputLine \<Rightarrow> bool" where
  "line_is_empty line \<longleftrightarrow> il_len line = 0"

definition move_left :: "InputLine \<Rightarrow> bool \<times> InputLine" where
  "move_left line = (if il_cursor line = 0 then (False, line) else (True, line\<lparr>il_cursor := il_cursor line - 1\<rparr>))"

definition move_right :: "InputLine \<Rightarrow> bool \<times> InputLine" where
  "move_right line =
     (if il_len line \<le> il_cursor line then (False, line) else (True, line\<lparr>il_cursor := il_cursor line + 1\<rparr>))"

definition move_home :: "InputLine \<Rightarrow> bool \<times> InputLine" where
  "move_home line = (if il_cursor line = 0 then (False, line) else (True, line\<lparr>il_cursor := 0\<rparr>))"

definition move_end :: "InputLine \<Rightarrow> bool \<times> InputLine" where
  "move_end line = (if il_cursor line = il_len line then (False, line) else (True, line\<lparr>il_cursor := il_len line\<rparr>))"

section \<open>Words\<close>

definition is_word_byte :: "char \<Rightarrow> bool" where
  "is_word_byte b \<longleftrightarrow> is_ascii_alphanumeric b \<or> b = CHR ''_''"

definition is_symbol_byte :: "char \<Rightarrow> bool" where
  "is_symbol_byte b \<longleftrightarrow> \<not> is_ascii_whitespace b \<and> \<not> is_word_byte b"

text \<open>The loops \<open>while position > 0 \<and> P (bytes[position - 1])\<close> and \<open>while position < len \<and> P (bytes[position])\<close>.\<close>

fun retreat_while :: "(char \<Rightarrow> bool) \<Rightarrow> char list \<Rightarrow> nat \<Rightarrow> nat run" where
  "retreat_while P bs 0 = Ret 0"
| "retreat_while P bs (Suc position) =
     bind_run (arr_get bs position) (\<lambda>b. if P b then retreat_while P bs position else Ret (Suc position))"

function advance_while :: "(char \<Rightarrow> bool) \<Rightarrow> char list \<Rightarrow> nat \<Rightarrow> nat \<Rightarrow> nat run" where
  "advance_while P bs n position =
     (if position < n
      then bind_run (arr_get bs position) (\<lambda>b. if P b then advance_while P bs n (position + 1) else Ret position)
      else Ret position)"
  by pat_completeness auto
termination by (relation "measure (\<lambda>(P, bs, n, position). n - position)") auto

declare advance_while.simps [simp del]

definition previous_word_boundary :: "InputLine \<Rightarrow> nat run" where
  "previous_word_boundary line =
     (if il_cursor line = 0 then Ret 0 else
      bind_run (retreat_while is_ascii_whitespace (il_bytes line) (il_cursor line)) (\<lambda>position.
      bind_run (retreat_while is_word_byte (il_bytes line) position) (\<lambda>position.
      bind_run (if position = il_cursor line then retreat_while is_symbol_byte (il_bytes line) position else Ret position)
        (\<lambda>position. Ret (if position = il_cursor line then position - 1 else position)))))"

definition next_word_boundary :: "InputLine \<Rightarrow> nat run" where
  "next_word_boundary line =
     (if il_len line \<le> il_cursor line then Ret (il_len line) else
      bind_run (advance_while is_ascii_whitespace (il_bytes line) (il_len line) (il_cursor line)) (\<lambda>position.
      bind_run (advance_while is_word_byte (il_bytes line) (il_len line) position) (\<lambda>position.
      bind_run (if position = il_cursor line then advance_while is_symbol_byte (il_bytes line) (il_len line) position
         else Ret position)
        (\<lambda>position. Ret (if position = il_cursor line then min (position + 1) (il_len line) else position)))))"

definition delete_range :: "nat \<Rightarrow> nat \<Rightarrow> InputLine \<Rightarrow> InputLine run" where
  "delete_range start stop line =
     (let removed = stop - start
      in if removed = 0 then Ret line else
         bind_run (shift_down removed [stop..<il_len line] (il_bytes line)) (\<lambda>bs.
         bind_run (sub_usize (il_len line) removed) (\<lambda>n.
         Ret (line\<lparr>il_bytes := bs, il_len := n, il_cursor := (if n < il_cursor line then n else il_cursor line)\<rparr>))))"

definition move_word_left :: "InputLine \<Rightarrow> (bool \<times> InputLine) run" where
  "move_word_left line =
     bind_run (previous_word_boundary line) (\<lambda>previous.
     Ret (if previous = il_cursor line then (False, line) else (True, line\<lparr>il_cursor := previous\<rparr>)))"

definition move_word_right :: "InputLine \<Rightarrow> (bool \<times> InputLine) run" where
  "move_word_right line =
     bind_run (next_word_boundary line) (\<lambda>next.
     Ret (if next = il_cursor line then (False, line) else (True, line\<lparr>il_cursor := next\<rparr>)))"

definition delete_word_left :: "InputLine \<Rightarrow> (bool \<times> InputLine) run" where
  "delete_word_left line =
     bind_run (previous_word_boundary line) (\<lambda>start.
     if start = il_cursor line then Ret (False, line)
     else bind_run (delete_range start (il_cursor line) line) (\<lambda>line. Ret (True, line\<lparr>il_cursor := start\<rparr>)))"

definition delete_word_right :: "InputLine \<Rightarrow> (bool \<times> InputLine) run" where
  "delete_word_right line =
     bind_run (next_word_boundary line) (\<lambda>stop.
     if stop = il_cursor line then Ret (False, line)
     else bind_run (delete_range (il_cursor line) stop line) (\<lambda>line. Ret (True, line)))"

section \<open>The abstract editor\<close>

text \<open>The text before and after the cursor.\<close>

type_synonym editor = "string \<times> string"

text \<open>How far a word motion reaches into the text it faces: blanks and a word, or a run of symbols.\<close>

definition word_length :: "string \<Rightarrow> nat" where
  "word_length xs =
     (let n = length (takeWhile is_ascii_whitespace xs) + length (takeWhile is_word_byte (dropWhile is_ascii_whitespace xs))
      in if n = 0 then length (takeWhile is_symbol_byte xs) else n)"

datatype edit_op =
    EditChar char bool
  | EditAppend string
  | EditSet string
  | EditClear
  | EditBackspace
  | EditDelete
  | EditLeft
  | EditRight
  | EditHome
  | EditEnd
  | EditWordLeft
  | EditWordRight
  | EditDeleteWordLeft
  | EditDeleteWordRight

fun run_edit :: "edit_op \<Rightarrow> InputLine \<Rightarrow> (bool \<times> InputLine) run" where
  "run_edit (EditChar c overwrite_mode) line = insert_or_overwrite_char c overwrite_mode line"
| "run_edit (EditAppend text) line = append_str text line"
| "run_edit (EditSet text) line = set_from_str text line"
| "run_edit EditClear line = Ret (True, line_clear line)"
| "run_edit EditBackspace line = line_backspace line"
| "run_edit EditDelete line = line_delete line"
| "run_edit EditLeft line = Ret (move_left line)"
| "run_edit EditRight line = Ret (move_right line)"
| "run_edit EditHome line = Ret (move_home line)"
| "run_edit EditEnd line = Ret (move_end line)"
| "run_edit EditWordLeft line = move_word_left line"
| "run_edit EditWordRight line = move_word_right line"
| "run_edit EditDeleteWordLeft line = delete_word_left line"
| "run_edit EditDeleteWordRight line = delete_word_right line"

fun spec_edit :: "edit_op \<Rightarrow> editor \<Rightarrow> bool \<times> editor" where
  "spec_edit (EditChar c overwrite_mode) (l, r) =
     (if \<not> is_ascii c then (False, (l, r))
      else if overwrite_mode \<and> r \<noteq> [] then (True, (l @ [c], tl r))
      else if length l + length r < INPUT_LINE_MAX then (True, (l @ [c], r)) else (False, (l, r)))"
| "spec_edit (EditAppend text) (l, r) =
     (if list_all is_ascii text \<and> length l + length r + length text \<le> INPUT_LINE_MAX
      then (True, (l @ text, r)) else (False, (l, r)))"
| "spec_edit (EditSet text) (l, r) =
     (if list_all is_ascii text \<and> length text \<le> INPUT_LINE_MAX then (True, (text, [])) else (False, (l, r)))"
| "spec_edit EditClear (l, r) = (True, ([], []))"
| "spec_edit EditBackspace (l, r) = (if l = [] then (False, (l, r)) else (True, (butlast l, r)))"
| "spec_edit EditDelete (l, r) = (if r = [] then (False, (l, r)) else (True, (l, tl r)))"
| "spec_edit EditLeft (l, r) = (if l = [] then (False, (l, r)) else (True, (butlast l, last l # r)))"
| "spec_edit EditRight (l, r) = (if r = [] then (False, (l, r)) else (True, (l @ [hd r], tl r)))"
| "spec_edit EditHome (l, r) = (if l = [] then (False, (l, r)) else (True, ([], l @ r)))"
| "spec_edit EditEnd (l, r) = (if r = [] then (False, (l, r)) else (True, (l @ r, [])))"
| "spec_edit EditWordLeft (l, r) =
     (if l = [] then (False, (l, r))
      else let n = length l - word_length (rev l) in (True, (take n l, drop n l @ r)))"
| "spec_edit EditWordRight (l, r) =
     (if r = [] then (False, (l, r)) else let n = word_length r in (True, (l @ take n r, drop n r)))"
| "spec_edit EditDeleteWordLeft (l, r) =
     (if l = [] then (False, (l, r)) else (True, (take (length l - word_length (rev l)) l, r)))"
| "spec_edit EditDeleteWordRight (l, r) =
     (if r = [] then (False, (l, r)) else (True, (l, drop (word_length r) r)))"

section \<open>The buffer as an editor\<close>

definition line_ok :: "InputLine \<Rightarrow> bool" where
  "line_ok line \<longleftrightarrow> length (il_bytes line) = INPUT_LINE_MAX \<and> il_cursor line \<le> il_len line \<and>
     il_len line \<le> INPUT_LINE_MAX \<and> list_all is_ascii (take (il_len line) (il_bytes line))"

definition line_view :: "InputLine \<Rightarrow> editor" where
  "line_view line = (take (il_cursor line) (il_bytes line), drop (il_cursor line) (take (il_len line) (il_bytes line)))"

text \<open>The same, with the bytes split at the cursor and at the end of the text.\<close>

definition holds :: "InputLine \<Rightarrow> string \<Rightarrow> string \<Rightarrow> char list \<Rightarrow> bool" where
  "holds line l r g \<longleftrightarrow> il_bytes line = l @ r @ g \<and> il_cursor line = length l \<and> il_len line = length l + length r \<and>
     length l + length r + length g = INPUT_LINE_MAX \<and> list_all is_ascii l \<and> list_all is_ascii r"

lemma holds_ok: "holds line l r g \<Longrightarrow> line_ok line \<and> line_view line = (l, r)"
  by (auto simp: holds_def line_ok_def line_view_def)

lemma ok_holds:
  assumes "line_ok line"
  obtains l r g where "holds line l r g" "line_view line = (l, r)"
proof -
  let ?n = "il_len line" and ?c = "il_cursor line" and ?b = "il_bytes line"
  let ?l = "take ?c ?b" and ?r = "drop ?c (take ?n ?b)" and ?g = "drop ?n ?b"
  have "?l @ ?r = take ?n ?b"
    using assms by (metis append_take_drop_id line_ok_def min.absorb1 take_take)
  then have "?b = ?l @ ?r @ ?g" by (metis append.assoc append_take_drop_id)
  moreover have "list_all is_ascii (?l @ ?r)" using assms by (simp only: \<open>?l @ ?r = take ?n ?b\<close> line_ok_def)
  ultimately have "holds line ?l ?r ?g" using assms by (simp add: holds_def line_ok_def)
  then show thesis by (rule that) (simp add: line_view_def)
qed

lemma arr_set_middle: "arr_set (xs @ y # zs) (length xs) x = Ret (xs @ x # zs)"
  by (simp add: arr_set_def)

lemma shift_up_correct:
  "0 < k \<Longrightarrow> k \<le> length g \<Longrightarrow>
   shift_up k (rev [length l..<length l + length r]) (l @ r @ g) = Ret (l @ take k (r @ g) @ r @ drop k g)"
proof (induction r arbitrary: g rule: rev_induct)
  case (snoc x r)
  let ?g = "x # g[k - 1 := x]"
  have up: "rev [length l..<length l + length (r @ [x])] = (length l + length r) # rev [length l..<length l + length r]"
    by simp
  have set: "arr_set (l @ (r @ [x]) @ g) (length l + length r + k) x = Ret (l @ r @ ?g)"
    using snoc.prems by (cases k) (simp_all add: list_update_append)
  have get: "arr_get (l @ (r @ [x]) @ g) (length l + length r) = Ret x"
    by (simp add: nth_append)
  have "take k (r @ ?g) = take k ((r @ [x]) @ g)"
    using snoc.prems by (cases k) (auto simp: take_Cons' not_le)
  moreover have "drop k ?g = x # drop k g"
    using snoc.prems by (cases k) (simp_all add: drop_update_swap Cons_nth_drop_Suc[symmetric])
  ultimately show ?case
    unfolding up using snoc.IH[of ?g] snoc.prems by (simp only: shift_up.simps get set bind_run.simps) simp
qed simp

lemma shift_down_correct:
  "0 < length d \<Longrightarrow>
   shift_down (length d) [length l + length d..<length l + length d + length r] (l @ d @ r @ g) =
     Ret (l @ r @ drop (length r) (d @ r) @ g)"
proof (induction r arbitrary: l d)
  case (Cons x r)
  obtain d0 d' where d: "d = d0 # d'" using Cons.prems by (cases d) auto
  have up: "[length l + length d..<length l + length d + length (x # r)] =
      (length l + length d) # [length (l @ [x]) + length (d' @ [x])..<length (l @ [x]) + length (d' @ [x]) + length r]"
    using upt_conv_Cons[of "length l + length d" "length l + length d + length (x # r)"] by (simp add: d del: upt_Suc)
  have get: "arr_get (l @ d @ (x # r) @ g) (length l + length d) = Ret x"
    by (simp add: nth_append)
  have set: "arr_set (l @ d @ (x # r) @ g) (length l) x = Ret ((l @ [x]) @ (d' @ [x]) @ r @ g)"
    by (simp add: d arr_set_middle)
  show ?case
    unfolding up using Cons.IH[of "d' @ [x]" "l @ [x]"]
    by (simp only: shift_down.simps get bind_run.simps) (cases r; simp add: d set[unfolded d, simplified])
qed simp

lemma shift_up_zero: "(\<forall>i\<in>set is. i < length bs) \<Longrightarrow> shift_up 0 is bs = Ret bs"
  by (induction "is") simp_all

lemma retreat_while_correct:
  "retreat_while P (l @ g) (length l) = Ret (length l - length (takeWhile P (rev l)))"
proof (induction l arbitrary: g rule: rev_induct)
  case (snoc x l)
  have "length (takeWhile P (rev l)) \<le> length l" using length_takeWhile_le[of P "rev l"] by simp
  with snoc.IH[of "x # g"] show ?case by (simp add: nth_append)
qed simp

lemma advance_while_correct:
  "advance_while P (l @ r @ g) (length l + length r) (length l) = Ret (length l + length (takeWhile P r))"
proof (induction r arbitrary: l)
  case (Cons x r)
  from Cons.IH[of "l @ [x]"] show ?case by (subst advance_while.simps) (simp add: nth_append)
qed (simp add: advance_while.simps)

lemma word_length_le: "word_length xs \<le> length xs"
proof -
  have "length (takeWhile is_ascii_whitespace xs) + length (dropWhile is_ascii_whitespace xs) = length xs"
    by (metis length_append takeWhile_dropWhile_id)
  moreover have "length (takeWhile is_word_byte (dropWhile is_ascii_whitespace xs)) \<le> length (dropWhile is_ascii_whitespace xs)"
    by (rule length_takeWhile_le)
  ultimately have "length (takeWhile is_ascii_whitespace xs) + length (takeWhile is_word_byte (dropWhile is_ascii_whitespace xs)) \<le> length xs"
    by linarith
  then show ?thesis using length_takeWhile_le[of is_symbol_byte xs] by (simp add: word_length_def Let_def)
qed

lemma word_length_pos: "xs \<noteq> [] \<Longrightarrow> 0 < word_length xs"
  by (cases xs) (auto simp: word_length_def Let_def is_symbol_byte_def)

lemma previous_word_boundary_correct:
  assumes "holds line l r g"
  shows "previous_word_boundary line = Ret (length l - word_length (rev l))"
proof (cases "l = []")
  case False
  let ?ws = "takeWhile is_ascii_whitespace (rev l)"
  let ?k = "length l - length ?ws"
  have ws: "length ?ws \<le> length l" using length_takeWhile_le[of is_ascii_whitespace "rev l"] by simp
  have rest: "rev (take ?k l) = dropWhile is_ascii_whitespace (rev l)"
    using ws by (simp add: rev_take dropWhile_eq_drop)
  have w: "retreat_while is_word_byte (l @ g') ?k = Ret (?k - length (takeWhile is_word_byte (dropWhile is_ascii_whitespace (rev l))))" for g'
  proof -
    have "l @ g' = take ?k l @ drop ?k l @ g'" "length (take ?k l) = ?k" by (simp_all flip: append_assoc)
    then show ?thesis using retreat_while_correct[of is_word_byte "take ?k l" "drop ?k l @ g'"] unfolding rest by metis
  qed
  let ?w = "takeWhile is_word_byte (dropWhile is_ascii_whitespace (rev l))"
  have le: "length ?w \<le> ?k"
    using length_takeWhile_le[of is_word_byte "rev (take ?k l)"] unfolding rest by (simp flip: rest)
  have pos: "0 < word_length (rev l)" "word_length (rev l) \<le> length l"
    using False word_length_le[of "rev l"] by (simp_all add: word_length_pos)
  show ?thesis
  proof (cases "length ?ws + length ?w = 0")
    case True
    then have "word_length (rev l) = length (takeWhile is_symbol_byte (rev l))" by (simp add: word_length_def)
    moreover from this pos have "length l - length (takeWhile is_symbol_byte (rev l)) \<noteq> length l" by linarith
    moreover have "dropWhile is_ascii_whitespace (rev l) = rev l"
      using True takeWhile_dropWhile_id[of is_ascii_whitespace "rev l"] by simp
    ultimately show ?thesis using True pos assms False
      by (auto simp: previous_word_boundary_def holds_def retreat_while_correct w)
  next
    case sum: False
    then have len: "word_length (rev l) = length ?ws + length ?w" by (simp only: word_length_def Let_def if_False)
    have ne: "length l - (length ?ws + length ?w) \<noteq> length l" using pos sum unfolding len by linarith
    show ?thesis using assms ne unfolding len
      by (simp add: previous_word_boundary_def holds_def retreat_while_correct w)
  qed
qed (use assms in \<open>simp add: previous_word_boundary_def holds_def\<close>)

lemma next_word_boundary_correct:
  assumes "holds line l r g"
  shows "next_word_boundary line = Ret (length l + word_length r)"
proof (cases "r = []")
  case False
  let ?ws = "takeWhile is_ascii_whitespace r" and ?rest = "dropWhile is_ascii_whitespace r"
  have "r @ g = ?ws @ ?rest @ g" by simp
  then have w: "advance_while is_word_byte (l @ r @ g) (length l + length r) (length l + length ?ws) =
      Ret (length l + length ?ws + length (takeWhile is_word_byte ?rest))"
    using advance_while_correct[of is_word_byte "l @ ?ws" ?rest g]
    by (metis append.assoc length_append add.assoc takeWhile_dropWhile_id)
  have "0 < word_length r" using False by (simp add: word_length_pos)
  with assms False show ?thesis
    by (auto simp: next_word_boundary_def holds_def advance_while_correct w word_length_def Let_def)
qed (use assms in \<open>simp add: next_word_boundary_def holds_def word_length_def\<close>)

text \<open>Every operation is the abstract one.\<close>

definition edits_to :: "(bool \<times> InputLine) run \<Rightarrow> bool \<times> editor \<Rightarrow> bool" where
  "edits_to m res \<longleftrightarrow> (\<exists>line' g'. m = Ret (fst res, line') \<and> holds line' (fst (snd res)) (snd (snd res)) g')"

lemma edits_toI: "m = Ret (b, line') \<Longrightarrow> holds line' l' r' g' \<Longrightarrow> edits_to m (b, l', r')"
  by (auto simp: edits_to_def)

lemma insert_char_edits:
  assumes "holds line l r g" "is_ascii c"
  shows "edits_to (insert_char c line) (if length l + length r < INPUT_LINE_MAX then (True, l @ [c], r) else (False, l, r))"
proof (cases "length l + length r < INPUT_LINE_MAX")
  case True
  with assms obtain x g' where g: "g = x # g'" by (cases g) (auto simp: holds_def)
  obtain y where "take 1 (r @ g) = [y]" using g by (cases r) auto
  then have "shift_up 1 (rev [length l..<length l + length r]) (l @ r @ g) = Ret (l @ [y] @ r @ g')"
    using shift_up_correct[of 1 g l r] g by simp
  moreover have "arr_set (l @ [y] @ r @ g') (length l) c = Ret (l @ [c] @ r @ g')"
    by (simp add: arr_set_middle)
  ultimately have "insert_char c line = Ret (True, line\<lparr>il_bytes := l @ [c] @ r @ g', il_len := il_len line + 1,
      il_cursor := il_cursor line + 1\<rparr>)"
    using assms True g by (simp add: insert_char_def holds_def)
  moreover have "holds (line\<lparr>il_bytes := l @ [c] @ r @ g', il_len := il_len line + 1, il_cursor := il_cursor line + 1\<rparr>)
      (l @ [c]) r g'"
    using assms g by (simp add: holds_def)
  ultimately show ?thesis using True by (simp add: edits_toI)
next
  case False
  with assms(1) have "g = []" by (cases g) (auto simp: holds_def)
  with assms have "insert_char c line = Ret (False, line)" by (simp add: insert_char_def holds_def)
  with False assms show ?thesis by (simp add: edits_toI)
qed

lemma overwrite_char_edits:
  assumes "holds line l (x # r) g" "is_ascii c"
  shows "edits_to (insert_or_overwrite_char c True line) (True, l @ [c], r)"
proof -
  have "insert_or_overwrite_char c True line = Ret (True, line\<lparr>il_bytes := l @ c # r @ g, il_cursor := il_cursor line + 1\<rparr>)"
    using assms arr_set_middle[of l x "r @ g" c] by (simp add: insert_or_overwrite_char_def holds_def)
  moreover have "holds (line\<lparr>il_bytes := l @ c # r @ g, il_cursor := il_cursor line + 1\<rparr>) (l @ [c]) r g"
    using assms by (simp add: holds_def)
  ultimately show ?thesis by (rule edits_toI)
qed

lemma append_str_edits:
  assumes "holds line l r g" "list_all is_ascii t" "length l + length r + length t \<le> INPUT_LINE_MAX"
  shows "edits_to (append_str t line) (True, l @ t, r)"
proof -
  let ?k = "length t"
  have k: "?k \<le> length g" using assms by (simp add: holds_def)
  have "shift_up ?k (rev [length l..<length l + length r]) (l @ r @ g) = Ret (l @ take ?k (r @ g) @ r @ drop ?k g)"
  proof (cases "t = []")
    case True
    then show ?thesis by (simp add: shift_up_zero)
  qed (use k shift_up_correct[of ?k g l r] in simp)
  moreover have "copy_from_slice (l @ take ?k (r @ g) @ r @ drop ?k g) (length l) (length l + ?k) t = Ret (l @ t @ r @ drop ?k g)"
    using k by (simp add: copy_from_slice_def)
  ultimately have "append_str t line = Ret (True, line\<lparr>il_bytes := l @ t @ r @ drop ?k g, il_len := il_len line + ?k,
      il_cursor := il_cursor line + ?k\<rparr>)"
    using assms by (simp add: append_str_def holds_def Let_def)
  moreover have "holds (line\<lparr>il_bytes := l @ t @ r @ drop ?k g, il_len := il_len line + ?k, il_cursor := il_cursor line + ?k\<rparr>)
      (l @ t) r (drop ?k g)"
    using assms k by (simp add: holds_def)
  ultimately show ?thesis by (rule edits_toI)
qed

lemma set_from_str_edits:
  assumes "holds line l r g" "list_all is_ascii t" "length t \<le> INPUT_LINE_MAX"
  shows "edits_to (set_from_str t line) (True, t, [])"
proof -
  let ?line = "line\<lparr>il_bytes := t @ drop (length t) (il_bytes line), il_len := length t, il_cursor := length t\<rparr>"
  have "set_from_str t line = Ret (True, ?line)"
    using assms by (simp add: set_from_str_def holds_def line_clear_def copy_from_slice_def Let_def)
  moreover have "length (il_bytes line) = INPUT_LINE_MAX" using assms(1) by (simp add: holds_def)
  then have "holds ?line t [] (drop (length t) (il_bytes line))"
    using assms(2,3) by (simp add: holds_def)
  ultimately show ?thesis by (rule edits_toI)
qed

text \<open>Removing the bytes between \<open>l\<close> and \<open>r\<close>: the loop of \<open>backspace\<close>, \<open>delete\<close> and \<open>delete_range\<close>.\<close>

lemma shift_down_removes:
  assumes "il_bytes line = l @ d @ r @ g" "0 < length d" "length l + length d + length r + length g = INPUT_LINE_MAX"
    "list_all is_ascii l" "list_all is_ascii r"
  shows "\<exists>g'. shift_down (length d) [length l + length d..<length l + length d + length r] (il_bytes line) = Ret (l @ r @ g') \<and>
    holds (line\<lparr>il_bytes := l @ r @ g', il_len := length l + length r, il_cursor := length l\<rparr>) l r g'"
  using assms shift_down_correct[OF assms(2), of l r g] by (auto simp: holds_def)

lemma delete_range_removes:
  assumes "holds line (l @ d) r g" "0 < length d"
  shows "\<exists>g' line'. delete_range (length l) (length l + length d) line = Ret line' \<and>
    holds (line'\<lparr>il_cursor := length l\<rparr>) l r g'"
  using assms shift_down_removes[of line l d r g] by (auto simp: holds_def delete_range_def Let_def)

lemma delete_range_removes_after:
  assumes "holds line l (d @ r) g" "0 < length d"
  shows "\<exists>g' line'. delete_range (length l) (length l + length d) line = Ret line' \<and> holds line' l r g'"
  using assms shift_down_removes[of line l d r g] by (auto simp: holds_def delete_range_def Let_def add.assoc)

lemma holds_cursor:
  "holds line l r g \<Longrightarrow> k \<le> length l \<Longrightarrow> holds (line\<lparr>il_cursor := k\<rparr>) (take k l) (drop k l @ r) g"
  "holds line l r g \<Longrightarrow> k \<le> length r \<Longrightarrow> holds (line\<lparr>il_cursor := length l + k\<rparr>) (l @ take k r) (drop k r) g"
  by (auto simp: holds_def list_all_iff dest: in_set_takeD in_set_dropD)

lemma delete_word_left_edits:
  assumes "holds line l r g" "l \<noteq> []"
  shows "edits_to (delete_word_left line) (True, take (length l - word_length (rev l)) l, r)"
proof -
  let ?k = "length l - word_length (rev l)"
  have pos: "0 < word_length (rev l)" "word_length (rev l) \<le> length l"
    using assms(2) word_length_le[of "rev l"] by (simp_all add: word_length_pos)
  then have k: "?k < length l" by linarith
  have "holds line (take ?k l @ drop ?k l) r g" using assms(1) by simp
  from delete_range_removes[OF this] k
  obtain g' line' where "delete_range ?k (length l) line = Ret line'" "holds (line'\<lparr>il_cursor := ?k\<rparr>) (take ?k l) r g'"
    by (auto simp: min_def)
  moreover from this(1) have "delete_word_left line = Ret (True, line'\<lparr>il_cursor := ?k\<rparr>)"
    using assms(1) k by (simp add: delete_word_left_def previous_word_boundary_correct[OF assms(1)] holds_def)
  ultimately show ?thesis by (blast intro: edits_toI)
qed

lemma delete_word_right_edits:
  assumes "holds line l r g" "r \<noteq> []"
  shows "edits_to (delete_word_right line) (True, l, drop (word_length r) r)"
proof -
  let ?k = "word_length r"
  have pos: "0 < ?k" "?k \<le> length r" using assms(2) by (simp_all add: word_length_pos word_length_le)
  have "holds line l (take ?k r @ drop ?k r) g" using assms(1) by simp
  from delete_range_removes_after[OF this] pos
  obtain g' line' where "delete_range (length l) (length l + ?k) line = Ret line'" "holds line' l (drop ?k r) g'"
    by (auto simp: min_absorb2)
  moreover from this(1) have "delete_word_right line = Ret (True, line')"
    using assms(1) pos by (simp add: delete_word_right_def next_word_boundary_correct[OF assms(1)] holds_def)
  ultimately show ?thesis by (blast intro: edits_toI)
qed

lemma backspace_edits:
  assumes "holds line l r g" "l \<noteq> []"
  shows "edits_to (line_backspace line) (True, butlast l, r)"
proof -
  from assms(2) obtain l' x where l: "l = l' @ [x]" by (cases l rule: rev_cases) auto
  then show ?thesis
    using assms(1) shift_down_removes[of line l' "[x]" r g]
    by (auto simp: line_backspace_def holds_def Let_def edits_to_def intro!: exI)
qed

lemma delete_edits:
  assumes "holds line l (x # r) g"
  shows "edits_to (line_delete line) (True, l, r)"
  using assms shift_down_removes[of line l "[x]" r g]
  by (auto simp: line_delete_def holds_def edits_to_def intro!: exI)

lemma run_edit_refines:
  assumes "holds line l r g"
  shows "edits_to (run_edit x line) (spec_edit x (l, r))"
proof (cases x)
  case (EditChar c ov)
  show ?thesis
  proof (cases "is_ascii c \<and> ov \<and> r \<noteq> []")
    case True
    then obtain y r' where "r = y # r'" by (cases r) auto
    with True assms overwrite_char_edits show ?thesis by (auto simp: EditChar)
  next
    case False
    then show ?thesis
      using assms insert_char_edits[OF assms, of c]
      by (auto simp: EditChar insert_or_overwrite_char_def holds_def intro: edits_toI)
  qed
next
  case (EditAppend t)
  have "length (il_bytes line) = INPUT_LINE_MAX" "il_len line = length l + length r" using assms by (simp_all add: holds_def)
  then show ?thesis
    using append_str_edits[OF assms, of t] assms by (auto simp: EditAppend append_str_def not_less intro: edits_toI)
next
  case (EditSet t)
  have "length (il_bytes line) = INPUT_LINE_MAX" using assms by (simp add: holds_def)
  then show ?thesis
    using set_from_str_edits[OF assms, of t] assms by (auto simp: EditSet set_from_str_def not_less intro: edits_toI)
next
  case EditClear
  have "holds (line_clear line) [] [] (l @ r @ g)" using assms by (simp add: holds_def line_clear_def)
  then show ?thesis by (auto simp: EditClear intro: edits_toI)
next
  case EditBackspace
  then show ?thesis
    using assms backspace_edits[OF assms] by (auto simp: line_backspace_def holds_def intro: edits_toI)
next
  case EditDelete
  show ?thesis
  proof (cases r)
    case Nil
    with assms show ?thesis by (auto simp: EditDelete line_delete_def holds_def intro: edits_toI)
  qed (use assms delete_edits in \<open>auto simp: EditDelete\<close>)
next
  case EditLeft
  show ?thesis
  proof (cases l rule: rev_cases)
    case (snoc l' y)
    with holds_cursor(1)[OF assms, of "length l'"] assms show ?thesis
      by (auto simp: EditLeft move_left_def holds_def intro: edits_toI)
  qed (use assms in \<open>auto simp: EditLeft move_left_def holds_def intro: edits_toI\<close>)
next
  case EditRight
  show ?thesis
  proof (cases r)
    case (Cons y r')
    with holds_cursor(2)[OF assms, of 1] assms show ?thesis
      by (auto simp: EditRight move_right_def holds_def intro: edits_toI)
  qed (use assms in \<open>auto simp: EditRight move_right_def holds_def intro: edits_toI\<close>)
next
  case EditHome
  then show ?thesis
    using holds_cursor(1)[OF assms, of 0] assms by (auto simp: move_home_def holds_def intro: edits_toI)
next
  case EditEnd
  then show ?thesis
    using holds_cursor(2)[OF assms, of "length r"] assms by (auto simp: move_end_def holds_def intro: edits_toI)
next
  case EditWordLeft
  have c: "il_cursor line = length l" using assms by (simp add: holds_def)
  have "l \<noteq> [] \<Longrightarrow> length l - word_length (rev l) < length l" using word_length_pos[of "rev l"] by simp
  then show ?thesis
    using holds_cursor(1)[OF assms, of "length l - word_length (rev l)"] assms
    by (auto simp: EditWordLeft move_word_left_def previous_word_boundary_correct[OF assms] c Let_def intro: edits_toI)
next
  case EditWordRight
  have c: "il_cursor line = length l" using assms by (simp add: holds_def)
  have n: "r = [] \<longleftrightarrow> word_length r = 0" using word_length_pos[of r] by (cases "r = []") (simp_all add: word_length_def)
  show ?thesis
    using holds_cursor(2)[OF assms word_length_le] assms
    by (auto simp: EditWordRight move_word_right_def next_word_boundary_correct[OF assms] c n Let_def intro: edits_toI)
next
  case EditDeleteWordLeft
  have "l = [] \<Longrightarrow> delete_word_left line = Ret (False, line)"
    using assms by (simp add: delete_word_left_def previous_word_boundary_correct[OF assms] holds_def)
  with delete_word_left_edits[OF assms] assms show ?thesis by (auto simp: EditDeleteWordLeft intro: edits_toI)
next
  case EditDeleteWordRight
  have "r = [] \<Longrightarrow> delete_word_right line = Ret (False, line)"
    using assms by (simp add: delete_word_right_def next_word_boundary_correct[OF assms] holds_def word_length_def)
  with delete_word_right_edits[OF assms] assms show ?thesis by (auto simp: EditDeleteWordRight intro: edits_toI)
qed

interpretation line_editor: refined_machine run_edit spec_edit line_view line_ok "\<lambda>_. True"
proof
  fix line x
  assume "line_ok line"
  then obtain l r g where h: "holds line l r g" "line_view line = (l, r)" by (rule ok_holds)
  from run_edit_refines[OF h(1), of x] h(2)
  show "\<exists>b line'. run_edit x line = Ret (b, line') \<and> line_ok line' \<and> spec_edit x (line_view line) = (b, line_view line')"
    by (auto simp: edits_to_def dest!: holds_ok)
qed

lemma line_new_ok: "line_ok line_new" "line_view line_new = ([], [])"
  by (simp_all add: line_ok_def line_view_def line_new_def)

lemma line_strings:
  assumes "line_ok line" "line_view line = (l, r)"
  shows "line_as_str line = Ret (l @ r)" "as_prefix_str line = Ret l"
proof -
  from assms(1) obtain l' r' g where h: "holds line l' r' g" "line_view line = (l', r')" by (rule ok_holds)
  with assms(2) show "line_as_str line = Ret (l @ r)" "as_prefix_str line = Ret l"
    by (auto simp: holds_def line_as_str_def as_prefix_str_def slice_to_def from_utf8_or_empty_def ascii_utf8)
qed

section \<open>Properties\<close>

text \<open>
  C8. The line editor: whatever sequence of edits is applied to a line, starting from an empty one, no
  edit indexes out of its buffer or overflows, and the buffer shows exactly the text and the cursor of
  an abstract editor that keeps the text before and after the cursor: insertion and overwriting, the two
  deletions, the motions by character and by word in both directions and the deletions by word, with the
  same report of success. The text never exceeds 128 bytes, and reading the buffer gives it back.
\<close>

theorem line_editor_refines:
  "\<exists>rs line l r. run_calls run_edit ops line_new = Ret (rs, line) \<and> line_ok line \<and> line_view line = (l, r) \<and>
     spec_calls spec_edit ops ([], []) = (rs, (l, r)) \<and>
     line_as_str line = Ret (l @ r) \<and> as_prefix_str line = Ret l \<and> length (l @ r) \<le> INPUT_LINE_MAX"
proof -
  obtain rs line where run: "run_calls run_edit ops line_new = Ret (rs, line)" "line_ok line"
    "spec_calls spec_edit ops ([], []) = (rs, line_view line)"
    using line_editor.calls_refine[OF line_new_ok(1), of ops] by (auto simp: line_new_ok list_all_iff)
  obtain l r where v: "line_view line = (l, r)" by (cases "line_view line")
  have "length (l @ r) \<le> INPUT_LINE_MAX" using run(2) v by (auto simp: line_ok_def line_view_def)
  with run v line_strings[OF run(2) v] show ?thesis by auto
qed

end
