(* ===== verification/Command_History.thy ===== *)
theory Command_History
  imports Input_Line
begin

text \<open>
  The command history of the monitor, \<open>CommandHistory\<close> of \<open>kernel/src/main.rs\<close>: a ring of sixteen
  entries with the age the user is browsing at.
\<close>

section \<open>The ring\<close>

definition HISTORY_CAPACITY :: nat where "HISTORY_CAPACITY = 16"

record HistoryEntry =
  he_bytes :: "char list"
  he_len :: nat

definition entry_empty :: HistoryEntry where
  "entry_empty = \<lparr>he_bytes = replicate INPUT_LINE_MAX CHR 0x00, he_len = 0\<rparr>"

definition set_from_line :: "InputLine \<Rightarrow> HistoryEntry \<Rightarrow> HistoryEntry run" where
  "set_from_line line entry =
     bind_run (slice_to (il_bytes line) (il_len line)) (\<lambda>source.
     bind_run (copy_from_slice (he_bytes entry) 0 (il_len line) source) (\<lambda>bs.
     Ret (entry\<lparr>he_len := il_len line, he_bytes := bs\<rparr>)))"

definition entry_as_str :: "HistoryEntry \<Rightarrow> string run" where
  "entry_as_str entry = bind_run (slice_to (he_bytes entry) (he_len entry)) (\<lambda>bs. Ret (from_utf8_or_empty bs))"

record CommandHistory =
  ch_entries :: "HistoryEntry list"
  ch_len :: nat
  ch_next_insert :: nat
  ch_browsing_age :: "nat option"

definition history_new :: CommandHistory where
  "history_new = \<lparr>ch_entries = replicate HISTORY_CAPACITY entry_empty, ch_len = 0, ch_next_insert = 0,
     ch_browsing_age = None\<rparr>"

definition entry_by_age :: "nat \<Rightarrow> CommandHistory \<Rightarrow> HistoryEntry option run" where
  "entry_by_age age_from_newest h =
     (if ch_len h \<le> age_from_newest then Ret None else
      bind_run (sub_usize (ch_next_insert h + HISTORY_CAPACITY) 1) (\<lambda>n.
      let newest_index = n mod HISTORY_CAPACITY
      in bind_run (sub_usize (newest_index + HISTORY_CAPACITY) age_from_newest) (\<lambda>i.
         bind_run (arr_get (ch_entries h) (i mod HISTORY_CAPACITY)) (\<lambda>entry. Ret (Some entry)))))"

definition push_line :: "InputLine \<Rightarrow> CommandHistory \<Rightarrow> CommandHistory run" where
  "push_line line h =
     (if line_is_empty line then Ret h else
      bind_run (entry_by_age 0 h) (\<lambda>newest.
      bind_run (case newest of
          None \<Rightarrow> Ret False
        | Some entry \<Rightarrow> bind_run (entry_as_str entry) (\<lambda>s. bind_run (line_as_str line) (\<lambda>t. Ret (s = t))))
        (\<lambda>same.
         if same then Ret (h\<lparr>ch_browsing_age := None\<rparr>) else
         bind_run (arr_get (ch_entries h) (ch_next_insert h)) (\<lambda>entry.
         bind_run (set_from_line line entry) (\<lambda>entry.
         bind_run (arr_set (ch_entries h) (ch_next_insert h) entry) (\<lambda>entries.
         Ret (h\<lparr>ch_entries := entries, ch_next_insert := (ch_next_insert h + 1) mod HISTORY_CAPACITY,
           ch_len := (if ch_len h < HISTORY_CAPACITY then ch_len h + 1 else ch_len h),
           ch_browsing_age := None\<rparr>)))))))"

definition history_previous :: "CommandHistory \<Rightarrow> (HistoryEntry option \<times> CommandHistory) run" where
  "history_previous h =
     (if ch_len h = 0 then Ret (None, h) else
      let next_age = (case ch_browsing_age h of None \<Rightarrow> 0 | Some age \<Rightarrow> min (age + 1) (ch_len h - 1));
          h = h\<lparr>ch_browsing_age := Some next_age\<rparr>
      in bind_run (entry_by_age next_age h) (\<lambda>entry. Ret (entry, h)))"

definition history_next :: "CommandHistory \<Rightarrow> (HistoryEntry option \<times> CommandHistory) run" where
  "history_next h =
     (case ch_browsing_age h of
        None \<Rightarrow> Ret (None, h)
      | Some age \<Rightarrow>
          if age = 0 then Ret (None, h\<lparr>ch_browsing_age := None\<rparr>)
          else let next_age = age - 1; h = h\<lparr>ch_browsing_age := Some next_age\<rparr>
               in bind_run (entry_by_age next_age h) (\<lambda>entry. Ret (entry, h)))"

definition reset_browsing :: "CommandHistory \<Rightarrow> CommandHistory" where
  "reset_browsing h = h\<lparr>ch_browsing_age := None\<rparr>"

text \<open>The entries \<open>print_oldest_first\<close> lists, with their numbers from 1 on.\<close>

fun oldest_first_loop :: "nat list \<Rightarrow> CommandHistory \<Rightarrow> (nat \<times> string) list run" where
  "oldest_first_loop [] h = Ret []"
| "oldest_first_loop (index # is) h =
     bind_run (sub_usize (ch_len h - 1) index) (\<lambda>age.
     bind_run (entry_by_age age h) (\<lambda>e.
     bind_run (case e of None \<Rightarrow> Ret [] | Some entry \<Rightarrow> bind_run (entry_as_str entry) (\<lambda>s. Ret [(index + 1, s)])) (\<lambda>line.
     bind_run (oldest_first_loop is h) (\<lambda>lines. Ret (line @ lines)))))"

definition history_lines :: "CommandHistory \<Rightarrow> (nat \<times> string) list run" where
  "history_lines h = oldest_first_loop [0..<ch_len h] h"

section \<open>The abstract history\<close>

text \<open>The commands, newest first, and the age of the one shown.\<close>

type_synonym history = "string list \<times> nat option"

datatype history_op = HistPush string | HistPrevious | HistNext | HistReset

fun spec_history :: "history_op \<Rightarrow> history \<Rightarrow> string option \<times> history" where
  "spec_history (HistPush text) (xs, browsing) =
     (if text = [] then (None, (xs, browsing))
      else if xs \<noteq> [] \<and> hd xs = text then (None, (xs, None))
      else (None, (take HISTORY_CAPACITY (text # xs), None)))"
| "spec_history HistPrevious (xs, browsing) =
     (if xs = [] then (None, (xs, browsing))
      else let age = (case browsing of None \<Rightarrow> 0 | Some age \<Rightarrow> min (age + 1) (length xs - 1))
           in (Some (xs ! age), (xs, Some age)))"
| "spec_history HistNext (xs, browsing) =
     (case browsing of
        None \<Rightarrow> (None, (xs, None))
      | Some 0 \<Rightarrow> (None, (xs, None))
      | Some (Suc age) \<Rightarrow> (Some (xs ! age), (xs, Some age)))"
| "spec_history HistReset (xs, browsing) = (None, (xs, None))"

text \<open>The code on the same operations; a pushed text is a line that holds it.\<close>

definition line_of :: "string \<Rightarrow> InputLine" where
  "line_of text = \<lparr>il_bytes = text @ replicate (INPUT_LINE_MAX - length text) CHR 0x00, il_len = length text,
     il_cursor = length text\<rparr>"

definition entry_text :: "HistoryEntry option \<times> CommandHistory \<Rightarrow> (string option \<times> CommandHistory) run" where
  "entry_text = (\<lambda>(e, h). case e of None \<Rightarrow> Ret (None, h) | Some entry \<Rightarrow> bind_run (entry_as_str entry) (\<lambda>s. Ret (Some s, h)))"

fun run_history :: "history_op \<Rightarrow> CommandHistory \<Rightarrow> (string option \<times> CommandHistory) run" where
  "run_history (HistPush text) h = bind_run (push_line (line_of text) h) (\<lambda>h. Ret (None, h))"
| "run_history HistPrevious h = bind_run (history_previous h) entry_text"
| "run_history HistNext h = bind_run (history_next h) entry_text"
| "run_history HistReset h = Ret (None, reset_browsing h)"

section \<open>The ring as a list\<close>

definition entry_ok :: "HistoryEntry \<Rightarrow> bool" where
  "entry_ok e \<longleftrightarrow> length (he_bytes e) = INPUT_LINE_MAX \<and> he_len e \<le> INPUT_LINE_MAX \<and>
     list_all is_ascii (take (he_len e) (he_bytes e))"

definition entry_str :: "HistoryEntry \<Rightarrow> string" where
  "entry_str e = take (he_len e) (he_bytes e)"

definition ring_index :: "nat \<Rightarrow> nat \<Rightarrow> nat" where
  "ring_index next age = (next + 31 - age) mod HISTORY_CAPACITY"

definition hist_ok :: "CommandHistory \<Rightarrow> bool" where
  "hist_ok h \<longleftrightarrow> length (ch_entries h) = HISTORY_CAPACITY \<and> list_all entry_ok (ch_entries h) \<and>
     ch_len h \<le> HISTORY_CAPACITY \<and> ch_next_insert h < HISTORY_CAPACITY \<and>
     (case ch_browsing_age h of None \<Rightarrow> True | Some age \<Rightarrow> age < ch_len h)"

definition hist_texts :: "CommandHistory \<Rightarrow> string list" where
  "hist_texts h = map (\<lambda>age. entry_str (ch_entries h ! ring_index (ch_next_insert h) age)) [0..<ch_len h]"

definition hist_view :: "CommandHistory \<Rightarrow> history" where
  "hist_view h = (hist_texts h, ch_browsing_age h)"

lemma length_hist_texts [simp]: "length (hist_texts h) = ch_len h"
  by (simp add: hist_texts_def)

lemma entry_as_str_ok: "entry_ok e \<Longrightarrow> entry_as_str e = Ret (entry_str e)"
  by (simp add: entry_ok_def entry_as_str_def entry_str_def slice_to_def from_utf8_or_empty_def ascii_utf8)

lemma ring_index_less [simp]: "ring_index n a < 16"
  by (simp add: ring_index_def HISTORY_CAPACITY_def)

lemma entry_by_age_ok:
  assumes "hist_ok h" "age < ch_len h"
  shows "entry_by_age age h = Ret (Some (ch_entries h ! ring_index (ch_next_insert h) age))"
    and "entry_ok (ch_entries h ! ring_index (ch_next_insert h) age)"
    and "entry_str (ch_entries h ! ring_index (ch_next_insert h) age) = hist_texts h ! age"
proof -
  let ?n = "ch_next_insert h"
  have b: "?n < 16" "age < 16" "length (ch_entries h) = 16" using assms by (auto simp: hist_ok_def HISTORY_CAPACITY_def)
  have "((?n + 16 - 1) mod 16 + 16 - age) mod 16 = (?n + 31 - age) mod 16"
  proof (cases ?n)
    case (Suc m)
    then have "(?n + 16 - 1) mod 16 + 16 - age = m + 16 - age" "?n + 31 - age = m + 16 - age + 16" using b by auto
    then show ?thesis by simp
  qed simp
  with b assms show "entry_by_age age h = Ret (Some (ch_entries h ! ring_index ?n age))"
    by (simp add: entry_by_age_def ring_index_def HISTORY_CAPACITY_def Let_def)
  show "entry_ok (ch_entries h ! ring_index ?n age)"
    using assms(1) b(3) ring_index_less[of ?n age] by (simp add: hist_ok_def list_all_length)
  show "entry_str (ch_entries h ! ring_index ?n age) = hist_texts h ! age"
    using assms(2) by (simp add: hist_texts_def)
qed

lemma set_from_line_ok:
  assumes "line_ok line" "entry_ok e" "line_as_str line = Ret t"
  shows "\<exists>e'. set_from_line line e = Ret e' \<and> entry_ok e' \<and> entry_str e' = t"
proof -
  let ?n = "il_len line"
  have "take ?n (il_bytes line) = t"
    using assms(1,3) by (simp add: line_ok_def line_as_str_def slice_to_def from_utf8_or_empty_def ascii_utf8)
  moreover from this assms(1) have "length t = ?n" by (auto simp: line_ok_def)
  moreover have "length (he_bytes e) = INPUT_LINE_MAX" "length (il_bytes line) = INPUT_LINE_MAX" "?n \<le> INPUT_LINE_MAX"
    "list_all is_ascii (take ?n (il_bytes line))"
    using assms(1,2) by (simp_all add: line_ok_def entry_ok_def)
  ultimately show ?thesis
    by (simp add: set_from_line_def slice_to_def copy_from_slice_def entry_ok_def entry_str_def)
qed

lemma ring_index_step:
  assumes "n < 16" "i < 16"
  shows "ring_index ((n + 1) mod 16) i = (if i = 0 then n else ring_index n (i - 1))"
    and "i \<noteq> 0 \<Longrightarrow> ring_index n (i - 1) \<noteq> n"
proof -
  consider (inner) "(n + 1) mod 16 = n + 1" | (wrap) "n = 15" using assms(1) by fastforce
  then show "ring_index ((n + 1) mod 16) i = (if i = 0 then n else ring_index n (i - 1))"
  proof cases
    case inner
    have "(n + 1 + 31) mod 16 = n" using assms(1) by presburger
    with inner assms show ?thesis by (cases i) (simp_all add: ring_index_def HISTORY_CAPACITY_def add.commute)
  next
    case wrap
    show ?thesis
    proof (cases i)
      case (Suc j)
      with assms(2) have "46 - j = 30 - j + 16" by simp
      then have "(46 - j) mod 16 = (30 - j) mod 16" by (simp only: mod_add_self2)
      then show ?thesis by (simp add: wrap Suc ring_index_def HISTORY_CAPACITY_def)
    qed (simp add: wrap ring_index_def HISTORY_CAPACITY_def)
  qed
  assume "i \<noteq> 0"
  with assms have "n + 31 - (i - 1) = (n + (16 - i)) + 16" by simp
  moreover have "(n + (16 - i)) mod 16 \<noteq> n"
  proof (cases "i \<le> n")
    case True
    with assms(2) have "n + (16 - i) = n - i + 16" by simp
    moreover have "n - i < 16" "n - i \<noteq> n" using assms(1) True \<open>i \<noteq> 0\<close> by simp_all
    ultimately show ?thesis by simp
  qed (use assms \<open>i \<noteq> 0\<close> in simp)
  ultimately show "ring_index n (i - 1) \<noteq> n" unfolding ring_index_def HISTORY_CAPACITY_def by (simp only: mod_add_self2 not_False_eq_True)
qed

lemma list_all_update: "list_all P xs \<Longrightarrow> P x \<Longrightarrow> list_all P (xs[i := x])"
  by (auto simp: list_all_iff dest!: set_update_subset_insert[THEN subsetD])

text \<open>Writing at the insertion index puts a text in front and drops the oldest of a full ring.\<close>

lemma hist_texts_insert:
  assumes "hist_ok h"
  shows "hist_texts (h\<lparr>ch_entries := (ch_entries h)[ch_next_insert h := e],
      ch_next_insert := (ch_next_insert h + 1) mod HISTORY_CAPACITY,
      ch_len := (if ch_len h < HISTORY_CAPACITY then ch_len h + 1 else ch_len h), ch_browsing_age := None\<rparr>) =
    take HISTORY_CAPACITY (entry_str e # hist_texts h)" (is "hist_texts ?h = _")
proof (rule nth_equalityI)
  let ?n = "ch_next_insert h"
  have b: "?n < 16" "ch_len h \<le> 16" "length (ch_entries h) = 16" using assms by (auto simp: hist_ok_def HISTORY_CAPACITY_def)
  show "length (hist_texts ?h) = length (take HISTORY_CAPACITY (entry_str e # hist_texts h))"
    using b by (simp add: HISTORY_CAPACITY_def min_def)
  fix i
  assume "i < length (hist_texts ?h)"
  then have i: "i < 16" "i \<le> ch_len h" using b by (auto simp: HISTORY_CAPACITY_def split: if_splits)
  note idx = ring_index_step[OF b(1) i(1)]
  show "hist_texts ?h ! i = take HISTORY_CAPACITY (entry_str e # hist_texts h) ! i"
  proof (cases i)
    case 0
    with b idx(1) show ?thesis by (simp add: hist_texts_def HISTORY_CAPACITY_def nth_append)
  next
    case (Suc j)
    with i have "hist_texts h ! j = entry_str (ch_entries h ! ring_index ?n j)" by (simp add: hist_texts_def)
    with Suc i b idx show ?thesis by (auto simp: hist_texts_def HISTORY_CAPACITY_def)
  qed
qed

lemma push_line_refines:
  assumes "hist_ok h" "line_ok line" "line_as_str line = Ret t"
  shows "\<exists>h'. push_line line h = Ret h' \<and> hist_ok h' \<and> spec_history (HistPush t) (hist_view h) = (None, hist_view h')"
proof -
  have "line_is_empty line \<longleftrightarrow> t = []"
    using assms(2,3) by (auto simp: line_is_empty_def line_ok_def line_as_str_def slice_to_def from_utf8_or_empty_def ascii_utf8)
  show ?thesis
  proof (cases "t = [] \<or> (ch_len h \<noteq> 0 \<and> hist_texts h ! 0 = t)")
    case True
    note same = entry_by_age_ok[OF assms(1), of 0]
    with True assms \<open>line_is_empty line \<longleftrightarrow> t = []\<close> show ?thesis
      by (cases "t = []") (auto simp: push_line_def hist_view_def entry_as_str_ok hd_conv_nth hist_ok_def hist_texts_def)
  next
    case False
    have n: "ch_next_insert h < length (ch_entries h)" using assms(1) by (simp add: hist_ok_def)
    then have "entry_ok (ch_entries h ! ch_next_insert h)" using assms(1) by (simp add: hist_ok_def list_all_length)
    then obtain e where e: "set_from_line line (ch_entries h ! ch_next_insert h) = Ret e" "entry_ok e" "entry_str e = t"
      using set_from_line_ok[OF assms(2) _ assms(3)] by blast
    let ?h = "h\<lparr>ch_entries := (ch_entries h)[ch_next_insert h := e],
      ch_next_insert := (ch_next_insert h + 1) mod HISTORY_CAPACITY,
      ch_len := (if ch_len h < HISTORY_CAPACITY then ch_len h + 1 else ch_len h), ch_browsing_age := None\<rparr>"
    have test: "bind_run (entry_by_age 0 h) (\<lambda>newest. bind_run (case newest of
          None \<Rightarrow> Ret False
        | Some entry \<Rightarrow> bind_run (entry_as_str entry) (\<lambda>s. bind_run (line_as_str line) (\<lambda>t. Ret (s = t)))) F) = F False" for F
    proof (cases "ch_len h = 0")
      case True
      then show ?thesis by (simp add: entry_by_age_def)
    next
      case nonempty: False
      then show ?thesis
        using False assms(3) entry_by_age_ok[OF assms(1), of 0] by (simp add: entry_as_str_ok)
    qed
    have "push_line line h = Ret ?h"
      using False n e(1) \<open>line_is_empty line \<longleftrightarrow> t = []\<close> by (simp add: push_line_def test)
    moreover have "hist_ok ?h"
      using assms(1) e(2) by (simp add: hist_ok_def HISTORY_CAPACITY_def list_all_update)
    moreover have "hist_texts h = [] \<or> hd (hist_texts h) \<noteq> t"
      using False length_hist_texts[of h] by (cases "hist_texts h") auto
    then have "spec_history (HistPush t) (hist_view h) = (None, hist_view ?h)"
      using False hist_texts_insert[OF assms(1), of e] e(3) by (auto simp: hist_view_def)
    ultimately show ?thesis by blast
  qed
qed

lemma previous_refines:
  assumes "hist_ok h"
  shows "\<exists>r h'. run_history HistPrevious h = Ret (r, h') \<and> hist_ok h' \<and> spec_history HistPrevious (hist_view h) = (r, hist_view h')"
proof (cases "ch_len h = 0")
  case True
  then show ?thesis using assms by (auto simp: history_previous_def hist_view_def entry_text_def hist_texts_def)
next
  case False
  define a where "a = (case ch_browsing_age h of None \<Rightarrow> 0 | Some age \<Rightarrow> min (age + 1) (ch_len h - 1))"
  let ?h = "h\<lparr>ch_browsing_age := Some a\<rparr>"
  have a: "a < ch_len h" using False by (auto simp: a_def split: option.split)
  have ok: "hist_ok ?h" using assms a by (simp add: hist_ok_def)
  have eq: "hist_texts ?h = hist_texts h" "hist_texts h \<noteq> []" using False by (auto simp: hist_texts_def)
  have "run_history HistPrevious h = Ret (Some (hist_texts h ! a), ?h)"
    using entry_by_age_ok[OF ok, of a] a False eq
    by (simp add: history_previous_def entry_text_def entry_as_str_ok Let_def flip: a_def)
  moreover have "spec_history HistPrevious (hist_view h) = (Some (hist_texts h ! a), hist_view ?h)"
    using eq by (simp add: hist_view_def Let_def a_def cong: option.case_cong)
  ultimately show ?thesis using ok by blast
qed

lemma next_refines:
  assumes "hist_ok h"
  shows "\<exists>r h'. run_history HistNext h = Ret (r, h') \<and> hist_ok h' \<and> spec_history HistNext (hist_view h) = (r, hist_view h')"
proof (cases "ch_browsing_age h")
  case None
  then show ?thesis using assms by (auto simp: history_next_def hist_view_def entry_text_def)
next
  case (Some age)
  then have age: "age < ch_len h" using assms by (simp add: hist_ok_def)
  show ?thesis
  proof (cases age)
    case 0
    have "hist_ok (h\<lparr>ch_browsing_age := None\<rparr>)" using assms by (simp add: hist_ok_def)
    with Some 0 show ?thesis
      by (simp add: history_next_def hist_view_def entry_text_def hist_texts_def)
  next
    case (Suc a)
    let ?h = "h\<lparr>ch_browsing_age := Some a\<rparr>"
    have ok: "hist_ok ?h" using assms age Suc by (simp add: hist_ok_def)
    have "hist_texts ?h = hist_texts h" by (simp add: hist_texts_def)
    with entry_by_age_ok[OF ok, of a] Some Suc age ok show ?thesis
      by (auto simp: history_next_def hist_view_def entry_text_def entry_as_str_ok Let_def)
  qed
qed

lemma line_of_ok:
  assumes "list_all is_ascii t" "length t \<le> INPUT_LINE_MAX"
  shows "line_ok (line_of t)" "line_as_str (line_of t) = Ret t"
proof -
  have "holds (line_of t) t [] (replicate (INPUT_LINE_MAX - length t) CHR 0x00)"
    using assms by (simp add: holds_def line_of_def)
  then show "line_ok (line_of t)" "line_as_str (line_of t) = Ret t"
    using holds_ok line_strings(1)[of "line_of t" t "[]"] by auto
qed

fun valid_history_op :: "history_op \<Rightarrow> bool" where
  "valid_history_op (HistPush t) \<longleftrightarrow> list_all is_ascii t \<and> length t \<le> INPUT_LINE_MAX"
| "valid_history_op _ \<longleftrightarrow> True"

interpretation command_history: refined_machine run_history spec_history hist_view hist_ok valid_history_op
proof
  fix h x
  assume h: "hist_ok h" "valid_history_op x"
  show "\<exists>r h'. run_history x h = Ret (r, h') \<and> hist_ok h' \<and> spec_history x (hist_view h) = (r, hist_view h')"
  proof (cases x)
    case (HistPush t)
    with h push_line_refines[OF h(1) line_of_ok] show ?thesis by fastforce
  next
    case HistReset
    have "hist_ok (reset_browsing h)" using h by (simp add: hist_ok_def reset_browsing_def)
    with HistReset show ?thesis by (simp add: hist_view_def reset_browsing_def hist_texts_def)
  qed (use h previous_refines next_refines in simp_all)
qed

lemma history_new_ok: "hist_ok history_new" "hist_view history_new = ([], None)"
  by (simp_all add: hist_ok_def history_new_def hist_view_def hist_texts_def HISTORY_CAPACITY_def entry_ok_def
      entry_empty_def list_all_iff)

text \<open>Printing lists the texts from the oldest on.\<close>

lemma oldest_first_loop_ok:
  "hist_ok h \<Longrightarrow> list_all (\<lambda>i. i < ch_len h) is \<Longrightarrow>
   oldest_first_loop is h = Ret (map (\<lambda>i. (i + 1, rev (hist_texts h) ! i)) is)"
proof (induction "is")
  case (Cons i "is")
  then have "entry_by_age (ch_len h - Suc i) h = Ret (Some (ch_entries h ! ring_index (ch_next_insert h) (ch_len h - Suc i)))"
    "entry_as_str (ch_entries h ! ring_index (ch_next_insert h) (ch_len h - Suc i)) = Ret (hist_texts h ! (ch_len h - Suc i))"
    using entry_by_age_ok[OF Cons.prems(1), of "ch_len h - Suc i"] by (simp_all add: entry_as_str_ok)
  moreover have "sub_usize (ch_len h - 1) i = Ret (ch_len h - Suc i)" using Cons.prems by (auto simp: sub_usize_def)
  ultimately show ?case using Cons by (simp add: rev_nth)
qed simp

lemma history_lines_ok:
  "hist_ok h \<Longrightarrow> history_lines h = Ret (zip [1..<ch_len h + 1] (rev (hist_texts h)))"
  by (simp add: history_lines_def oldest_first_loop_ok list_all_iff del: upt_Suc) (auto intro!: nth_equalityI simp del: upt_Suc)

text \<open>What the abstract history keeps: at most sixteen texts, none empty, none twice in a row.\<close>

definition clean_history :: "history \<Rightarrow> bool" where
  "clean_history a \<longleftrightarrow> length (fst a) \<le> HISTORY_CAPACITY \<and> [] \<notin> set (fst a) \<and>
     (\<forall>i. Suc i < length (fst a) \<longrightarrow> fst a ! i \<noteq> fst a ! Suc i)"

lemma spec_history_clean:
  assumes "clean_history a" "spec_history x a = (r, a')"
  shows "clean_history a'"
proof -
  obtain xs b where a: "a = (xs, b)" by (cases a)
  show ?thesis
  proof (cases x)
    case (HistPush t)
    show ?thesis
    proof (cases "t = [] \<or> xs \<noteq> [] \<and> hd xs = t")
      case False
      then have "a' = (take HISTORY_CAPACITY (t # xs), None)" using assms(2) by (auto simp: a HistPush)
      moreover have "(t # xs) ! i \<noteq> (t # xs) ! Suc i" if "Suc i < length (t # xs)" for i
        using that assms(1) False by (cases i) (auto simp: a clean_history_def hd_conv_nth)
      ultimately show ?thesis
        using assms(1) False by (auto simp: a clean_history_def dest: in_set_takeD)
    qed (use assms in \<open>auto simp: a HistPush clean_history_def split: if_splits\<close>)
  qed (use assms in \<open>auto simp: a clean_history_def Let_def split: if_splits option.splits nat.splits\<close>)
qed

section \<open>Properties\<close>

text \<open>
  C35. The command history: over any sequence of pushes and of browsing steps, the ring behaves as the
  list of the sixteen newest commands, never indexing outside its entries; browsing backwards stops at
  the oldest, browsing forward past the newest leaves the history; printing lists them oldest first,
  numbered from 1; and the history holds no empty command and none twice in a row.
\<close>

theorem command_history_refines:
  assumes "list_all valid_history_op ops"
  shows "\<exists>rs h. run_calls run_history ops history_new = Ret (rs, h) \<and> hist_ok h \<and>
    spec_calls spec_history ops ([], None) = (rs, hist_view h) \<and> clean_history (hist_view h) \<and>
    history_lines h = Ret (zip [1..<ch_len h + 1] (rev (fst (hist_view h))))"
proof -
  obtain rs h where run: "run_calls run_history ops history_new = Ret (rs, h)" "hist_ok h"
    "spec_calls spec_history ops ([], None) = (rs, hist_view h)"
    using command_history.calls_refine[OF history_new_ok(1) assms] by (auto simp: history_new_ok)
  have "clean_history (hist_view h)"
    by (rule command_history.calls_keep[OF history_new_ok(1) assms run(1)])
      (simp_all add: history_new_ok clean_history_def[of "([], None)"] spec_history_clean)
  with run history_lines_ok[OF run(2)] show ?thesis by (auto simp: hist_view_def)
qed

theorem command_history_refines_witness:
  "list_all valid_history_op [HistPush ''help'', HistPush ''help'', HistPush ''mem'', HistPrevious, HistPrevious] \<and>
   (\<exists>h. run_calls run_history [HistPush ''help'', HistPush ''help'', HistPush ''mem'', HistPrevious, HistPrevious] history_new =
      Ret ([None, None, None, Some ''mem'', Some ''help''], h))"
proof -
  have v: "list_all valid_history_op [HistPush ''help'', HistPush ''help'', HistPush ''mem'', HistPrevious, HistPrevious]"
    by (simp add: is_ascii_def INPUT_LINE_MAX_def)
  with command_history_refines[OF v] show ?thesis by (auto simp: HISTORY_CAPACITY_def)
qed

end
