(* ===== verification/Text_Format.thy ===== *)
theory Text_Format
  imports Input_Line
begin

text \<open>
  Reading and writing text: \<open>parse_u64\<close> of \<open>kernel/src/main.rs\<close>, with the parts of Rust's core library
  the monitor uses on command lines (\<open>split_whitespace\<close>, \<open>strip_prefix\<close>, \<open>from_str_radix\<close>) and in its
  format strings (decimal and hexadecimal integers, padding). Command lines are ASCII.
\<close>

section \<open>Splitting\<close>

definition is_whitespace :: "char \<Rightarrow> bool" where
  "is_whitespace c \<longleftrightarrow> char_between 9 13 c \<or> c = CHR 0x20"

function split_whitespace :: "string \<Rightarrow> string list" where
  "split_whitespace s =
     (let t = dropWhile is_whitespace s
      in if t = [] then []
         else takeWhile (\<lambda>c. \<not> is_whitespace c) t # split_whitespace (dropWhile (\<lambda>c. \<not> is_whitespace c) t))"
  by pat_completeness auto
termination
proof (relation "measure length", simp)
  fix s t :: string
  assume t: "t = dropWhile is_whitespace s" "t \<noteq> []"
  then obtain c u where "t = c # u" "\<not> is_whitespace c" by (metis hd_dropWhile list.collapse)
  then have "length (dropWhile (\<lambda>c. \<not> is_whitespace c) t) < length t"
    using length_dropWhile_le[of "\<lambda>c. \<not> is_whitespace c" u] by simp
  also have "\<dots> \<le> length s" using t(1) length_dropWhile_le[of is_whitespace s] by simp
  finally show "(dropWhile (\<lambda>c. \<not> is_whitespace c) t, s) \<in> measure length" by simp
qed

declare split_whitespace.simps [simp del]

definition trim_start :: "string \<Rightarrow> string" where
  "trim_start s = dropWhile is_whitespace s"

definition strip_prefix :: "string \<Rightarrow> string \<Rightarrow> string option" where
  "strip_prefix p s = (if take (length p) s = p then Some (drop (length p) s) else None)"

definition starts_with :: "string \<Rightarrow> string \<Rightarrow> bool" where
  "starts_with s p \<longleftrightarrow> take (length p) s = p"

section \<open>Parsing integers\<close>

definition to_digit :: "nat \<Rightarrow> char \<Rightarrow> nat option" where
  "to_digit radix c =
     (let n = of_char c;
          d = (if char_between 48 57 c then n - 48
               else if char_between 97 122 c then n - 87
               else if char_between 65 90 c then n - 55 else radix)
      in if d < radix then Some d else None)"

definition checked_mul :: "u64 \<Rightarrow> u64 \<Rightarrow> u64 option" where
  "checked_mul a b = (if unat a * unat b < 2 ^ 64 then Some (a * b) else None)"

fun radix_loop :: "nat \<Rightarrow> string \<Rightarrow> u64 \<Rightarrow> u64 option" where
  "radix_loop radix [] acc = Some acc"
| "radix_loop radix (c # cs) acc =
     (case checked_mul acc (of_nat radix) of
        None \<Rightarrow> None
      | Some m \<Rightarrow> (case to_digit radix c of
          None \<Rightarrow> None
        | Some d \<Rightarrow> (case checked_add m (of_nat d) of
            None \<Rightarrow> None
          | Some acc \<Rightarrow> radix_loop radix cs acc)))"

definition from_str_radix :: "nat \<Rightarrow> string \<Rightarrow> u64 option" where
  "from_str_radix radix s =
     (case s of
        [] \<Rightarrow> None
      | c # cs \<Rightarrow>
          if cs = [] \<and> (c = CHR ''+'' \<or> c = CHR ''-'') then None
          else if c = CHR ''+'' then radix_loop radix cs 0
          else radix_loop radix s 0)"

definition parse_u64 :: "string \<Rightarrow> u64 option" where
  "parse_u64 text =
     (case (case strip_prefix ''0x'' text of Some hex \<Rightarrow> Some hex | None \<Rightarrow> strip_prefix ''0X'' text) of
        Some hex \<Rightarrow> from_str_radix 16 hex
      | None \<Rightarrow> from_str_radix 10 text)"

section \<open>Formatting\<close>

definition digit_char :: "nat \<Rightarrow> char" where
  "digit_char d = char_of (if d < 10 then 48 + d else 87 + d)"

function fmt_radix :: "nat \<Rightarrow> nat \<Rightarrow> string" where
  "fmt_radix radix n =
     (if radix < 2 \<or> n < radix then [digit_char n] else fmt_radix radix (n div radix) @ [digit_char (n mod radix)])"
  by pat_completeness auto
termination by (relation "measure (\<lambda>(radix, n). n)") auto

declare fmt_radix.simps [simp del]

definition fmt_nat :: "nat \<Rightarrow> string" where
  "fmt_nat n = fmt_radix 10 n"

definition fmt_dec :: "'a::len word \<Rightarrow> string" where
  "fmt_dec w = fmt_nat (unat w)"

text \<open>\<open>{:#x}\<close>, and with a width as in \<open>{:#014x}\<close>, which counts the prefix.\<close>

definition fmt_hex :: "'a::len word \<Rightarrow> string" where
  "fmt_hex w = ''0x'' @ fmt_radix 16 (unat w)"

definition fmt_hex_width :: "nat \<Rightarrow> 'a::len word \<Rightarrow> string" where
  "fmt_hex_width width w =
     (let ds = fmt_radix 16 (unat w) in ''0x'' @ replicate (width - 2 - length ds) CHR ''0'' @ ds)"

text \<open>\<open>{:>3}\<close> and \<open>{:02}\<close>.\<close>

definition fmt_right :: "nat \<Rightarrow> string \<Rightarrow> string" where
  "fmt_right width s = replicate (width - length s) CHR 0x20 @ s"

definition fmt_zero :: "nat \<Rightarrow> string \<Rightarrow> string" where
  "fmt_zero width s = replicate (width - length s) CHR ''0'' @ s"

definition fmt_bool :: "bool \<Rightarrow> string" where
  "fmt_bool b = (if b then ''true'' else ''false'')"

text \<open>\<open>{:?}\<close> of an \<open>Option<u64>\<close>.\<close>

definition fmt_option :: "u64 option \<Rightarrow> string" where
  "fmt_option v = (case v of None \<Rightarrow> ''None'' | Some w \<Rightarrow> ''Some('' @ fmt_dec w @ '')'')"

section \<open>What is parsed\<close>

text \<open>The value of a digit string and the unbounded numeral a text denotes.\<close>

fun digits_value :: "nat \<Rightarrow> string \<Rightarrow> nat \<Rightarrow> nat option" where
  "digits_value radix [] acc = Some acc"
| "digits_value radix (c # cs) acc =
     (case to_digit radix c of None \<Rightarrow> None | Some d \<Rightarrow> digits_value radix cs (acc * radix + d))"

definition numeral_value :: "string \<Rightarrow> nat option" where
  "numeral_value text =
     (let hex = take 2 text = ''0x'' \<or> take 2 text = ''0X'';
          body = (if hex then drop 2 text else text);
          ds = (if body \<noteq> [] \<and> hd body = CHR ''+'' then tl body else body)
      in if ds = [] then None else digits_value (if hex then 16 else 10) ds 0)"

lemma to_digit_less: "to_digit radix c = Some d \<Longrightarrow> d < radix"
  by (auto simp: to_digit_def Let_def split: if_splits)

lemma digits_value_grows: "0 < radix \<Longrightarrow> digits_value radix cs acc = Some n \<Longrightarrow> acc \<le> n"
proof (induction cs arbitrary: acc)
  case (Cons c cs)
  then obtain d where "to_digit radix c = Some d" "digits_value radix cs (acc * radix + d) = Some n"
    by (auto split: option.splits)
  then have "acc * radix + d \<le> n" using Cons by blast
  moreover have "acc \<le> acc * radix" using Cons.prems(1) by simp
  ultimately show ?case by linarith
qed simp

text \<open>The bounded loop computes the unbounded value when it fits and fails otherwise.\<close>

definition bounded :: "nat option \<Rightarrow> u64 option" where
  "bounded v = (case v of None \<Rightarrow> None | Some n \<Rightarrow> if n < 2 ^ 64 then Some (of_nat n) else None)"

lemma bounded_digits_too_big:
  assumes "0 < radix" "2 ^ 64 \<le> acc"
  shows "bounded (digits_value radix cs acc) = None"
proof (cases "digits_value radix cs acc")
  case (Some n)
  with digits_value_grows[OF assms(1)] assms(2) show ?thesis by (fastforce simp: bounded_def)
qed (simp add: bounded_def)

lemma radix_loop_bounded:
  assumes "0 < radix" "radix \<le> 36"
  shows "radix_loop radix cs acc = bounded (digits_value radix cs (unat acc))"
proof (induction cs arbitrary: acc)
  case Nil
  show ?case by (simp add: bounded_def unat_less_2p[where 'a = 64, simplified])
next
  case (Cons c cs)
  have r: "unat (of_nat radix :: u64) = radix" using assms(2) by (simp add: unat_of_nat take_bit_nat_eq_self)
  show ?case
  proof (cases "to_digit radix c")
    case None
    then show ?thesis by (simp add: bounded_def split: option.split)
  next
    case (Some d)
    have d: "unat (of_nat d :: u64) = d"
      using to_digit_less[OF Some] assms(2) by (simp add: unat_of_nat take_bit_nat_eq_self)
    show ?thesis
    proof (cases "unat acc * radix + d < 2 ^ 64")
      case True
      then have m: "unat acc * radix < 2 ^ 64" by simp
      then have um: "unat (acc * of_nat radix) = unat acc * radix"
        using r by (simp add: unat_word_ariths)
      then have "unat (acc * of_nat radix + of_nat d) = unat acc * radix + d"
        using True d by (simp add: unat_word_ariths)
      with Some m um d True Cons.IH show ?thesis by (simp add: checked_mul_def checked_add_def r)
    next
      case False
      have "radix_loop radix (c # cs) acc = None"
        using False Some d r by (auto simp: checked_mul_def checked_add_def unat_word_ariths split: option.split)
      with bounded_digits_too_big[OF assms(1)] False Some show ?thesis by simp
    qed
  qed
qed

lemma from_str_radix_bounded:
  assumes "0 < radix" "radix \<le> 36"
  shows "from_str_radix radix s = bounded (let ds = (if s \<noteq> [] \<and> hd s = CHR ''+'' then tl s else s)
    in if ds = [] then None else digits_value radix ds 0)"
proof -
  have "to_digit radix CHR ''-'' = None" by (simp add: to_digit_def char_between_def)
  then have "bounded (digits_value radix ''-'' 0) = None" by (simp add: bounded_def)
  moreover have "bounded None = None" by (simp add: bounded_def)
  ultimately show ?thesis
    using radix_loop_bounded[OF assms, of _ 0]
    by (auto simp: from_str_radix_def Let_def simp del: radix_loop.simps digits_value.simps split: list.split)
qed

lemma parse_u64_bounded: "parse_u64 text = bounded (numeral_value text)"
  by (auto simp: parse_u64_def strip_prefix_def numeral_value_def from_str_radix_bounded Let_def numeral_2_eq_2)

section \<open>What is printed\<close>

lemma to_digit_digit_char:
  assumes "d < radix" "radix \<in> {10, 16}"
  shows "to_digit radix (digit_char d) = Some d"
proof -
  have "(of_char (char_of (48 + d) :: char) :: nat) = 48 + d" if "d < 10"
    using that by (simp add: of_char_of)
  moreover have "(of_char (char_of (87 + d) :: char) :: nat) = 87 + d" if "d < 16"
    using that by (simp add: of_char_of)
  ultimately show ?thesis
    using assms by (auto simp: to_digit_def digit_char_def char_between_def Let_def)
qed

lemma digits_value_append:
  "digits_value radix (xs @ ys) acc = (case digits_value radix xs acc of None \<Rightarrow> None | Some a \<Rightarrow> digits_value radix ys a)"
  by (induction xs arbitrary: acc) (auto split: option.split)

lemma digits_value_fmt:
  "radix \<in> {10, 16} \<Longrightarrow> digits_value radix (fmt_radix radix n) 0 = Some n"
proof (induction radix n rule: fmt_radix.induct)
  case (1 radix n)
  show ?case
  proof (cases "n < radix")
    case True
    with 1(2) to_digit_digit_char[OF True 1(2)] show ?thesis by (subst fmt_radix.simps) simp
  next
    case False
    have "to_digit radix (digit_char (n mod radix)) = Some (n mod radix)"
      using 1(2) by (intro to_digit_digit_char) auto
    with False 1 show ?thesis by (subst fmt_radix.simps) (auto simp: digits_value_append)
  qed
qed

lemma digits_value_zeros: "radix \<in> {10, 16} \<Longrightarrow> digits_value radix (replicate k CHR ''0'' @ ds) 0 = digits_value radix ds 0"
  by (induction k) (auto simp: to_digit_def char_between_def Let_def)

lemma fmt_radix_nonempty [simp]: "fmt_radix radix n \<noteq> []"
  by (subst fmt_radix.simps) simp

text \<open>A printed numeral starts with a digit, so neither a sign nor a prefix is read into it.\<close>

lemma fmt_radix_digits: "radix \<in> {10, 16} \<Longrightarrow> list_all (\<lambda>c. to_digit radix c \<noteq> None) (fmt_radix radix n)"
proof (induction radix n rule: fmt_radix.induct)
  case (1 radix n)
  have "to_digit radix (digit_char m) \<noteq> None" if "m < radix" for m
    using to_digit_digit_char[OF that 1(2)] by simp
  with 1 show ?case by (subst fmt_radix.simps) auto
qed

lemma numeral_value_fmt:
  "numeral_value (fmt_radix 10 n) = Some n"
  "numeral_value (''0x'' @ replicate k CHR ''0'' @ fmt_radix 16 n) = Some n"
proof -
  have sign: "to_digit radix CHR ''+'' = None" "to_digit 10 CHR ''x'' = None" "to_digit 10 CHR ''X'' = None" for radix
    by (simp_all add: to_digit_def char_between_def)
  have "take 2 (fmt_radix 10 n) \<noteq> ''0x''" "take 2 (fmt_radix 10 n) \<noteq> ''0X''" "hd (fmt_radix 10 n) \<noteq> CHR ''+''"
    using fmt_radix_digits[of 10 n] sign
    by (cases "fmt_radix 10 n"; cases "tl (fmt_radix 10 n)"; auto simp: take_Cons')+
  then show "numeral_value (fmt_radix 10 n) = Some n"
    by (simp add: numeral_value_def digits_value_fmt)
  have "hd (replicate k CHR ''0'' @ fmt_radix 16 n) \<noteq> CHR ''+''"
    using fmt_radix_digits[of 16 n] sign by (cases k; cases "fmt_radix 16 n") auto
  then show "numeral_value (''0x'' @ replicate k CHR ''0'' @ fmt_radix 16 n) = Some n"
    by (simp add: numeral_value_def digits_value_zeros digits_value_fmt)
qed

section \<open>Properties\<close>

text \<open>
  C36. The monitor's integer parser accepts exactly the decimal numerals and the hexadecimal numerals
  with prefix \<open>0x\<close> or \<open>0X\<close>, each with an optional plus sign, whose value fits in 64 bits, and returns
  that value: nothing wraps around. Every number the monitor prints, in decimal, in hexadecimal or padded
  with zeros to a width, is read back as itself.
\<close>

theorem parse_u64_reads_numerals:
  "(parse_u64 text = Some v \<longleftrightarrow> numeral_value text = Some (unat v)) \<and>
   parse_u64 (fmt_dec w) = Some w \<and> parse_u64 (fmt_hex w) = Some w \<and> parse_u64 (fmt_hex_width width w) = Some w"
proof (intro conjI)
  have "n < 2 ^ 64 \<Longrightarrow> of_nat n = v \<longleftrightarrow> n = unat v" for n
    by (auto simp: unat_of_nat take_bit_nat_eq_self)
  then show "parse_u64 text = Some v \<longleftrightarrow> numeral_value text = Some (unat v)"
    using unat_less_2p[of v] by (auto simp: parse_u64_bounded bounded_def split: option.splits if_splits)
  have w: "bounded (Some (unat w)) = Some w" using unat_less_2p[of w] by (simp add: bounded_def)
  show "parse_u64 (fmt_dec w) = Some w"
    unfolding parse_u64_bounded fmt_dec_def fmt_nat_def numeral_value_fmt(1) by (rule w)
  show "parse_u64 (fmt_hex w) = Some w"
    using numeral_value_fmt(2)[of 0 "unat w"] w by (simp add: parse_u64_bounded fmt_hex_def)
  show "parse_u64 (fmt_hex_width width w) = Some w"
    unfolding parse_u64_bounded fmt_hex_width_def Let_def numeral_value_fmt(2) by (rule w)
qed

end
