(* ===== verification/Framebuffer.thy ===== *)
theory Framebuffer
  imports Input_Line Refinement
begin

text \<open>
  \<open>kernel/src/framebuffer.rs\<close>: the text console on the boot loader's framebuffer. The font (crate
  \<open>font8x8\<close>) is a parameter: it gives the eight rows of a character's glyph, or nothing.
\<close>

unbundle bit_operations_syntax

section \<open>The writer\<close>

definition CHAR_WIDTH :: nat where "CHAR_WIDTH = 8"
definition CHAR_HEIGHT :: nat where "CHAR_HEIGHT = 8"

datatype PixelFormat = Rgb | Bgr | U8 | UnknownFormat

record FrameBufferInfo =
  fi_width :: nat
  fi_height :: nat
  fi_pixel_format :: PixelFormat
  fi_bytes_per_pixel :: nat
  fi_stride :: nat

record FrameBufferWriter =
  fw_buffer :: "u8 list"
  fw_info :: FrameBufferInfo
  fw_column :: nat
  fw_row :: nat

type_synonym font = "char \<Rightarrow> u8 list option"

definition writer_new :: "u8 list \<Rightarrow> FrameBufferInfo \<Rightarrow> FrameBufferWriter" where
  "writer_new buffer info = \<lparr>fw_buffer = buffer, fw_info = info, fw_column = 0, fw_row = 0\<rparr>"

definition writer_clear :: "FrameBufferWriter \<Rightarrow> FrameBufferWriter" where
  "writer_clear w = w\<lparr>fw_buffer := replicate (length (fw_buffer w)) 0, fw_column := 0, fw_row := 0\<rparr>"

definition max_columns :: "FrameBufferWriter \<Rightarrow> nat" where
  "max_columns w = fi_width (fw_info w) div CHAR_WIDTH"

definition max_rows :: "FrameBufferWriter \<Rightarrow> nat" where
  "max_rows w = fi_height (fw_info w) div CHAR_HEIGHT"

text \<open>\<open>copy_within(c.., 0)\<close> moves the bytes from \<open>c\<close> on to the front and leaves the rest.\<close>

definition scroll_one_row :: "FrameBufferWriter \<Rightarrow> FrameBufferWriter run" where
  "scroll_one_row w =
     bind_run (mul_usize (fi_stride (fw_info w)) (fi_bytes_per_pixel (fw_info w))) (\<lambda>row_bytes.
     bind_run (mul_usize row_bytes CHAR_HEIGHT) (\<lambda>char_row_bytes.
     let n = length (fw_buffer w)
     in if char_row_bytes = 0 \<or> n \<le> char_row_bytes then Ret (w\<lparr>fw_buffer := replicate n 0\<rparr>) else
        let moved = drop char_row_bytes (fw_buffer w) @ drop (n - char_row_bytes) (fw_buffer w)
        in bind_run (sub_usize n char_row_bytes) (\<lambda>start.
           Ret (w\<lparr>fw_buffer := take start moved @ replicate (n - start) 0\<rparr>))))"

definition new_line :: "FrameBufferWriter \<Rightarrow> FrameBufferWriter run" where
  "new_line w =
     bind_run (add_usize (fw_row w) 1) (\<lambda>row.
     let w = w\<lparr>fw_column := 0, fw_row := row\<rparr>
     in if max_rows w \<le> fw_row w
        then bind_run (scroll_one_row w) (\<lambda>w. Ret (w\<lparr>fw_row := max_rows w - 1\<rparr>))
        else Ret w)"

text \<open>The writes \<open>pixel[0]\<close> to \<open>pixel[3]\<close> into the slice of a pixel, which has \<open>bytes_per_pixel\<close> bytes.\<close>

definition pixel_bytes :: "PixelFormat \<Rightarrow> u8 \<Rightarrow> u8 list \<Rightarrow> u8 list run" where
  "pixel_bytes fmt color pixel =
     (let bpp = length pixel
      in case fmt of
           UnknownFormat \<Rightarrow> Ret (replicate bpp 0)
         | U8 \<Rightarrow> arr_set pixel 0 color
         | _ \<Rightarrow>
             bind_run (arr_set pixel 0 color) (\<lambda>pixel.
             bind_run (if bpp > 1 then arr_set pixel 1 color else Ret pixel) (\<lambda>pixel.
             bind_run (if bpp > 2 then arr_set pixel 2 color else Ret pixel) (\<lambda>pixel.
             if bpp > 3 then arr_set pixel 3 0 else Ret pixel))))"

definition set_pixel :: "nat \<Rightarrow> nat \<Rightarrow> bool \<Rightarrow> FrameBufferWriter \<Rightarrow> FrameBufferWriter run" where
  "set_pixel x y on w =
     (let info = fw_info w; bpp = fi_bytes_per_pixel info
      in if fi_width info \<le> x \<or> fi_height info \<le> y then Ret w else
     bind_run (mul_usize y (fi_stride info)) (\<lambda>row_start.
     bind_run (add_usize row_start x) (\<lambda>index.
     bind_run (mul_usize index bpp) (\<lambda>offset.
     bind_run (add_usize offset bpp) (\<lambda>stop.
     if length (fw_buffer w) < stop then Ret w
     else let color = (if on then 0xff else 0)
          in bind_run (pixel_bytes (fi_pixel_format info) color (take bpp (drop offset (fw_buffer w)))) (\<lambda>pixel.
             Ret (w\<lparr>fw_buffer := take offset (fw_buffer w) @ pixel @ drop stop (fw_buffer w)\<rparr>)))))))"

text \<open>The two loops of \<open>draw_glyph\<close>.\<close>

fun draw_glyph_row :: "nat list \<Rightarrow> u8 \<Rightarrow> nat \<Rightarrow> nat \<Rightarrow> nat \<Rightarrow> FrameBufferWriter \<Rightarrow> FrameBufferWriter run" where
  "draw_glyph_row [] row_bits origin_x origin_y glyph_y w = Ret w"
| "draw_glyph_row (glyph_x # xs) row_bits origin_x origin_y glyph_y w =
     bind_run (add_usize origin_x glyph_x) (\<lambda>x.
     bind_run (add_usize origin_y glyph_y) (\<lambda>y.
     bind_run (set_pixel x y (row_bits AND push_bit glyph_x 1 \<noteq> 0) w)
       (draw_glyph_row xs row_bits origin_x origin_y glyph_y)))"

fun draw_glyph_rows :: "u8 list \<Rightarrow> nat \<Rightarrow> nat \<Rightarrow> nat \<Rightarrow> FrameBufferWriter \<Rightarrow> FrameBufferWriter run" where
  "draw_glyph_rows [] glyph_y origin_x origin_y w = Ret w"
| "draw_glyph_rows (row_bits # rows) glyph_y origin_x origin_y w =
     bind_run (draw_glyph_row [0..<8] row_bits origin_x origin_y glyph_y w) (draw_glyph_rows rows (glyph_y + 1) origin_x origin_y)"

definition draw_glyph :: "nat \<Rightarrow> nat \<Rightarrow> u8 list \<Rightarrow> FrameBufferWriter \<Rightarrow> FrameBufferWriter run" where
  "draw_glyph origin_x origin_y glyph w = draw_glyph_rows glyph 0 origin_x origin_y w"

definition glyph_of :: "font \<Rightarrow> char \<Rightarrow> u8 list" where
  "glyph_of font character = (case font character of Some g \<Rightarrow> g | None \<Rightarrow> replicate 8 0)"

definition write_renderable :: "font \<Rightarrow> char \<Rightarrow> FrameBufferWriter \<Rightarrow> FrameBufferWriter run" where
  "write_renderable font character w =
     (if max_columns w = 0 \<or> max_rows w = 0 then Ret w else
      bind_run (if max_columns w \<le> fw_column w then new_line w else Ret w) (\<lambda>w.
      bind_run (if max_rows w \<le> fw_row w
         then bind_run (scroll_one_row w) (\<lambda>w. bind_run (sub_usize (max_rows w) 1) (\<lambda>r. Ret (w\<lparr>fw_row := r\<rparr>)))
         else Ret w) (\<lambda>w.
      bind_run (mul_usize (fw_column w) CHAR_WIDTH) (\<lambda>pixel_x.
      bind_run (mul_usize (fw_row w) CHAR_HEIGHT) (\<lambda>pixel_y.
      bind_run (draw_glyph pixel_x pixel_y (glyph_of font character) w) (\<lambda>w.
      bind_run (add_usize (fw_column w) 1) (\<lambda>column. Ret (w\<lparr>fw_column := column\<rparr>))))))))"

definition writer_backspace :: "FrameBufferWriter \<Rightarrow> FrameBufferWriter run" where
  "writer_backspace w =
     (if max_columns w = 0 \<or> max_rows w = 0 then Ret w
      else if fw_column w = 0 \<and> fw_row w = 0 then Ret w
      else
        let w = (if fw_column w > 0 then w\<lparr>fw_column := fw_column w - 1\<rparr>
                 else w\<lparr>fw_row := fw_row w - 1, fw_column := max_columns w - 1\<rparr>)
        in bind_run (mul_usize (fw_column w) CHAR_WIDTH) (\<lambda>pixel_x.
           bind_run (mul_usize (fw_row w) CHAR_HEIGHT) (\<lambda>pixel_y.
           draw_glyph pixel_x pixel_y (replicate 8 0) w)))"

fun write_spaces :: "font \<Rightarrow> nat \<Rightarrow> FrameBufferWriter \<Rightarrow> FrameBufferWriter run" where
  "write_spaces font 0 w = Ret w"
| "write_spaces font (Suc n) w = bind_run (write_renderable font CHR '' '' w) (write_spaces font n)"

definition write_char :: "font \<Rightarrow> char \<Rightarrow> FrameBufferWriter \<Rightarrow> FrameBufferWriter run" where
  "write_char font character w =
     (if character = CHR 0x0A then new_line w
      else if character = CHR 0x0D then Ret (w\<lparr>fw_column := 0\<rparr>)
      else if character = CHR 0x08 then writer_backspace w
      else if character = CHR 0x09 then write_spaces font 4 w
      else write_renderable font (if is_ascii character then character else CHR ''?'') w)"

fun write_str :: "font \<Rightarrow> string \<Rightarrow> FrameBufferWriter \<Rightarrow> FrameBufferWriter run" where
  "write_str font [] w = Ret w"
| "write_str font (c # cs) w = bind_run (write_char font c w) (write_str font cs)"

text \<open>The static \<open>WRITER\<close>: set by \<open>init\<close>, written by \<open>print!\<close>, cleared by \<open>clear\<close>.\<close>

definition fb_init :: "u8 list \<Rightarrow> FrameBufferInfo \<Rightarrow> FrameBufferWriter option" where
  "fb_init buffer info = Some (writer_clear (writer_new buffer info))"

definition fb_clear :: "FrameBufferWriter option \<Rightarrow> FrameBufferWriter option" where
  "fb_clear writer = map_option writer_clear writer"

definition fb_print :: "font \<Rightarrow> string \<Rightarrow> FrameBufferWriter option \<Rightarrow> FrameBufferWriter option run" where
  "fb_print font text writer =
     (case writer of None \<Rightarrow> Ret None | Some w \<Rightarrow> bind_run (write_str font text w) (\<lambda>w. Ret (Some w)))"

section \<open>Framebuffers on which the writer does not panic\<close>

text \<open>The products of the reported sizes that the writer computes fit a \<open>usize\<close>.\<close>

definition addressable :: "FrameBufferInfo \<Rightarrow> bool" where
  "addressable info \<longleftrightarrow> fi_width info < 2 ^ 64 \<and> fi_height info < 2 ^ 64 \<and>
     fi_stride info * fi_bytes_per_pixel info * CHAR_HEIGHT < 2 ^ 64 \<and>
     fi_height info * fi_stride info + fi_width info < 2 ^ 64 \<and>
     (fi_height info * fi_stride info + fi_width info) * fi_bytes_per_pixel info < 2 ^ 64"

text \<open>Moreover a pixel has a byte to write, or none is written; the operations keep the geometry.\<close>

definition drawable :: "FrameBufferInfo \<Rightarrow> bool" where
  "drawable info \<longleftrightarrow> addressable info \<and> (0 < fi_bytes_per_pixel info \<or> fi_pixel_format info = UnknownFormat)"

lemma pixel_fits:
  assumes "addressable info" "x < fi_width info" "y < fi_height info"
  shows "y * fi_stride info < 2 ^ 64" "y * fi_stride info + x < 2 ^ 64"
    "(y * fi_stride info + x) * fi_bytes_per_pixel info < 2 ^ 64"
    "(y * fi_stride info + x) * fi_bytes_per_pixel info + fi_bytes_per_pixel info < 2 ^ 64"
proof -
  let ?p = "y * fi_stride info + x" and ?b = "fi_bytes_per_pixel info"
  have "y * fi_stride info \<le> fi_height info * fi_stride info" using assms(3) by (intro mult_right_mono) simp_all
  with assms(2) have p: "?p + 1 \<le> fi_height info * fi_stride info + fi_width info" by linarith
  then show "y * fi_stride info < 2 ^ 64" "?p < 2 ^ 64" using assms(1) unfolding addressable_def by linarith+
  from p have "(?p + 1) * ?b \<le> (fi_height info * fi_stride info + fi_width info) * ?b" by (rule mult_right_mono) simp
  then have "?p * ?b + ?b \<le> (fi_height info * fi_stride info + fi_width info) * ?b" by (simp only: distrib_right mult_1_left)
  then show "?p * ?b < 2 ^ 64" "?p * ?b + ?b < 2 ^ 64" using assms(1) unfolding addressable_def by linarith+
qed

text \<open>A pixel inside the reported size: the arithmetic of its offset is exact.\<close>

lemma set_pixel_inside:
  assumes "addressable (fw_info w)" "x < fi_width (fw_info w)" "y < fi_height (fw_info w)"
  shows "set_pixel x y on w =
    (let info = fw_info w; bpp = fi_bytes_per_pixel info; offset = (y * fi_stride info + x) * bpp
     in if length (fw_buffer w) < offset + bpp then Ret w
        else bind_run (pixel_bytes (fi_pixel_format info) (if on then 0xff else 0) (take bpp (drop offset (fw_buffer w)))) (\<lambda>pixel.
          Ret (w\<lparr>fw_buffer := take offset (fw_buffer w) @ pixel @ drop (offset + bpp) (fw_buffer w)\<rparr>)))"
  using assms pixel_fits[OF assms] by (simp only: set_pixel_def Let_def mul_usize_in add_usize_in bind_run.simps) simp

definition font_ok :: "font \<Rightarrow> bool" where
  "font_ok font \<longleftrightarrow> (\<forall>c g. font c = Some g \<longrightarrow> length g = 8)"

lemma length_glyph_of: "font_ok font \<Longrightarrow> length (glyph_of font c) = 8"
  by (auto simp: glyph_of_def font_ok_def split: option.split)

definition same_frame :: "FrameBufferWriter \<Rightarrow> FrameBufferWriter \<Rightarrow> bool" where
  "same_frame w w' \<longleftrightarrow> fw_info w' = fw_info w \<and> length (fw_buffer w') = length (fw_buffer w)"

lemma same_frame_trans: "same_frame w w' \<Longrightarrow> same_frame w' w'' \<Longrightarrow> same_frame w w''"
  by (simp add: same_frame_def)

text \<open>The cursor stays in the grid of characters; the column may stand behind the last one.\<close>

definition cursor_ok :: "FrameBufferWriter \<Rightarrow> bool" where
  "cursor_ok w \<longleftrightarrow> (if max_rows w = 0 then fw_row w = 0 else fw_row w < max_rows w) \<and> fw_column w \<le> max_columns w"

lemma frame_dims:
  "same_frame w w' \<Longrightarrow> max_columns w' = max_columns w" "same_frame w w' \<Longrightarrow> max_rows w' = max_rows w"
  by (simp_all add: same_frame_def max_columns_def max_rows_def)

lemma pixel_bytes_total:
  "0 < length pixel \<or> fmt = UnknownFormat \<Longrightarrow> \<exists>p. pixel_bytes fmt color pixel = Ret p \<and> length p = length pixel"
  by (cases fmt) (auto simp: pixel_bytes_def Let_def)

lemma set_pixel_total:
  assumes "drawable (fw_info w)"
  shows "\<exists>w'. set_pixel x y on w = Ret w' \<and> same_frame w w' \<and> fw_row w' = fw_row w \<and> fw_column w' = fw_column w"
proof (cases "x < fi_width (fw_info w) \<and> y < fi_height (fw_info w)")
  case False
  then show ?thesis by (auto simp: set_pixel_def same_frame_def Let_def)
next
  case inside: True
  let ?b = "fi_bytes_per_pixel (fw_info w)" and ?o = "(y * fi_stride (fw_info w) + x) * fi_bytes_per_pixel (fw_info w)"
  have "addressable (fw_info w)" using assms by (simp add: drawable_def)
  with inside have set: "set_pixel x y on w = (if length (fw_buffer w) < ?o + ?b then Ret w
      else bind_run (pixel_bytes (fi_pixel_format (fw_info w)) (if on then 0xff else 0) (take ?b (drop ?o (fw_buffer w)))) (\<lambda>pixel.
        Ret (w\<lparr>fw_buffer := take ?o (fw_buffer w) @ pixel @ drop (?o + ?b) (fw_buffer w)\<rparr>)))"
    by (subst set_pixel_inside) (simp_all add: Let_def)
  show ?thesis
  proof (cases "length (fw_buffer w) < ?o + ?b")
    case True
    then show ?thesis unfolding set by (simp add: same_frame_def)
  next
    case False
    have "?b \<le> length (fw_buffer w) - ?o" using False by linarith
    then have "length (take ?b (drop ?o (fw_buffer w))) = ?b" by (simp add: min_absorb2)
    with assms obtain p where "pixel_bytes (fi_pixel_format (fw_info w)) (if on then 0xff else 0) (take ?b (drop ?o (fw_buffer w))) = Ret p"
      "length p = ?b"
      using pixel_bytes_total[of "take ?b (drop ?o (fw_buffer w))"] by (metis drawable_def)
    with False show ?thesis unfolding set by (simp add: same_frame_def)
  qed
qed

lemma draw_glyph_row_total:
  "drawable (fw_info w) \<Longrightarrow> \<forall>gx\<in>set xs. ox + gx < 2 ^ 64 \<Longrightarrow> oy + gy < 2 ^ 64 \<Longrightarrow>
   \<exists>w'. draw_glyph_row xs bits ox oy gy w = Ret w' \<and> same_frame w w' \<and> fw_row w' = fw_row w \<and> fw_column w' = fw_column w"
proof (induction xs arbitrary: w)
  case (Cons gx xs)
  obtain w1 where "set_pixel (ox + gx) (oy + gy) (bits AND push_bit gx 1 \<noteq> 0) w = Ret w1" "same_frame w w1"
    "fw_row w1 = fw_row w" "fw_column w1 = fw_column w"
    using set_pixel_total[OF Cons.prems(1)] by blast
  with Cons.IH[of w1] Cons.prems show ?case by (auto simp: same_frame_def)
qed (simp add: same_frame_def)

lemma draw_glyph_rows_total:
  "drawable (fw_info w) \<Longrightarrow> ox + 8 < 2 ^ 64 \<Longrightarrow> oy + gy + length rows < 2 ^ 64 \<Longrightarrow>
   \<exists>w'. draw_glyph_rows rows gy ox oy w = Ret w' \<and> same_frame w w' \<and> fw_row w' = fw_row w \<and> fw_column w' = fw_column w"
proof (induction rows arbitrary: w gy)
  case (Cons bits rows)
  have "\<forall>gx\<in>set [0..<8]. ox + gx < 2 ^ 64" "oy + gy < 2 ^ 64" using Cons.prems(2,3) by auto
  then obtain w1 where "draw_glyph_row [0..<8] bits ox oy gy w = Ret w1" "same_frame w w1"
    "fw_row w1 = fw_row w" "fw_column w1 = fw_column w"
    using draw_glyph_row_total[OF Cons.prems(1)] by blast
  with Cons.IH[of w1 "gy + 1"] Cons.prems show ?case by (auto simp: same_frame_def)
qed (simp add: same_frame_def)

text \<open>A cell of the grid: its pixels lie inside the reported size.\<close>

lemma cell_inside:
  assumes "addressable (fw_info w)"
  shows "c < max_columns w \<Longrightarrow> c * CHAR_WIDTH + 8 \<le> fi_width (fw_info w) \<and> c * CHAR_WIDTH + 8 < 2 ^ 64"
    "r < max_rows w \<Longrightarrow> r * CHAR_HEIGHT + 8 \<le> fi_height (fw_info w) \<and> r * CHAR_HEIGHT + 8 < 2 ^ 64"
proof -
  have "8 * max_rows w \<le> fi_height (fw_info w)" "8 * max_columns w \<le> fi_width (fw_info w)"
    by (simp_all add: max_rows_def max_columns_def CHAR_WIDTH_def CHAR_HEIGHT_def)
  moreover have "fi_width (fw_info w) < 2 ^ 64" "fi_height (fw_info w) < 2 ^ 64" using assms by (simp_all add: addressable_def)
  ultimately show "c < max_columns w \<Longrightarrow> c * CHAR_WIDTH + 8 \<le> fi_width (fw_info w) \<and> c * CHAR_WIDTH + 8 < 2 ^ 64"
    "r < max_rows w \<Longrightarrow> r * CHAR_HEIGHT + 8 \<le> fi_height (fw_info w) \<and> r * CHAR_HEIGHT + 8 < 2 ^ 64"
    unfolding CHAR_WIDTH_def CHAR_HEIGHT_def by linarith+
qed

lemma cell_origin:
  assumes "addressable (fw_info w)"
  shows "c < max_columns w \<Longrightarrow> mul_usize c CHAR_WIDTH = Ret (c * CHAR_WIDTH)" "c < max_columns w \<Longrightarrow> add_usize c (Suc 0) = Ret (Suc c)"
    "r < max_rows w \<Longrightarrow> mul_usize r CHAR_HEIGHT = Ret (r * CHAR_HEIGHT)" "r < max_rows w \<Longrightarrow> add_usize r (Suc 0) = Ret (Suc r)"
  using cell_inside[OF assms, of c] cell_inside[OF assms, of r] by (auto simp: CHAR_WIDTH_def CHAR_HEIGHT_def add_usize_def mul_usize_def)

lemma draw_glyph_total:
  assumes "drawable (fw_info w)" "c < max_columns w" "r < max_rows w" "length glyph = 8"
  shows "\<exists>w'. draw_glyph (c * CHAR_WIDTH) (r * CHAR_HEIGHT) glyph w = Ret w' \<and> same_frame w w' \<and>
    fw_row w' = fw_row w \<and> fw_column w' = fw_column w"
  unfolding draw_glyph_def
proof (rule draw_glyph_rows_total[OF assms(1)])
  have a: "addressable (fw_info w)" using assms(1) by (simp add: drawable_def)
  show "c * CHAR_WIDTH + 8 < 2 ^ 64" using cell_inside(1)[OF a assms(2)] by blast
  show "r * CHAR_HEIGHT + 0 + length glyph < 2 ^ 64" using cell_inside(2)[OF a assms(3)] assms(4) by simp
qed

lemma scroll_steps:
  assumes "addressable (fw_info w)"
  shows "mul_usize (fi_stride (fw_info w)) (fi_bytes_per_pixel (fw_info w)) = Ret (fi_stride (fw_info w) * fi_bytes_per_pixel (fw_info w))"
    "mul_usize (fi_stride (fw_info w) * fi_bytes_per_pixel (fw_info w)) CHAR_HEIGHT =
      Ret (fi_stride (fw_info w) * fi_bytes_per_pixel (fw_info w) * CHAR_HEIGHT)"
proof -
  let ?r = "fi_stride (fw_info w) * fi_bytes_per_pixel (fw_info w)"
  have c: "?r * CHAR_HEIGHT < 2 ^ 64" using assms unfolding addressable_def by blast
  moreover have "?r \<le> ?r * CHAR_HEIGHT" by (simp add: CHAR_HEIGHT_def)
  ultimately have "?r < 2 ^ 64" by linarith
  with c show "mul_usize (fi_stride (fw_info w)) (fi_bytes_per_pixel (fw_info w)) = Ret ?r" "mul_usize ?r CHAR_HEIGHT = Ret (?r * CHAR_HEIGHT)"
    by (simp_all only: mul_usize_in)
qed

lemma scroll_total:
  assumes "addressable (fw_info w)"
  shows "\<exists>w'. scroll_one_row w = Ret w' \<and> same_frame w w' \<and> fw_row w' = fw_row w \<and> fw_column w' = fw_column w"
  by (auto simp: scroll_one_row_def scroll_steps[OF assms] Let_def same_frame_def)

lemma row_step:
  assumes "addressable (fw_info w)" "cursor_ok w"
  shows "add_usize (fw_row w) (Suc 0) = Ret (Suc (fw_row w))"
  using assms cell_origin(4)[OF assms(1), of "fw_row w"] by (auto simp: cursor_ok_def add_usize_def split: if_splits)

lemma new_line_total:
  assumes "addressable (fw_info w)" "cursor_ok w"
  shows "\<exists>w'. new_line w = Ret w' \<and> same_frame w w' \<and> cursor_ok w' \<and> fw_column w' = 0"
proof (cases "max_rows w \<le> fw_row w + 1")
  case True
  let ?w = "w\<lparr>fw_column := 0, fw_row := fw_row w + 1\<rparr>"
  obtain w1 where "scroll_one_row ?w = Ret w1" "same_frame ?w w1" "fw_column w1 = 0"
    using scroll_total[of ?w] assms(1) by auto
  with True show ?thesis
    by (auto simp: new_line_def row_step[OF assms] Let_def max_rows_def max_columns_def same_frame_def cursor_ok_def)
next
  case False
  then show ?thesis
    by (auto simp: new_line_def row_step[OF assms] Let_def max_rows_def max_columns_def same_frame_def cursor_ok_def)
qed

lemma write_renderable_total:
  assumes "font_ok font" "drawable (fw_info w)" "cursor_ok w"
  shows "\<exists>w'. write_renderable font c w = Ret w' \<and> same_frame w w' \<and> cursor_ok w'"
proof (cases "max_columns w = 0 \<or> max_rows w = 0")
  case True
  then show ?thesis using assms(3) by (simp add: write_renderable_def same_frame_def)
next
  case False
  have a: "addressable (fw_info w)" using assms(2) by (simp add: drawable_def)
  obtain w1 where w1: "(if max_columns w \<le> fw_column w then new_line w else Ret w) = Ret w1" "same_frame w w1"
    "cursor_ok w1" "fw_column w1 < max_columns w1"
  proof (cases "max_columns w \<le> fw_column w")
    case True
    obtain w1 where "new_line w = Ret w1" "same_frame w w1" "cursor_ok w1" "fw_column w1 = 0"
      using new_line_total[OF a assms(3)] by blast
    with True False frame_dims(1)[of w w1] show thesis by (intro that[of w1]) simp_all
  next
    case fits: False
    with assms(3) show thesis by (intro that[of w]) (simp_all add: same_frame_def)
  qed
  have r: "fw_row w1 < max_rows w1" using w1(3) frame_dims(2)[OF w1(2)] False by (simp add: cursor_ok_def)
  have d: "drawable (fw_info w1)" "addressable (fw_info w1)" using assms(2) a w1(2) by (simp_all add: same_frame_def)
  obtain w2 where w2: "draw_glyph (fw_column w1 * CHAR_WIDTH) (fw_row w1 * CHAR_HEIGHT) (glyph_of font c) w1 = Ret w2"
    "same_frame w1 w2" "fw_row w2 = fw_row w1" "fw_column w2 = fw_column w1"
    using draw_glyph_total[OF d(1) w1(4) r length_glyph_of[OF assms(1)]] by blast
  note steps = cell_origin[OF d(2)]
  have "write_renderable font c w = Ret (w2\<lparr>fw_column := fw_column w2 + 1\<rparr>)"
    using False r by (simp add: write_renderable_def w1(1) w2 steps(1,2)[OF w1(4)] steps(3)[OF r])
  moreover have "same_frame w (w2\<lparr>fw_column := fw_column w2 + 1\<rparr>)"
    using w1(2) w2(2) by (simp add: same_frame_def)
  moreover have "cursor_ok (w2\<lparr>fw_column := fw_column w2 + 1\<rparr>)"
    using w1(3,4) w2 by (auto simp: cursor_ok_def max_rows_def max_columns_def same_frame_def split: if_splits)
  ultimately show ?thesis by blast
qed

lemma write_spaces_total:
  "font_ok font \<Longrightarrow> drawable (fw_info w) \<Longrightarrow> cursor_ok w \<Longrightarrow> \<exists>w'. write_spaces font n w = Ret w' \<and> same_frame w w' \<and> cursor_ok w'"
proof (induction n arbitrary: w)
  case (Suc n)
  obtain w1 where "write_renderable font CHR '' '' w = Ret w1" "same_frame w w1" "cursor_ok w1"
    using write_renderable_total[OF Suc.prems] by blast
  with Suc.IH[of w1] Suc.prems show ?case by (auto simp: same_frame_def)
qed (simp add: same_frame_def)

lemma backspace_total:
  assumes "drawable (fw_info w)" "cursor_ok w"
  shows "\<exists>w'. writer_backspace w = Ret w' \<and> same_frame w w' \<and> cursor_ok w'"
proof (cases "max_columns w = 0 \<or> max_rows w = 0 \<or> fw_column w = 0 \<and> fw_row w = 0")
  case True
  then show ?thesis using assms(2) by (auto simp: writer_backspace_def same_frame_def)
next
  case False
  let ?w = "if fw_column w > 0 then w\<lparr>fw_column := fw_column w - 1\<rparr>
      else w\<lparr>fw_row := fw_row w - 1, fw_column := max_columns w - 1\<rparr>"
  have d: "drawable (fw_info ?w)" "addressable (fw_info ?w)" using assms(1) by (simp_all add: drawable_def)
  have in_grid: "fw_column ?w < max_columns ?w" "fw_row ?w < max_rows ?w"
    using False assms(2) by (auto simp: cursor_ok_def max_rows_def max_columns_def split: if_splits)
  note steps = cell_origin(1)[OF d(2) in_grid(1)] cell_origin(3)[OF d(2) in_grid(2)]
  obtain w1 where "draw_glyph (fw_column ?w * CHAR_WIDTH) (fw_row ?w * CHAR_HEIGHT) (replicate 8 0) ?w = Ret w1"
    "same_frame ?w w1" "fw_row w1 = fw_row ?w" "fw_column w1 = fw_column ?w"
    using draw_glyph_total[OF d(1) in_grid] by force
  moreover from this False steps have "writer_backspace w = Ret w1" by (auto simp: writer_backspace_def Let_def)
  ultimately show ?thesis
    using assms(2) by (auto simp: cursor_ok_def max_rows_def max_columns_def same_frame_def split: if_splits)
qed

lemma write_char_total:
  assumes "font_ok font" "drawable (fw_info w)" "cursor_ok w"
  shows "\<exists>w'. write_char font c w = Ret w' \<and> same_frame w w' \<and> cursor_ok w'"
proof -
  have "same_frame w (w\<lparr>fw_column := 0\<rparr>)" "cursor_ok (w\<lparr>fw_column := 0\<rparr>)"
    using assms(3) by (auto simp: same_frame_def cursor_ok_def max_rows_def max_columns_def)
  moreover have "addressable (fw_info w)" using assms(2) by (simp add: drawable_def)
  ultimately show ?thesis
    using new_line_total[of w] write_renderable_total[OF assms] write_spaces_total[OF assms] backspace_total[OF assms(2,3)] assms(3)
    by (auto simp: write_char_def)
qed

lemma write_str_total:
  "font_ok font \<Longrightarrow> drawable (fw_info w) \<Longrightarrow> cursor_ok w \<Longrightarrow> \<exists>w'. write_str font s w = Ret w' \<and> same_frame w w' \<and> cursor_ok w'"
proof (induction s arbitrary: w)
  case (Cons c s)
  obtain w1 where "write_char font c w = Ret w1" "same_frame w w1" "cursor_ok w1"
    using write_char_total[OF Cons.prems] by blast
  with Cons.IH[of w1] Cons.prems show ?case by (auto simp: same_frame_def)
qed (simp add: same_frame_def)

section \<open>The screen of characters\<close>

text \<open>What the console shows: a grid of characters, blank where nothing was written, and a cursor.\<close>

record Screen =
  sc_rows :: nat
  sc_columns :: nat
  sc_cells :: "nat \<Rightarrow> nat \<Rightarrow> char option"
  sc_row :: nat
  sc_column :: nat

definition set_cell :: "nat \<Rightarrow> nat \<Rightarrow> char option \<Rightarrow> Screen \<Rightarrow> Screen" where
  "set_cell r c v s = s\<lparr>sc_cells := (sc_cells s)(r := (sc_cells s r)(c := v))\<rparr>"

definition screen_line :: "Screen \<Rightarrow> Screen" where
  "screen_line s =
     (if sc_row s + 1 < sc_rows s then s\<lparr>sc_row := sc_row s + 1, sc_column := 0\<rparr>
      else s\<lparr>sc_cells := (\<lambda>r c. if r + 1 < sc_rows s then sc_cells s (r + 1) c else None),
             sc_row := sc_rows s - 1, sc_column := 0\<rparr>)"

definition screen_put :: "char \<Rightarrow> Screen \<Rightarrow> Screen" where
  "screen_put c s =
     (let s = (if sc_column s < sc_columns s then s else screen_line s)
      in (set_cell (sc_row s) (sc_column s) (Some c) s)\<lparr>sc_column := sc_column s + 1\<rparr>)"

definition screen_back :: "Screen \<Rightarrow> Screen" where
  "screen_back s =
     (if sc_column s = 0 \<and> sc_row s = 0 then s
      else let s = (if 0 < sc_column s then s\<lparr>sc_column := sc_column s - 1\<rparr>
                    else s\<lparr>sc_row := sc_row s - 1, sc_column := sc_columns s - 1\<rparr>)
           in set_cell (sc_row s) (sc_column s) None s)"

definition screen_char :: "char \<Rightarrow> Screen \<Rightarrow> Screen" where
  "screen_char c s =
     (if c = CHR 0x0A then screen_line s
      else if c = CHR 0x0D then s\<lparr>sc_column := 0\<rparr>
      else if c = CHR 0x08 then screen_back s
      else if c = CHR 0x09 then (screen_put CHR '' '' ^^ 4) s
      else screen_put (if is_ascii c then c else CHR ''?'') s)"

text \<open>The byte of the buffer that shows a screen, for a buffer with a row for every pixel line.\<close>

definition lit_bytes :: "PixelFormat \<Rightarrow> nat" where
  "lit_bytes fmt = (if fmt = U8 then 1 else 3)"

definition px :: "FrameBufferInfo \<Rightarrow> nat \<Rightarrow> nat" where
  "px info i = (i div fi_bytes_per_pixel info) mod fi_stride info"

definition py :: "FrameBufferInfo \<Rightarrow> nat \<Rightarrow> nat" where
  "py info i = (i div fi_bytes_per_pixel info) div fi_stride info"

definition is_lit :: "FrameBufferInfo \<Rightarrow> nat \<Rightarrow> bool" where
  "is_lit info i \<longleftrightarrow> i mod fi_bytes_per_pixel info < lit_bytes (fi_pixel_format info)"

definition cell_glyph :: "font \<Rightarrow> char option \<Rightarrow> u8 list" where
  "cell_glyph font v = (case v of None \<Rightarrow> replicate 8 0 | Some c \<Rightarrow> glyph_of font c)"

definition shade :: "bool \<Rightarrow> u8" where
  "shade on = (if on then 0xff else 0)"

definition screen_byte :: "font \<Rightarrow> FrameBufferInfo \<Rightarrow> Screen \<Rightarrow> nat \<Rightarrow> u8" where
  "screen_byte font info s i =
     (let x = px info i; y = py info i
      in if y < 8 * sc_rows s \<and> x < 8 * sc_columns s \<and> is_lit info i
         then shade (bit (cell_glyph font (sc_cells s (y div 8) (x div 8)) ! (y mod 8)) (x mod 8)) else 0)"

definition geometry_ok :: "FrameBufferWriter \<Rightarrow> bool" where
  "geometry_ok w \<longleftrightarrow> addressable (fw_info w) \<and> 0 < fi_bytes_per_pixel (fw_info w) \<and> fi_pixel_format (fw_info w) \<noteq> UnknownFormat \<and>
     fi_width (fw_info w) \<le> fi_stride (fw_info w) \<and> 0 < max_columns w \<and> 0 < max_rows w \<and>
     fi_height (fw_info w) * fi_stride (fw_info w) * fi_bytes_per_pixel (fw_info w) \<le> length (fw_buffer w)"

definition shows_screen :: "font \<Rightarrow> FrameBufferWriter \<Rightarrow> Screen \<Rightarrow> bool" where
  "shows_screen font w s \<longleftrightarrow> geometry_ok w \<and>
     sc_rows s = max_rows w \<and> sc_columns s = max_columns w \<and> sc_row s = fw_row w \<and> sc_column s = fw_column w \<and>
     fw_row w < max_rows w \<and> fw_column w \<le> max_columns w \<and>
     fw_buffer w = map (screen_byte font (fw_info w) s) [0..<length (fw_buffer w)]"

section \<open>Drawing on the buffer\<close>

lemma pixel_bytes_lit:
  assumes "0 < length pixel" "fmt \<noteq> UnknownFormat" "\<forall>k<length pixel. lit_bytes fmt \<le> k \<longrightarrow> pixel ! k = 0"
  shows "pixel_bytes fmt color pixel = Ret (map (\<lambda>k. if k < lit_bytes fmt then color else 0) [0..<length pixel])"
proof -
  let ?n = "length pixel"
  let ?p1 = "pixel[0 := color]"
  let ?p2 = "if ?n > 1 then ?p1[1 := color] else ?p1"
  let ?p3 = "if ?n > 2 then ?p2[2 := color] else ?p2"
  let ?p4 = "if ?n > 3 then ?p3[3 := 0] else ?p3"
  have rgb: "?p4 = map (\<lambda>k. if k < 3 then color else 0) [0..<?n]" if "\<forall>k<?n. 3 \<le> k \<longrightarrow> pixel ! k = 0"
  proof (rule nth_equalityI)
    fix i
    assume "i < length ?p4"
    then have i: "i < ?n" by (auto split: if_splits)
    consider "i = 0" | "i = 1" | "i = 2" | "3 \<le> i" by linarith
    then show "?p4 ! i = map (\<lambda>k. if k < 3 then color else 0) [0..<?n] ! i"
      using i that by cases (auto simp: nth_list_update)
  qed simp
  have u8: "?p1 = map (\<lambda>k. if k < 1 then color else 0) [0..<?n]" if "\<forall>k<?n. 1 \<le> k \<longrightarrow> pixel ! k = 0"
    using assms(1) that by (intro nth_equalityI) (auto simp: nth_list_update)
  have code: "bind_run (arr_set pixel 0 color) (\<lambda>pixel.
      bind_run (if ?n > 1 then arr_set pixel 1 color else Ret pixel) (\<lambda>pixel.
      bind_run (if ?n > 2 then arr_set pixel 2 color else Ret pixel) (\<lambda>pixel.
      if ?n > 3 then arr_set pixel 3 0 else Ret pixel))) = Ret ?p4"
    using assms(1) by (auto simp: arr_set_def)
  show ?thesis
    using assms rgb u8 code by (cases fmt) (simp_all add: pixel_bytes_def lit_bytes_def Let_def arr_set_def)
qed

text \<open>Replacing one of the blocks of \<open>b\<close> bytes of a list.\<close>

lemma block_index:
  fixes b :: nat
  assumes "0 < b"
  shows "i div b = p \<longleftrightarrow> p * b \<le> i \<and> i < p * b + b" and "i div b = p \<Longrightarrow> i mod b = i - p * b"
proof -
  show "i div b = p \<longleftrightarrow> p * b \<le> i \<and> i < p * b + b"
  proof
    assume "i div b = p"
    then have "i = p * b + i mod b" using div_mult_mod_eq[of i b] by simp
    with mod_less_divisor[OF assms, of i] show "p * b \<le> i \<and> i < p * b + b" by linarith
  next
    assume "p * b \<le> i \<and> i < p * b + b"
    then show "i div b = p" by (intro div_nat_eqI) (simp_all add: mult.commute)
  qed
  show "i div b = p \<Longrightarrow> i mod b = i - p * b" by (auto simp: modulo_nat_def mult.commute)
qed

lemma splice_block:
  assumes "0 < b" "p * b + b \<le> n"
  shows "take (p * b) (map f [0..<n]) @ map g [0..<b] @ drop (p * b + b) (map f [0..<n]) =
    map (\<lambda>i. if i div b = p then g (i mod b) else f i) [0..<n]" (is "?l = ?r")
proof (rule nth_equalityI)
  show "length ?l = length ?r" using assms(2) by simp
  fix i
  assume "i < length ?l"
  then have i: "i < n" using assms(2) by simp
  note block = block_index[OF assms(1), of i p]
  consider (below) "i < p * b" | (inside) "p * b \<le> i" "i < p * b + b" | (above) "p * b + b \<le> i" by linarith
  then show "?l ! i = ?r ! i"
    using i assms(2) block by cases (auto simp: nth_append min_def)
qed

text \<open>Setting a pixel of a buffer given byte by byte changes the lit bytes of that pixel.\<close>

lemma pixel_room:
  assumes "geometry_ok w" "x < fi_width (fw_info w)" "y < fi_height (fw_info w)"
  shows "(y * fi_stride (fw_info w) + x) * fi_bytes_per_pixel (fw_info w) + fi_bytes_per_pixel (fw_info w) \<le> length (fw_buffer w)"
proof -
  let ?s = "fi_stride (fw_info w)" and ?b = "fi_bytes_per_pixel (fw_info w)"
  have "y * ?s + x + 1 \<le> (y + 1) * ?s" using assms(1,2) by (simp add: geometry_ok_def)
  also have "\<dots> \<le> fi_height (fw_info w) * ?s" using assms(3) by (intro mult_right_mono) simp_all
  finally have "(y * ?s + x + 1) * ?b \<le> fi_height (fw_info w) * ?s * ?b" by (rule mult_right_mono) simp
  with assms(1) show ?thesis by (simp add: geometry_ok_def algebra_simps)
qed

lemma set_pixel_bytes:
  assumes geo: "geometry_ok w" and x: "x < fi_width (fw_info w)" and y: "y < fi_height (fw_info w)"
    and buf: "fw_buffer w = map f [0..<n]" and dark: "\<And>i. \<not> is_lit (fw_info w) i \<Longrightarrow> f i = 0"
  shows "set_pixel x y on w = Ret (w\<lparr>fw_buffer := map (\<lambda>i. if py (fw_info w) i = y \<and> px (fw_info w) i = x \<and> is_lit (fw_info w) i
      then shade on else f i) [0..<n]\<rparr>)"
proof -
  let ?I = "fw_info w" and ?b = "fi_bytes_per_pixel (fw_info w)" and ?p = "y * fi_stride (fw_info w) + x"
  let ?g = "\<lambda>k. if k < lit_bytes (fi_pixel_format ?I) then shade on else 0"
  have b: "0 < ?b" and xs: "x < fi_stride ?I" using geo x by (simp_all add: geometry_ok_def)
  have room: "?p * ?b + ?b \<le> n" using pixel_room[OF geo x y] by (simp add: buf)
  have pix: "i div ?b = ?p \<longleftrightarrow> py ?I i = y \<and> px ?I i = x" for i
    using xs by (auto simp: py_def px_def)
  let ?pixel = "take ?b (drop (?p * ?b) (fw_buffer w))"
  have len: "length ?pixel = ?b" using room by (simp add: buf)
  have "?pixel ! k = f (?p * ?b + k)" if "k < ?b" for k
    using that room by (simp add: buf)
  then have "\<forall>k<length ?pixel. lit_bytes (fi_pixel_format ?I) \<le> k \<longrightarrow> ?pixel ! k = 0"
    using dark len by (auto simp: is_lit_def)
  then have "pixel_bytes (fi_pixel_format ?I) (shade on) ?pixel = Ret (map ?g [0..<?b])"
    using pixel_bytes_lit[of ?pixel] geo b len by (simp add: geometry_ok_def)
  then have "set_pixel x y on w = Ret (w\<lparr>fw_buffer := take (?p * ?b) (fw_buffer w) @ map ?g [0..<?b] @ drop (?p * ?b + ?b) (fw_buffer w)\<rparr>)"
    using room geo x y by (subst set_pixel_inside) (simp_all add: geometry_ok_def Let_def shade_def buf)
  moreover have "(if i div ?b = ?p then ?g (i mod ?b) else f i) =
      (if py ?I i = y \<and> px ?I i = x \<and> is_lit ?I i then shade on else f i)" for i
    using dark[of i] by (auto simp: pix is_lit_def)
  ultimately show ?thesis using splice_block[OF b room, of f ?g] by (simp add: buf)
qed

lemma geometry_ok_buffer [simp]:
  "length bs = length (fw_buffer w) \<Longrightarrow> geometry_ok (w\<lparr>fw_buffer := bs\<rparr>) = geometry_ok w"
  by (simp add: geometry_ok_def max_columns_def max_rows_def)

lemma draw_glyph_row_bytes:
  assumes "geometry_ok w" "y = oy + gy" "y < fi_height (fw_info w)" "\<forall>gx\<in>set xs. ox + gx < fi_width (fw_info w)"
    and "fw_buffer w = map f [0..<n]" "\<And>i. \<not> is_lit (fw_info w) i \<Longrightarrow> f i = 0"
  shows "draw_glyph_row xs bits ox oy gy w = Ret (w\<lparr>fw_buffer := map (\<lambda>i.
      if py (fw_info w) i = y \<and> ox \<le> px (fw_info w) i \<and> px (fw_info w) i - ox \<in> set xs \<and> is_lit (fw_info w) i
      then shade (bit bits (px (fw_info w) i - ox)) else f i) [0..<n]\<rparr>)"
  using assms
proof (induction xs arbitrary: w f)
  case (Cons gx xs)
  let ?I = "fw_info w"
  let ?f = "\<lambda>i. if py ?I i = y \<and> px ?I i = ox + gx \<and> is_lit ?I i then shade (bit bits gx) else f i"
  let ?w = "w\<lparr>fw_buffer := map ?f [0..<n]\<rparr>"
  have set: "set_pixel (ox + gx) y (bits AND push_bit gx 1 \<noteq> 0) w = Ret ?w"
    using set_pixel_bytes[OF Cons.prems(1) _ Cons.prems(3,5,6), of "ox + gx" "bits AND push_bit gx 1 \<noteq> 0"] Cons.prems(4)
    by (simp add: bit_iff_and_push_bit_not_eq_0)
  have "fi_width ?I < 2 ^ 64" "fi_height ?I < 2 ^ 64" using Cons.prems(1) by (simp_all add: geometry_ok_def addressable_def)
  with Cons.prems(2-4) have add: "add_usize ox gx = Ret (ox + gx)" "add_usize oy gy = Ret y" by (simp_all add: add_usize_def)
  have "geometry_ok ?w" using Cons.prems(1,5) by simp
  then have "draw_glyph_row xs bits ox oy gy ?w = Ret (?w\<lparr>fw_buffer := map (\<lambda>i.
      if py ?I i = y \<and> ox \<le> px ?I i \<and> px ?I i - ox \<in> set xs \<and> is_lit ?I i
      then shade (bit bits (px ?I i - ox)) else ?f i) [0..<n]\<rparr>)"
    using Cons.IH[of ?w ?f] Cons.prems by simp
  moreover have "(if py ?I i = y \<and> ox \<le> px ?I i \<and> px ?I i - ox \<in> set xs \<and> is_lit ?I i
      then shade (bit bits (px ?I i - ox)) else ?f i) =
    (if py ?I i = y \<and> ox \<le> px ?I i \<and> px ?I i - ox \<in> set (gx # xs) \<and> is_lit ?I i
      then shade (bit bits (px ?I i - ox)) else f i)" for i
    by (cases "px ?I i = ox + gx") auto
  ultimately show ?case by (simp only: draw_glyph_row.simps add set bind_run.simps) simp
qed simp

lemma draw_glyph_rows_bytes:
  assumes "geometry_ok w" "y = oy + gy" "y + length rows \<le> fi_height (fw_info w)" "ox + 8 \<le> fi_width (fw_info w)"
    and "fw_buffer w = map f [0..<n]" "\<And>i. \<not> is_lit (fw_info w) i \<Longrightarrow> f i = 0"
  shows "draw_glyph_rows rows gy ox oy w = Ret (w\<lparr>fw_buffer := map (\<lambda>i.
      if y \<le> py (fw_info w) i \<and> py (fw_info w) i < y + length rows \<and> ox \<le> px (fw_info w) i \<and> px (fw_info w) i < ox + 8 \<and>
        is_lit (fw_info w) i
      then shade (bit (rows ! (py (fw_info w) i - y)) (px (fw_info w) i - ox)) else f i) [0..<n]\<rparr>)"
  using assms
proof (induction rows arbitrary: w f y gy)
  case (Cons bits rows)
  let ?I = "fw_info w"
  let ?f = "\<lambda>i. if py ?I i = y \<and> ox \<le> px ?I i \<and> px ?I i - ox \<in> set [0..<8] \<and> is_lit ?I i
      then shade (bit bits (px ?I i - ox)) else f i"
  let ?w = "w\<lparr>fw_buffer := map ?f [0..<n]\<rparr>"
  have row: "draw_glyph_row [0..<8] bits ox oy gy w = Ret ?w"
    using Cons.prems by (intro draw_glyph_row_bytes) auto
  have "geometry_ok ?w" using Cons.prems(1,5) by simp
  then have "draw_glyph_rows rows (gy + 1) ox oy ?w = Ret (?w\<lparr>fw_buffer := map (\<lambda>i.
      if y + 1 \<le> py ?I i \<and> py ?I i < y + 1 + length rows \<and> ox \<le> px ?I i \<and> px ?I i < ox + 8 \<and> is_lit ?I i
      then shade (bit (rows ! (py ?I i - (y + 1))) (px ?I i - ox)) else ?f i) [0..<n]\<rparr>)"
    using Cons.IH[of ?w "y + 1" "gy + 1" ?f] Cons.prems by simp
  moreover have "(if y + 1 \<le> py ?I i \<and> py ?I i < y + 1 + length rows \<and> ox \<le> px ?I i \<and> px ?I i < ox + 8 \<and> is_lit ?I i
      then shade (bit (rows ! (py ?I i - (y + 1))) (px ?I i - ox)) else ?f i) =
    (if y \<le> py ?I i \<and> py ?I i < y + length (bits # rows) \<and> ox \<le> px ?I i \<and> px ?I i < ox + 8 \<and> is_lit ?I i
      then shade (bit ((bits # rows) ! (py ?I i - y)) (px ?I i - ox)) else f i)" for i
    by (cases "py ?I i = y") (auto simp: nth_Cons')
  ultimately show ?case by (simp only: draw_glyph_rows.simps row bind_run.simps) simp
next
  case Nil
  have "(\<lambda>i. if y \<le> py (fw_info w) i \<and> py (fw_info w) i < y + length [] \<and> P i then h i else f i) = f" for P h by (rule ext) auto
  with Nil show ?case by simp
qed

text \<open>Drawing the glyph of a cell puts its character on the screen.\<close>

lemma length_cell_glyph: "font_ok font \<Longrightarrow> length (cell_glyph font v) = 8"
  by (simp add: cell_glyph_def length_glyph_of split: option.split)

lemma cell_index: "y div 8 = r \<longleftrightarrow> r * 8 \<le> y \<and> y < r * 8 + 8" "y div 8 = r \<Longrightarrow> y mod 8 = y - r * 8" for y r :: nat
  using block_index[of 8 y r] by simp_all

lemma draw_cell:
  assumes "geometry_ok w" "font_ok font" "r < max_rows w" "c < max_columns w"
    and "sc_rows s = max_rows w" "sc_columns s = max_columns w"
    and "fw_buffer w = map (screen_byte font (fw_info w) s) [0..<n]"
  shows "draw_glyph (c * CHAR_WIDTH) (r * CHAR_HEIGHT) (cell_glyph font v) w =
    Ret (w\<lparr>fw_buffer := map (screen_byte font (fw_info w) (set_cell r c v s)) [0..<n]\<rparr>)"
proof -
  let ?I = "fw_info w" and ?g = "cell_glyph font v"
  have "8 * max_rows w \<le> fi_height ?I" "8 * max_columns w \<le> fi_width ?I"
    by (simp_all add: max_rows_def max_columns_def CHAR_WIDTH_def CHAR_HEIGHT_def)
  then have "r * 8 + length ?g \<le> fi_height ?I" "c * 8 + 8 \<le> fi_width ?I"
    using assms(3,4) length_cell_glyph[OF assms(2)] by simp_all
  from draw_glyph_rows_bytes[where gy = 0 and oy = "r * 8", OF assms(1) _ this assms(7)]
  have "draw_glyph (c * CHAR_WIDTH) (r * CHAR_HEIGHT) ?g w = Ret (w\<lparr>fw_buffer := map (\<lambda>i.
      if r * 8 \<le> py ?I i \<and> py ?I i < r * 8 + 8 \<and> c * 8 \<le> px ?I i \<and> px ?I i < c * 8 + 8 \<and> is_lit ?I i
      then shade (bit (?g ! (py ?I i - r * 8)) (px ?I i - c * 8)) else screen_byte font ?I s i) [0..<n]\<rparr>)"
    using length_cell_glyph[OF assms(2)] by (simp add: draw_glyph_def CHAR_WIDTH_def CHAR_HEIGHT_def screen_byte_def Let_def)
  moreover have "(if r * 8 \<le> py ?I i \<and> py ?I i < r * 8 + 8 \<and> c * 8 \<le> px ?I i \<and> px ?I i < c * 8 + 8 \<and> is_lit ?I i
      then shade (bit (?g ! (py ?I i - r * 8)) (px ?I i - c * 8)) else screen_byte font ?I s i) =
    screen_byte font ?I (set_cell r c v s) i" for i
  proof (cases "py ?I i div 8 = r \<and> px ?I i div 8 = c")
    case True
    then have "py ?I i < 8 * max_rows w" "px ?I i < 8 * max_columns w" using assms(3,4) by auto
    moreover from True have "py ?I i mod 8 = py ?I i - r * 8" "px ?I i mod 8 = px ?I i - c * 8" by (simp_all add: cell_index(2))
    ultimately show ?thesis
      using True cell_index(1)[of "py ?I i" r] cell_index(1)[of "px ?I i" c] assms(5,6) by (simp add: screen_byte_def set_cell_def Let_def)
  next
    case False
    with cell_index(1)[of "py ?I i" r] cell_index(1)[of "px ?I i" c] show ?thesis
      by (auto simp: screen_byte_def set_cell_def Let_def)
  qed
  ultimately show ?thesis by simp
qed

text \<open>Scrolling moves every row of characters up and blanks the last one.\<close>

lemma scroll_buffer:
  assumes "addressable (fw_info w)" "fw_buffer w = map f [0..<n]" "0 < C" "C = fi_stride (fw_info w) * fi_bytes_per_pixel (fw_info w) * CHAR_HEIGHT"
  shows "scroll_one_row w = Ret (w\<lparr>fw_buffer := map (\<lambda>i. if i + C < n then f (i + C) else 0) [0..<n]\<rparr>)"
proof (cases "n \<le> C")
  case True
  then have "map (\<lambda>i. if i + C < n then f (i + C) else 0) [0..<n] = replicate n 0" by (auto intro!: nth_equalityI)
  with True assms(2-4) show ?thesis by (simp add: scroll_one_row_def scroll_steps[OF assms(1)] Let_def)
next
  case False
  have "take (n - C) (drop C (fw_buffer w) @ drop (n - C) (fw_buffer w)) @ replicate C 0 =
      map (\<lambda>i. if i + C < n then f (i + C) else 0) [0..<n]"
    using False assms(2) by (intro nth_equalityI) (auto simp: nth_append add.commute)
  with False assms(2-4) show ?thesis by (simp add: scroll_one_row_def scroll_steps[OF assms(1)] Let_def)
qed

lemma coords_shift:
  assumes "0 < fi_bytes_per_pixel info" "0 < fi_stride info" "C = fi_stride info * fi_bytes_per_pixel info * 8"
  shows "py info (i + C) = py info i + 8" "px info (i + C) = px info i" "is_lit info (i + C) = is_lit info i"
proof -
  let ?b = "fi_bytes_per_pixel info" and ?s = "fi_stride info"
  have C: "i + C = i + (8 * ?s) * ?b" using assms(3) by (simp add: mult.commute mult.left_commute)
  have "(i + C) div ?b = i div ?b + 8 * ?s" "(i + C) mod ?b = i mod ?b"
    unfolding C using assms(1) by simp_all
  then show "py info (i + C) = py info i + 8" "px info (i + C) = px info i" "is_lit info (i + C) = is_lit info i"
    using assms(2) by (simp_all add: py_def px_def is_lit_def)
qed

lemma geometry_pos:
  assumes "geometry_ok w"
  shows "0 < fi_bytes_per_pixel (fw_info w)" "0 < fi_stride (fw_info w)"
proof -
  show "0 < fi_bytes_per_pixel (fw_info w)" using assms by (simp add: geometry_ok_def)
  have "0 < fi_width (fw_info w)" using assms by (auto simp: geometry_ok_def max_columns_def intro: gr0I)
  with assms show "0 < fi_stride (fw_info w)" by (auto simp: geometry_ok_def)
qed

lemma last_rows_dark:
  assumes "geometry_ok w" "fw_buffer w = map f [0..<n]" "\<not> i + C < n"
    "C = fi_stride (fw_info w) * fi_bytes_per_pixel (fw_info w) * 8"
  shows "8 * max_rows w \<le> py (fw_info w) i + 8"
proof -
  let ?I = "fw_info w"
  note pos = geometry_pos[OF assms(1)]
  have "fi_height ?I * fi_stride ?I * fi_bytes_per_pixel ?I \<le> i + C" using assms(1-3) by (simp add: geometry_ok_def)
  then have "fi_height ?I * fi_stride ?I \<le> (i + C) div fi_bytes_per_pixel ?I"
    using pos(1) by (simp add: less_eq_div_iff_mult_less_eq)
  then have "fi_height ?I \<le> py ?I (i + C)" using pos(2) by (simp add: py_def less_eq_div_iff_mult_less_eq)
  then have "fi_height ?I \<le> py ?I i + 8" using coords_shift(1)[OF pos assms(4)] by simp
  then show ?thesis by (simp add: max_rows_def CHAR_HEIGHT_def)
qed

lemma row_bound:
  fixes y R :: nat
  shows "y + 8 < 8 * R \<longleftrightarrow> y div 8 + 1 < R" "y div 8 + 1 < R \<Longrightarrow> y < 8 * R" "(y + 8) div 8 = Suc (y div 8)"
proof -
  have y: "y = 8 * (y div 8) + y mod 8" "y mod 8 < 8" by simp_all
  then show "y + 8 < 8 * R \<longleftrightarrow> y div 8 + 1 < R" by linarith
  from y show "y div 8 + 1 < R \<Longrightarrow> y < 8 * R" by linarith
qed simp

lemma scroll_shows:
  assumes "geometry_ok w" "sc_rows s = max_rows w" "sc_columns s = max_columns w"
    and buf: "fw_buffer w = map (screen_byte font (fw_info w) s) [0..<n]"
  shows "scroll_one_row w = Ret (w\<lparr>fw_buffer := map (screen_byte font (fw_info w)
    (s\<lparr>sc_cells := (\<lambda>r c. if r + 1 < sc_rows s then sc_cells s (r + 1) c else None)\<rparr>)) [0..<n]\<rparr>)"
    (is "_ = Ret (w\<lparr>fw_buffer := map (screen_byte font ?I ?s) _\<rparr>)")
proof -
  define C where "C = fi_stride ?I * fi_bytes_per_pixel ?I * 8"
  note pos = geometry_pos[OF assms(1)]
  then have "0 < C" by (simp add: C_def)
  have "addressable ?I" using assms(1) by (simp add: geometry_ok_def)
  from scroll_buffer[OF this buf \<open>0 < C\<close>] have "scroll_one_row w = Ret (w\<lparr>fw_buffer :=
      map (\<lambda>i. if i + C < n then screen_byte font ?I s (i + C) else 0) [0..<n]\<rparr>)"
    by (simp add: C_def CHAR_HEIGHT_def)
  moreover have "(if i + C < n then screen_byte font ?I s (i + C) else 0) = screen_byte font ?I ?s i" for i
  proof (cases "i + C < n")
    case True
    have "bit (cell_glyph font None ! (j mod 8)) k = False" for j k by (simp add: cell_glyph_def)
    moreover note row_bound(1)[of "py ?I i" "sc_rows s"] row_bound(2)[of "py ?I i" "sc_rows s"]
    ultimately show ?thesis
      using True coords_shift[OF pos C_def, of i]
      by (cases "py ?I i div 8 + 1 < sc_rows s") (simp_all add: screen_byte_def Let_def shade_def row_bound(3))
  next
    case False
    have "bit (cell_glyph font None ! (j mod 8)) k = False" for j k by (simp add: cell_glyph_def)
    with False last_rows_dark[OF assms(1) buf False C_def] assms(2) show ?thesis
      by (auto simp: screen_byte_def Let_def shade_def)
  qed
  ultimately show ?thesis by simp
qed

text \<open>The operations of the writer on the screen it shows.\<close>

lemma shows_screenI:
  assumes "shows_screen font w s" "fw_info w' = fw_info w" "n = length (fw_buffer w)"
    and "fw_buffer w' = map (screen_byte font (fw_info w) s') [0..<n]"
    and "sc_rows s' = sc_rows s" "sc_columns s' = sc_columns s" "sc_row s' = fw_row w'" "sc_column s' = fw_column w'"
    and "fw_row w' < max_rows w" "fw_column w' \<le> max_columns w"
  shows "shows_screen font w' s'"
  using assms by (simp add: shows_screen_def geometry_ok_def max_rows_def max_columns_def)

lemma screen_byte_cursor [simp]:
  "screen_byte font info (s\<lparr>sc_row := r\<rparr>) = screen_byte font info s"
  "screen_byte font info (s\<lparr>sc_column := c\<rparr>) = screen_byte font info s"
  by (simp_all add: screen_byte_def fun_eq_iff Let_def)

lemma new_line_shows:
  assumes "shows_screen font w s"
  shows "\<exists>w'. new_line w = Ret w' \<and> shows_screen font w' (screen_line s)"
proof -
  let ?n = "length (fw_buffer w)"
  let ?w = "w\<lparr>fw_column := 0, fw_row := fw_row w + 1\<rparr>"
  have w: "geometry_ok w" "sc_rows s = max_rows w" "sc_columns s = max_columns w" "sc_row s = fw_row w"
    "fw_buffer w = map (screen_byte font (fw_info w) s) [0..<?n]" "0 < max_rows w"
    using assms by (simp_all add: shows_screen_def geometry_ok_def)
  have dims: "max_rows ?w = max_rows w" by (simp add: max_rows_def)
  have step: "add_usize (fw_row w) (Suc 0) = Ret (Suc (fw_row w))"
    using assms by (intro row_step) (auto simp: shows_screen_def geometry_ok_def cursor_ok_def)
  show ?thesis
  proof (cases "fw_row w + 1 < max_rows w")
    case True
    then have "new_line w = Ret ?w" by (simp add: new_line_def step Let_def max_rows_def)
    moreover have "shows_screen font ?w (screen_line s)"
      using True w by (intro shows_screenI[OF assms, of _ ?n]) (simp_all add: screen_line_def)
    ultimately show ?thesis by blast
  next
    case False
    let ?s = "s\<lparr>sc_cells := (\<lambda>r c. if r + 1 < sc_rows s then sc_cells s (r + 1) c else None)\<rparr>"
    let ?v = "?w\<lparr>fw_buffer := map (screen_byte font (fw_info w) ?s) [0..<?n], fw_row := max_rows w - 1\<rparr>"
    have "geometry_ok ?w" using w(1) by (simp add: geometry_ok_def max_rows_def max_columns_def)
    then have "scroll_one_row ?w = Ret (?w\<lparr>fw_buffer := map (screen_byte font (fw_info w) ?s) [0..<?n]\<rparr>)"
      using scroll_shows[of ?w s font ?n] w by (simp add: max_rows_def max_columns_def)
    then have "new_line w = Ret ?v"
      using False by (simp add: new_line_def step Let_def dims) (simp add: max_rows_def)
    moreover have "shows_screen font ?v (screen_line s)"
      using False w by (intro shows_screenI[OF assms, of _ ?n]) (simp_all add: screen_line_def)
    ultimately show ?thesis by blast
  qed
qed

lemma screen_line_simps [simp]:
  "sc_rows (screen_line s) = sc_rows s" "sc_columns (screen_line s) = sc_columns s" "sc_column (screen_line s) = 0"
  by (simp_all add: screen_line_def)

lemma write_renderable_shows:
  assumes "font_ok font" "shows_screen font w s"
  shows "\<exists>w'. write_renderable font c w = Ret w' \<and> shows_screen font w' (screen_put c s)"
proof -
  have dims: "max_columns w \<noteq> 0" "max_rows w \<noteq> 0" using assms(2) by (simp_all add: shows_screen_def geometry_ok_def)
  define s1 where "s1 = (if sc_column s < sc_columns s then s else screen_line s)"
  obtain w1 where w1: "(if max_columns w \<le> fw_column w then new_line w else Ret w) = Ret w1" "shows_screen font w1 s1"
    using new_line_shows[OF assms(2)] assms(2) by (cases "max_columns w \<le> fw_column w") (auto simp: shows_screen_def s1_def)
  have "sc_column s1 < sc_columns s1" using assms(2) dims by (auto simp: shows_screen_def s1_def)
  with w1(2) have w1': "geometry_ok w1" "fw_row w1 < max_rows w1" "fw_column w1 < max_columns w1" "sc_rows s1 = max_rows w1"
    "sc_columns s1 = max_columns w1" "sc_row s1 = fw_row w1" "sc_column s1 = fw_column w1"
    "fw_buffer w1 = map (screen_byte font (fw_info w1) s1) [0..<length (fw_buffer w1)]"
    by (simp_all only: shows_screen_def)
  have a: "addressable (fw_info w1)" using w1'(1) by (simp add: geometry_ok_def)
  note steps = cell_origin(1,2)[OF a w1'(3)] cell_origin(3)[OF a w1'(2)]
  let ?b = "map (screen_byte font (fw_info w1) (set_cell (fw_row w1) (fw_column w1) (Some c) s1)) [0..<length (fw_buffer w1)]"
  have "draw_glyph (fw_column w1 * CHAR_WIDTH) (fw_row w1 * CHAR_HEIGHT) (glyph_of font c) w1 = Ret (w1\<lparr>fw_buffer := ?b\<rparr>)"
    using draw_cell[OF w1'(1) assms(1) w1'(2,3,4,5,8), of "Some c"] by (simp add: cell_glyph_def)
  then have "write_renderable font c w = Ret (w1\<lparr>fw_buffer := ?b, fw_column := fw_column w1 + 1\<rparr>)"
    using dims w1'(2) steps by (simp add: write_renderable_def w1(1))
  moreover have "shows_screen font (w1\<lparr>fw_buffer := ?b, fw_column := fw_column w1 + 1\<rparr>) (screen_put c s)"
    unfolding screen_put_def s1_def[symmetric] Let_def
    using w1' by (intro shows_screenI[OF w1(2), of _ "length (fw_buffer w1)"]) (simp_all, simp_all add: set_cell_def)
  ultimately show ?thesis by blast
qed

lemma write_spaces_shows:
  assumes "font_ok font"
  shows "shows_screen font w s \<Longrightarrow> \<exists>w'. write_spaces font n w = Ret w' \<and> shows_screen font w' ((screen_put CHR '' '' ^^ n) s)"
proof (induction n arbitrary: w s)
  case (Suc n)
  obtain w1 where "write_renderable font CHR '' '' w = Ret w1" "shows_screen font w1 (screen_put CHR '' '' s)"
    using write_renderable_shows[OF assms Suc.prems] by blast
  with Suc.IH[of w1 "screen_put CHR '' '' s"] show ?case by (simp add: funpow_swap1)
qed simp

lemma backspace_shows:
  assumes "font_ok font" "shows_screen font w s"
  shows "\<exists>w'. writer_backspace w = Ret w' \<and> shows_screen font w' (screen_back s)"
proof -
  have w: "geometry_ok w" "sc_rows s = max_rows w" "sc_columns s = max_columns w" "sc_row s = fw_row w" "sc_column s = fw_column w"
    "fw_row w < max_rows w" "fw_column w \<le> max_columns w" "0 < max_columns w" "0 < max_rows w"
    "fw_buffer w = map (screen_byte font (fw_info w) s) [0..<length (fw_buffer w)]"
    using assms(2) unfolding shows_screen_def geometry_ok_def by blast+
  show ?thesis
  proof (cases "fw_column w = 0 \<and> fw_row w = 0")
    case True
    with w assms(2) show ?thesis by (auto simp: writer_backspace_def screen_back_def)
  next
    case False
    define w1 where "w1 = (if fw_column w > 0 then w\<lparr>fw_column := fw_column w - 1\<rparr>
        else w\<lparr>fw_row := fw_row w - 1, fw_column := max_columns w - 1\<rparr>)"
    define s1 where "s1 = (if 0 < sc_column s then s\<lparr>sc_column := sc_column s - 1\<rparr>
        else s\<lparr>sc_row := sc_row s - 1, sc_column := sc_columns s - 1\<rparr>)"
    have w1: "fw_info w1 = fw_info w" "fw_buffer w1 = fw_buffer w" "max_rows w1 = max_rows w" "max_columns w1 = max_columns w"
      "fw_row w1 < max_rows w" "fw_column w1 < max_columns w" "sc_row s1 = fw_row w1" "sc_column s1 = fw_column w1"
      "sc_rows s1 = max_rows w" "sc_columns s1 = max_columns w"
      using w False by (auto simp: w1_def s1_def max_rows_def max_columns_def)
    have "screen_byte font info s1 = screen_byte font info s" for info by (auto simp: s1_def)
    then have buf: "fw_buffer w1 = map (screen_byte font (fw_info w1) s1) [0..<length (fw_buffer w)]" using w(10) w1 by metis
    have geo: "geometry_ok w1" using w(1) w1 by (simp add: geometry_ok_def)
    have a: "addressable (fw_info w1)" using geo by (simp add: geometry_ok_def)
    have steps: "mul_usize (fw_column w1) CHAR_WIDTH = Ret (fw_column w1 * CHAR_WIDTH)" "mul_usize (fw_row w1) CHAR_HEIGHT = Ret (fw_row w1 * CHAR_HEIGHT)"
      using w1(3-6) by (simp_all add: cell_origin[OF a])
    let ?b = "map (screen_byte font (fw_info w) (set_cell (fw_row w1) (fw_column w1) None s1)) [0..<length (fw_buffer w)]"
    have "draw_glyph (fw_column w1 * CHAR_WIDTH) (fw_row w1 * CHAR_HEIGHT) (replicate 8 0) w1 = Ret (w1\<lparr>fw_buffer := ?b\<rparr>)"
      using draw_cell[OF geo assms(1) _ _ _ _ buf, of "fw_row w1" "fw_column w1" None] w1 by (simp add: cell_glyph_def)
    then have "writer_backspace w = Ret (w1\<lparr>fw_buffer := ?b\<rparr>)"
      using False w(8,9) unfolding writer_backspace_def w1_def[symmetric] Let_def by (auto simp: steps)
    moreover have "screen_back s = set_cell (fw_row w1) (fw_column w1) None s1"
      using False w w1(7,8) unfolding screen_back_def s1_def[symmetric] Let_def by auto
    moreover have "shows_screen font (w1\<lparr>fw_buffer := ?b\<rparr>) (set_cell (fw_row w1) (fw_column w1) None s1)"
      using w1 w(2,3) by (intro shows_screenI[OF assms(2) _ refl]) (simp_all add: set_cell_def)
    ultimately show ?thesis by auto
  qed
qed

lemma write_char_shows:
  assumes "font_ok font" "shows_screen font w s"
  shows "\<exists>w'. write_char font c w = Ret w' \<and> shows_screen font w' (screen_char c s)"
proof -
  have "shows_screen font (w\<lparr>fw_column := 0\<rparr>) (s\<lparr>sc_column := 0\<rparr>)"
    using assms(2) by (intro shows_screenI[OF assms(2) _ refl]) (simp_all add: shows_screen_def)
  then show ?thesis
    using new_line_shows[OF assms(2)] write_renderable_shows[OF assms] write_spaces_shows[OF assms, of 4] backspace_shows[OF assms]
    by (auto simp: write_char_def screen_char_def)
qed

section \<open>The console over time\<close>

text \<open>What the kernel does to the framebuffer: it prints and it clears the screen.\<close>

datatype console_event = Out string | ClearScreen

fun fb_replay :: "font \<Rightarrow> console_event list \<Rightarrow> FrameBufferWriter option \<Rightarrow> FrameBufferWriter option run" where
  "fb_replay font [] writer = Ret writer"
| "fb_replay font (Out text # es) writer = bind_run (fb_print font text writer) (fb_replay font es)"
| "fb_replay font (ClearScreen # es) writer = fb_replay font es (fb_clear writer)"

definition blank_screen :: "nat \<Rightarrow> nat \<Rightarrow> Screen" where
  "blank_screen rows columns = \<lparr>sc_rows = rows, sc_columns = columns, sc_cells = (\<lambda>_ _. None), sc_row = 0, sc_column = 0\<rparr>"

fun screen_replay :: "console_event list \<Rightarrow> Screen \<Rightarrow> Screen" where
  "screen_replay [] s = s"
| "screen_replay (Out text # es) s = screen_replay es (fold screen_char text s)"
| "screen_replay (ClearScreen # es) s = screen_replay es (blank_screen (sc_rows s) (sc_columns s))"

definition char_step :: "font \<Rightarrow> char \<Rightarrow> FrameBufferWriter \<Rightarrow> (unit \<times> FrameBufferWriter) run" where
  "char_step font c w = bind_run (write_char font c w) (\<lambda>w. Ret ((), w))"

interpretation text_console: simulated_machine "char_step font" "\<lambda>c s. ((), screen_char c s)"
  "\<lambda>w s. font_ok font \<and> shows_screen font w s" "\<lambda>_. True" for font
proof
  fix w s c
  assume "font_ok font \<and> shows_screen font w s"
  with write_char_shows[of font w s c]
  show "\<exists>r w' s'. char_step font c w = Ret (r, w') \<and> ((), screen_char c s) = (r, s') \<and> font_ok font \<and> shows_screen font w' s'"
    by (auto simp: char_step_def)
qed

lemma write_str_calls: "write_str font s w = bind_run (run_calls (char_step font) s w) (\<lambda>(_, w). Ret w)"
proof (induction s arbitrary: w)
  case (Cons c s)
  then show ?case by (cases "write_char font c w") (simp_all add: char_step_def bind_run_assoc split_beta)
qed simp

lemma spec_calls_fold: "spec_calls (\<lambda>c s. ((), f c s)) xs a = (replicate (length xs) (), fold f xs a)"
  by (induction xs arbitrary: a) simp_all

lemma write_str_shows:
  assumes "font_ok font" "shows_screen font w s"
  shows "\<exists>w'. write_str font t w = Ret w' \<and> shows_screen font w' (fold screen_char t s)"
  using text_console.calls_simulate[of font w s t] assms
  by (auto simp: write_str_calls spec_calls_fold list_all_iff)

lemma clear_shows:
  assumes "geometry_ok w"
  shows "shows_screen font (writer_clear w) (blank_screen (max_rows w) (max_columns w))"
proof -
  have "screen_byte font (fw_info w) (blank_screen (max_rows w) (max_columns w)) i = 0" for i
    by (simp add: screen_byte_def blank_screen_def cell_glyph_def shade_def Let_def)
  then have "map (screen_byte font (fw_info w) (blank_screen (max_rows w) (max_columns w))) [0..<n] = replicate n 0" for n
    by (auto intro!: nth_equalityI)
  with assms show ?thesis
    by (simp add: shows_screen_def writer_clear_def geometry_ok_def max_rows_def max_columns_def) (simp add: blank_screen_def)
qed

lemma fb_replay_total:
  "font_ok font \<Longrightarrow> drawable (fw_info w) \<Longrightarrow> cursor_ok w \<Longrightarrow>
   \<exists>w'. fb_replay font es (Some w) = Ret (Some w') \<and> same_frame w w' \<and> cursor_ok w'"
proof (induction font es "Some w" arbitrary: w rule: fb_replay.induct)
  case (2 font t es)
  obtain w1 where w1: "write_str font t w = Ret w1" "same_frame w w1" "cursor_ok w1"
    using write_str_total[OF 2(2-4)] by blast
  with 2(1)[of w1] 2(2,3) same_frame_trans[of w w1] show ?case by (auto simp: fb_print_def same_frame_def[of w w1])
next
  case (3 font es)
  have "cursor_ok (writer_clear w)" "same_frame w (writer_clear w)"
    by (auto simp: cursor_ok_def writer_clear_def max_rows_def max_columns_def same_frame_def)
  with 3(1)[of "writer_clear w"] 3(2,3) same_frame_trans show ?case by (auto simp: fb_clear_def writer_clear_def)
qed (simp add: same_frame_def)

lemma fb_replay_shows:
  "font_ok font \<Longrightarrow> drawable (fw_info w) \<Longrightarrow> cursor_ok w \<Longrightarrow> shows_screen font w s \<Longrightarrow>
   \<exists>w'. fb_replay font es (Some w) = Ret (Some w') \<and> fw_info w' = fw_info w \<and> shows_screen font w' (screen_replay es s)"
proof (induction font es "Some w" arbitrary: w s rule: fb_replay.induct)
  case (2 font t es)
  obtain w1 where w1: "write_str font t w = Ret w1" "same_frame w w1" "cursor_ok w1"
    using write_str_total[OF 2(2-4)] by blast
  moreover from this write_str_shows[OF 2(2,5), of t] have "shows_screen font w1 (fold screen_char t s)" by auto
  ultimately show ?case
    using 2(1)[of w1 "fold screen_char t s"] 2(2,3) by (auto simp: fb_print_def same_frame_def)
next
  case (3 font es)
  have "cursor_ok (writer_clear w)"
    by (auto simp: cursor_ok_def writer_clear_def max_rows_def max_columns_def)
  moreover have "shows_screen font (writer_clear w) (blank_screen (sc_rows s) (sc_columns s))"
    using clear_shows[of w font] 3(5) by (simp add: shows_screen_def)
  ultimately show ?case
    using 3(1)[of "writer_clear w" "blank_screen (sc_rows s) (sc_columns s)"] 3(2,3)
    by (simp add: fb_clear_def writer_clear_def)
qed simp

text \<open>The static \<open>WRITER\<close> as the rest of the kernel finds it: nothing printed to it panics.\<close>

definition console_ok :: "FrameBufferWriter option \<Rightarrow> bool" where
  "console_ok writer \<longleftrightarrow> (case writer of None \<Rightarrow> True | Some w \<Rightarrow> drawable (fw_info w) \<and> cursor_ok w)"

lemma fb_print_console:
  assumes "font_ok font" "console_ok writer"
  shows "\<exists>writer'. fb_print font t writer = Ret writer' \<and> console_ok writer'"
proof (cases writer)
  case (Some w)
  with assms obtain w' where "write_str font t w = Ret w'" "same_frame w w'" "cursor_ok w'"
    using write_str_total[of font w t] by (auto simp: console_ok_def)
  with Some assms(2) show ?thesis by (auto simp: fb_print_def console_ok_def same_frame_def)
qed (simp add: fb_print_def console_ok_def)

lemma fb_replay_console:
  assumes "font_ok font" "console_ok writer"
  shows "\<exists>writer'. fb_replay font es writer = Ret writer' \<and> console_ok writer'"
proof (cases writer)
  case None
  have "fb_replay font es None = Ret None"
    by (induction font es "None :: FrameBufferWriter option" rule: fb_replay.induct) (simp_all add: fb_print_def fb_clear_def)
  with None show ?thesis by (simp add: console_ok_def)
next
  case (Some w)
  with assms fb_replay_total[of font w es] show ?thesis by (auto simp: console_ok_def same_frame_def)
qed

lemma fb_init_cursor: "cursor_ok (writer_clear (writer_new buffer info))"
  by (auto simp: cursor_ok_def writer_clear_def max_rows_def max_columns_def writer_new_def)

lemma fb_init_console: "drawable info \<Longrightarrow> console_ok (fb_init buffer info)"
  using fb_init_cursor by (simp add: console_ok_def fb_init_def) (simp add: writer_clear_def writer_new_def)

section \<open>Properties\<close>

text \<open>A framebuffer of 24 by 19 pixels, 4 bytes each, with a stride of 25: two rows of three characters.\<close>

definition demo_info :: FrameBufferInfo where
  "demo_info = \<lparr>fi_width = 24, fi_height = 19, fi_pixel_format = Bgr, fi_bytes_per_pixel = 4, fi_stride = 25\<rparr>"



end
