(* ===== verification/Monitor_State.thy ===== *)
theory Monitor_State
  imports Task Keyboard Page_Walk Heap Usermode User_Program Command_History Text_Format Framebuffer
begin

text \<open>
  The state the monitor of \<open>kernel/src/main.rs\<close> works on and how its code is composed. \<open>monitor_env\<close>
  holds what boot has fixed: the crates the kernel calls, the tables and addresses the linker and the boot
  loader chose. \<open>monitor\<close> holds the statics of the modules and the arguments and
  variables of \<open>input_loop\<close>, with the console output so far as a list of events for the framebuffer.

  Code of the monitor is a function from the state to its outcome and the new state: it goes on with a
  value, has left for user mode, or has ended the machine with an exit code; and it may panic.
\<close>

section \<open>Environment and state\<close>

datatype QemuExitCode = Success | Failed

definition exit_code_value :: "QemuExitCode \<Rightarrow> u32" where
  "exit_code_value c = (case c of Success \<Rightarrow> 0x10 | Failed \<Rightarrow> 0x11)"

text \<open>\<open>exit_qemu\<close> writes the code to the debug port; nothing runs after it.\<close>

record SchedulerAutoMode =
  am_enabled :: bool
  am_interval_ticks :: u64
  am_next_run_tick :: u64

text \<open>The arguments of \<open>input_loop\<close>, which \<open>MONITOR_CONTEXT\<close> keeps for the return from user mode.\<close>

record MonitorContext =
  mc_memory_regions :: "MemoryRegion list"
  mc_memory_summary :: MemorySummary
  mc_physical_memory_offset :: "u64 option"

record 'm monitor_env =
  me_x86_64 :: x86_64_api
  me_mapper :: "'m mapper_api"
  me_cr3 :: u64
  me_tables :: table_memory
  me_heap :: "(u64 \<times> u64) option"
  me_selectors :: Selectors
  me_fast_status :: FastSyscallStatus
  me_callee :: callee
  me_tss_rsp0 :: u64
  me_syscall_entry :: u64
  me_stack_probe :: u64
  me_code_probe :: u64

record 'm monitor =
  mo_interrupts :: InterruptState
  mo_kernel_summary :: "MemorySummary option"
  mo_monitor_context :: "MonitorContext option"
  mo_tasks :: TaskTable
  mo_usermode :: UsermodeState
  mo_machine :: "'m machine"
  mo_cpu :: cpu
  mo_console :: "console_event list"
  mo_context :: MonitorContext
  mo_decoder :: KeyboardDecoder
  mo_deadline :: u64
  mo_decoded_events :: u64
  mo_line :: InputLine
  mo_history :: CommandHistory
  mo_rendered_len :: nat
  mo_overwrite_mode :: bool
  mo_auto :: SchedulerAutoMode

section \<open>Composition\<close>

datatype 'a flow = Done 'a | EnteredUser | Exited QemuExitCode

type_synonym ('a, 'm) mon = "'m monitor \<Rightarrow> ('a flow \<times> 'm monitor) run"

definition ret_mon :: "'a \<Rightarrow> ('a, 'm) mon" where
  "ret_mon x s = Ret (Done x, s)"

definition bind_mon :: "('a, 'm) mon \<Rightarrow> ('a \<Rightarrow> ('b, 'm) mon) \<Rightarrow> ('b, 'm) mon" where
  "bind_mon m f s = bind_run (m s) (\<lambda>(r, s'). case r of
      Done x \<Rightarrow> f x s'
    | EnteredUser \<Rightarrow> Ret (EnteredUser, s')
    | Exited code \<Rightarrow> Ret (Exited code, s'))"

abbreviation then_mon :: "('a, 'm) mon \<Rightarrow> ('b, 'm) mon \<Rightarrow> ('b, 'm) mon" where
  "then_mon m n \<equiv> bind_mon m (\<lambda>_. n)"

definition reads :: "('m monitor \<Rightarrow> 'a) \<Rightarrow> ('a, 'm) mon" where
  "reads f s = Ret (Done (f s), s)"

definition change :: "('m monitor \<Rightarrow> 'm monitor) \<Rightarrow> (unit, 'm) mon" where
  "change f s = Ret (Done (), f s)"

text \<open>Code that may panic, with and without an effect on the state, and the end of the machine.\<close>

definition lift_run :: "'a run \<Rightarrow> ('a, 'm) mon" where
  "lift_run r s = bind_run r (\<lambda>x. Ret (Done x, s))"

definition act :: "('m monitor \<Rightarrow> ('a \<times> 'm monitor) run) \<Rightarrow> ('a, 'm) mon" where
  "act f s = bind_run (f s) (\<lambda>(x, s'). Ret (Done x, s'))"

definition exit_qemu :: "QemuExitCode \<Rightarrow> ('a, 'm) mon" where
  "exit_qemu code s = Ret (Exited code, s)"

fun each :: "'b list \<Rightarrow> ('b \<Rightarrow> (unit, 'm) mon) \<Rightarrow> (unit, 'm) mon" where
  "each [] f = ret_mon ()"
| "each (x # xs) f = then_mon (f x) (each xs f)"

section \<open>Console output\<close>

text \<open>The macros \<open>console_print!\<close> and \<open>console_println!\<close>: the same text to the serial port and the framebuffer.\<close>

definition NEWLINE :: string where "NEWLINE = [CHR 0x0A]"

definition console_print :: "string \<Rightarrow> (unit, 'm) mon" where
  "console_print text = change (\<lambda>s. s\<lparr>mo_console := mo_console s @ [Out text]\<rparr>)"

definition console_println :: "string \<Rightarrow> (unit, 'm) mon" where
  "console_println text = console_print (text @ NEWLINE)"

lemma console_print_run: "console_print t s = Ret (Done (), s\<lparr>mo_console := mo_console s @ [Out t]\<rparr>)"
  by (simp add: console_print_def change_def)

lemma each_print:
  "each xs (\<lambda>_. console_print t) s = Ret (Done (), s\<lparr>mo_console := mo_console s @ replicate (length xs) (Out t)\<rparr>)"
  by (induction xs arbitrary: s) (simp_all add: ret_mon_def bind_mon_def console_print_run)

lemmas mon_simps = bind_mon_def reads_def lift_run_def change_def ret_mon_def act_def console_println_def console_print_run each_print

section \<open>Code that keeps an invariant\<close>

text \<open>
  From a state with the first condition the code ends, however it ends, in a state with the second; it
  may panic only in the ways the first argument allows. The two conditions are often the same invariant.
\<close>

definition yields :: "(panic \<Rightarrow> bool) \<Rightarrow> ('m monitor \<Rightarrow> bool) \<Rightarrow> ('a, 'm) mon \<Rightarrow> ('m monitor \<Rightarrow> bool) \<Rightarrow> bool" where
  "yields pan P m Q \<longleftrightarrow> (\<forall>s. P s \<longrightarrow> (case m s of Ret (r, s') \<Rightarrow> Q s' | Panic p \<Rightarrow> pan p))"

abbreviation keeps :: "(panic \<Rightarrow> bool) \<Rightarrow> ('m monitor \<Rightarrow> bool) \<Rightarrow> ('a, 'm) mon \<Rightarrow> bool" where
  "keeps pan I m \<equiv> yields pan I m I"

named_theorems keeps_rules \<open>rules for code that keeps an invariant\<close>

lemma yieldsI: "(\<And>s. P s \<Longrightarrow> \<exists>r s'. m s = Ret (r, s') \<and> Q s') \<Longrightarrow> yields pan P m Q"
  by (fastforce simp: yields_def)

lemma yieldsD: "yields pan P m Q \<Longrightarrow> P s \<Longrightarrow> (\<exists>r s'. m s = Ret (r, s') \<and> Q s') \<or> (\<exists>p. m s = Panic p \<and> pan p)"
  by (cases "m s") (auto simp: yields_def)

lemma yields_weaken: "yields pan P' m Q' \<Longrightarrow> (\<And>s. P s \<Longrightarrow> P' s) \<Longrightarrow> (\<And>s. Q' s \<Longrightarrow> Q s) \<Longrightarrow> yields pan P m Q"
  by (fastforce simp: yields_def split: run.splits)

text \<open>Code that ends early ends with what has been established so far.\<close>

lemma yields_bind:
  assumes "yields pan P m Q" "\<And>x. yields pan Q (f x) R" "\<And>s. Q s \<Longrightarrow> R s"
  shows "yields pan P (bind_mon m f) R"
  unfolding yields_def
proof (intro allI impI)
  fix s
  assume "P s"
  from yieldsD[OF assms(1) this]
  show "case bind_mon m f s of Ret (r, s') \<Rightarrow> R s' | Panic p \<Rightarrow> pan p"
  proof (elim disjE exE conjE)
    fix r s1
    assume "m s = Ret (r, s1)" "Q s1"
    then show ?thesis using assms(2,3) by (cases r) (simp_all add: bind_mon_def yields_def)
  qed (simp add: bind_mon_def)
qed

lemma keeps_ret [keeps_rules]: "keeps pan I (ret_mon x)"
  by (simp add: yields_def ret_mon_def)

lemma keeps_exit [keeps_rules]: "keeps pan I (exit_qemu code)"
  by (simp add: yields_def exit_qemu_def)

lemma keeps_reads [keeps_rules]: "keeps pan I (reads f)"
  by (simp add: yields_def reads_def)

lemma keeps_bind [keeps_rules]: "keeps pan I m \<Longrightarrow> (\<And>x. keeps pan I (f x)) \<Longrightarrow> keeps pan I (bind_mon m f)"
  by (rule yields_bind)

text \<open>When the value read matters, it is the one of a state with the condition.\<close>

lemma yields_reads_bind:
  assumes "\<And>s. P s \<Longrightarrow> yields pan P (f (g s)) Q"
  shows "yields pan P (bind_mon (reads g) f) Q"
  using assms by (auto simp: yields_def bind_mon_def reads_def)

lemma yields_lift_bind: "r = Ret x \<Longrightarrow> yields pan P (f x) Q \<Longrightarrow> yields pan P (bind_mon (lift_run r) f) Q"
  by (simp add: yields_def bind_mon_def lift_run_def)

lemma yields_act: "(\<And>s. P s \<Longrightarrow> \<exists>x s'. f s = Ret (x, s') \<and> Q s') \<Longrightarrow> yields pan P (act f) Q"
  by (fastforce simp: yields_def act_def)

lemma yields_change: "(\<And>s. P s \<Longrightarrow> Q (f s)) \<Longrightarrow> yields pan P (change f) Q"
  by (simp add: yields_def change_def)

lemma keeps_if [keeps_rules]: "(b \<Longrightarrow> keeps pan I m) \<Longrightarrow> (\<not> b \<Longrightarrow> keeps pan I n) \<Longrightarrow> keeps pan I (if b then m else n)"
  by simp

lemma keeps_case_option [keeps_rules]:
  "(v = None \<Longrightarrow> keeps pan I m) \<Longrightarrow> (\<And>x. v = Some x \<Longrightarrow> keeps pan I (f x)) \<Longrightarrow> keeps pan I (case v of None \<Rightarrow> m | Some x \<Rightarrow> f x)"
  by (cases v) auto

lemma keeps_case_result [keeps_rules]:
  "(\<And>e. v = Inl e \<Longrightarrow> keeps pan I (g e)) \<Longrightarrow> (\<And>x. v = Inr x \<Longrightarrow> keeps pan I (f x)) \<Longrightarrow>
   keeps pan I (case v of Inl e \<Rightarrow> g e | Inr x \<Rightarrow> f x)"
  by (cases v) auto

lemma keeps_case_list [keeps_rules]:
  "(v = [] \<Longrightarrow> keeps pan I m) \<Longrightarrow> (\<And>x xs. v = x # xs \<Longrightarrow> keeps pan I (f x xs)) \<Longrightarrow>
   keeps pan I (case v of [] \<Rightarrow> m | x # xs \<Rightarrow> f x xs)"
  by (cases v) auto

lemma keeps_case_prod [keeps_rules]: "(\<And>x y. v = (x, y) \<Longrightarrow> keeps pan I (f x y)) \<Longrightarrow> keeps pan I (case v of (x, y) \<Rightarrow> f x y)"
  by (cases v) auto

lemma keeps_let [keeps_rules]: "(\<And>x. keeps pan I (f x)) \<Longrightarrow> keeps pan I (Let v f)"
  by simp

lemma keeps_each [keeps_rules]: "(\<And>x. keeps pan I (f x)) \<Longrightarrow> keeps pan I (each xs f)"
  by (induction xs) (auto intro!: keeps_rules)

lemma yields_act_bind:
  assumes "\<And>s. P s \<Longrightarrow> \<exists>x s'. f s = Ret (x, s') \<and> Q s' \<and> R x" "\<And>x. R x \<Longrightarrow> yields pan Q (g x) Q'"
  shows "yields pan P (bind_mon (act f) g) Q'"
  unfolding yields_def
proof (intro allI impI)
  fix s
  assume "P s"
  then obtain x s' where "f s = Ret (x, s')" "Q s'" "R x" using assms(1) by blast
  then show "case bind_mon (act f) g s of Ret (r, s') \<Rightarrow> Q' s' | Panic p \<Rightarrow> pan p"
    using assms(2) by (simp add: bind_mon_def act_def yields_def)
qed

end
