(* ===== verification/Commands.thy ===== *)
theory Commands
  imports Monitor_State
begin

text \<open>
  \<open>execute_command\<close> of \<open>kernel/src/main.rs\<close> with what it calls: one definition per command of the
  monitor. \<open>parts\<close> is the rest of the iterator over the words of the line; an early \<open>return false\<close> and
  the end of a command are the same outcome.
\<close>

unbundle bit_operations_syntax

section \<open>Reading the state\<close>

definition mo_ticks :: "'m monitor \<Rightarrow> u64" where
  "mo_ticks s = is_ticks (mo_interrupts s)"

text \<open>The statics a system call handler reads, and the handlers behind the gates.\<close>

definition services :: "'m monitor \<Rightarrow> kernel_services" where
  "services s = \<lparr>ks_interrupts = mo_interrupts s, ks_memory = mo_kernel_summary s\<rparr>"

definition gates :: "'m monitor_env \<Rightarrow> 'm monitor \<Rightarrow> handler \<Rightarrow> callee" where
  "gates E s h = (me_callee E)\<lparr>ce_handler := handle_interrupt_from_registers (services s)\<rparr>"

definition invoke :: "'m monitor_env \<Rightarrow> u64 \<Rightarrow> u64 \<Rightarrow> u64 \<Rightarrow> u64 \<Rightarrow> ((u64, SyscallError) result, 'm) mon" where
  "invoke E number arg0 arg1 arg2 = act (\<lambda>s.
     bind_run (invoke_via_interrupt (gates E s) (me_tss_rsp0 E) (me_syscall_entry E) number arg0 arg1 arg2 (mo_cpu s))
       (\<lambda>(r, c). Ret (r, s\<lparr>mo_cpu := c\<rparr>)))"

definition user_demo :: "'m monitor_env \<Rightarrow> ((UserDemoReport, SyscallError) result, 'm) mon" where
  "user_demo E = act (\<lambda>s.
     bind_run (run_user_demo (gates E s) (me_tss_rsp0 E) (me_syscall_entry E) (mo_cpu s))
       (\<lambda>(r, c). Ret (r, s\<lparr>mo_cpu := c\<rparr>)))"

text \<open>
  Starting a demo in ring 3: on success the CPU is there and the caller never goes on (its arm for
  \<open>Ok\<close> is dead code), otherwise the error is returned.
\<close>

definition start_demo ::
  "(UsermodeState \<Rightarrow> 'm machine \<Rightarrow> cpu \<Rightarrow> (cpu \<times> 'm machine, string) result run \<times> UsermodeState) \<Rightarrow> (string, 'm) mon" where
  "start_demo f s =
     (case f (mo_usermode s) (mo_machine s) (mo_cpu s) of
        (r, um) \<Rightarrow> bind_run r (\<lambda>r. case r of
            Inl e \<Rightarrow> Ret (Done e, s\<lparr>mo_usermode := um\<rparr>)
          | Inr (c, mm) \<Rightarrow> Ret (EnteredUser, s\<lparr>mo_usermode := um, mo_cpu := c, mo_machine := mm\<rparr>)))"

section \<open>Information\<close>

definition help_text :: string where
  "help_text = ''commands: help, status, ticks, uptime, timerhz [hz], irq, mem, maps [n|all], heap, vm [addr], vmmap [addr], fault [addr], syscall <n> [a0] [a1] [a2], sysabi, tasks, tasknew [userdemo|monitor|fastsyscall|fastsyscall_fail], taskstep, taskrun [n], tasksleep <id> [ticks], taskwake <id>, taskrm <id>, taskprio <id> <priority>, taskauto [on [ticks]|off], userdemo, usermode, usermode_syscall, usermode_syscall_fail, echo, history, clear, exit''"

definition cmd_help :: "(unit, 'm) mon" where
  "cmd_help = console_println help_text"

definition cmd_status :: "MonitorContext \<Rightarrow> (unit, 'm) mon" where
  "cmd_status C =
     bind_mon (reads (\<lambda>s. keyboard_counters (mo_interrupts s))) (\<lambda>(keyboard_irqs, dropped).
     bind_mon (reads mo_ticks) (\<lambda>ticks.
     console_println (''ticks='' @ fmt_dec ticks @ '' keyboard_irqs='' @ fmt_dec keyboard_irqs @
       '' dropped='' @ fmt_dec dropped @ '' phys_offset='' @ fmt_option (mc_physical_memory_offset C))))"

definition cmd_ticks :: "(unit, 'm) mon" where
  "cmd_ticks = bind_mon (reads mo_ticks) (\<lambda>ticks. console_println (''ticks='' @ fmt_dec ticks))"

definition cmd_uptime :: "(unit, 'm) mon" where
  "cmd_uptime =
     bind_mon (reads mo_ticks) (\<lambda>ticks.
     bind_mon (reads (\<lambda>s. ucast (is_pit_hz (mo_interrupts s)))) (\<lambda>pit_hz.
     bind_mon (lift_run (div_word ticks pit_hz)) (\<lambda>seconds.
     bind_mon (lift_run (bind_run (rem_word ticks pit_hz) (\<lambda>r.
       bind_run (mul_checked_build r 100) (\<lambda>m. div_word m pit_hz)))) (\<lambda>centiseconds.
     console_println (''uptime='' @ fmt_dec seconds @ ''s.'' @ fmt_zero 2 (fmt_dec centiseconds) @
       '' (ticks='' @ fmt_dec ticks @ '', hz='' @ fmt_dec pit_hz @ '')'')))))"

definition cmd_timerhz :: "string list \<Rightarrow> (unit, 'm) mon" where
  "cmd_timerhz parts =
     (case parts of
        [] \<Rightarrow> bind_mon (reads (\<lambda>s. is_pit_hz (mo_interrupts s))) (\<lambda>hz.
          console_println (''timerhz: current_hz='' @ fmt_dec hz))
      | raw_hz # _ \<Rightarrow> (case parse_u64 raw_hz of
          None \<Rightarrow> console_println (''timerhz usage: timerhz [hz] (got: '' @ raw_hz @ '')'')
        | Some requested_hz_raw \<Rightarrow>
            bind_mon (reads (\<lambda>s. is_pit_hz (mo_interrupts s))) (\<lambda>old_hz.
            bind_mon (act (\<lambda>s. case set_pit_hz (ucast (min requested_hz_raw (ucast (- 1 :: u32)))) (mo_interrupts s) of
               (new_hz, st) \<Rightarrow> Ret (new_hz, s\<lparr>mo_interrupts := st\<rparr>))) (\<lambda>new_hz.
            console_println (''timerhz: old_hz='' @ fmt_dec old_hz @ '' new_hz='' @ fmt_dec new_hz)))))"

definition cmd_irq :: "(unit, 'm) mon" where
  "cmd_irq =
     bind_mon (reads (\<lambda>s. keyboard_counters (mo_interrupts s))) (\<lambda>(keyboard_irqs, dropped).
     console_println (''keyboard_irqs='' @ fmt_dec keyboard_irqs @ '', dropped_scancodes='' @ fmt_dec dropped))"

definition cmd_mem :: "MonitorContext \<Rightarrow> (unit, 'm) mon" where
  "cmd_mem C = (let m = mc_memory_summary C in
     console_println (''regions='' @ fmt_nat (ms_total_regions m) @ '' usable_regions='' @ fmt_nat (ms_usable_regions m) @
       '' usable_bytes='' @ fmt_dec (ms_usable_bytes m) @ '' reserved_bytes='' @ fmt_dec (ms_reserved_bytes m) @
       '' largest_usable='' @ fmt_dec (ms_largest_usable_region_bytes m) @
       '' usable_frames_4k='' @ fmt_dec (ms_usable_frames_4k m)))"

text \<open>The loop of \<open>maps\<close> returns how many regions it has shown.\<close>

fun maps_loop :: "nat option \<Rightarrow> nat \<Rightarrow> nat \<Rightarrow> MemoryRegion list \<Rightarrow> (nat, 'm) mon" where
  "maps_loop limit index shown [] = ret_mon shown"
| "maps_loop limit index shown (region # regions) =
     (if (case limit of Some max_entries \<Rightarrow> max_entries \<le> shown | None \<Rightarrow> False) then ret_mon shown
      else then_mon (console_println (fmt_right 3 (fmt_nat index) @ '': ['' @ fmt_hex_width 14 (mr_start region) @
             ''..'' @ fmt_hex_width 14 (mr_end region) @ '') size='' @ fmt_hex_width 10 (region_size region) @
             '' kind='' @ memory_region_kind_name (mr_kind region)))
           (maps_loop limit (index + 1) (shown + 1) regions))"

definition show_maps :: "MonitorContext \<Rightarrow> nat option \<Rightarrow> (unit, 'm) mon" where
  "show_maps C limit =
     then_mon (console_println (''memory map: total_regions='' @ fmt_nat (ms_total_regions (mc_memory_summary C)) @
       '' (usable='' @ fmt_nat (ms_usable_regions (mc_memory_summary C)) @ '' reserved_bytes='' @
       fmt_dec (ms_reserved_bytes (mc_memory_summary C)) @ '')''))
     (bind_mon (maps_loop limit 0 0 (mc_memory_regions C)) (\<lambda>shown.
       if shown < length (mc_memory_regions C)
       then console_println (''... '' @ fmt_nat (length (mc_memory_regions C) - shown) @ '' more regions (use `maps all`)'')
       else ret_mon ()))"

definition cmd_maps :: "MonitorContext \<Rightarrow> string list \<Rightarrow> (unit, 'm) mon" where
  "cmd_maps C parts =
     (case parts of
        [] \<Rightarrow> show_maps C (Some 12)
      | raw # _ \<Rightarrow> if raw = ''all'' then show_maps C None else
          (case parse_u64 raw of
             None \<Rightarrow> console_println (''invalid maps limit: '' @ raw)
           | Some parsed \<Rightarrow> show_maps C (Some (unat parsed))))"

text \<open>The probe allocates; before the heap has its range every allocation fails.\<close>

definition cmd_heap :: "'m monitor_env \<Rightarrow> (unit, 'm) mon" where
  "cmd_heap E =
     bind_mon (lift_run (case me_heap E of None \<Rightarrow> Panic AllocationFailed | Some _ \<Rightarrow> Ret probe_allocations))
       (\<lambda>(boxed_value, vector_sum).
       console_println (''heap_probe: box='' @ fmt_hex boxed_value @ '', vec_sum='' @ fmt_dec vector_sum))"

section \<open>Virtual memory\<close>

definition translate :: "'m monitor_env \<Rightarrow> u64 \<Rightarrow> u64 \<Rightarrow> (u64 option, 'm) mon" where
  "translate E offset virtual_address =
     lift_run (translate_virtual_address (me_x86_64 E) (me_mapper E) (me_cr3 E) offset virtual_address)"

definition print_vm_translation :: "'m monitor_env \<Rightarrow> u64 \<Rightarrow> u64 \<Rightarrow> string \<Rightarrow> (unit, 'm) mon" where
  "print_vm_translation E offset virtual_address label =
     bind_mon (translate E offset virtual_address) (\<lambda>r. case r of
        Some physical_address \<Rightarrow> console_println (''vm['' @ label @ '']: virt='' @ fmt_hex virtual_address @
          '' -> phys='' @ fmt_hex physical_address)
      | None \<Rightarrow> console_println (''vm['' @ label @ '']: virt='' @ fmt_hex virtual_address @ '' is unmapped''))"

text \<open>The addresses both commands show without an argument.\<close>

definition important_mappings :: "'m monitor_env \<Rightarrow> (u64 \<times> string) list" where
  "important_mappings E =
     [(DEMO_PAGE_START, ''demo_page''), (HEAP_START, ''heap_start''), (HEAP_START + 4096, ''heap_next_page''),
      (me_stack_probe E AND NOT 0xfff, ''stack_probe_page''), (me_code_probe E AND NOT 0xfff, ''code_probe_page'')]"

definition cmd_vm :: "'m monitor_env \<Rightarrow> MonitorContext \<Rightarrow> string list \<Rightarrow> (unit, 'm) mon" where
  "cmd_vm E C parts =
     (case mc_physical_memory_offset C of
        None \<Rightarrow> console_println ''physical memory mapping not enabled''
      | Some offset \<Rightarrow> (case parts of
          raw_addr # _ \<Rightarrow> (case parse_u64 raw_addr of
              None \<Rightarrow> console_println (''invalid address: '' @ raw_addr)
            | Some virtual_address \<Rightarrow> bind_mon (translate E offset virtual_address) (\<lambda>r. case r of
                Some physical_address \<Rightarrow> console_println (''vm: virt='' @ fmt_hex virtual_address @
                  '' -> phys='' @ fmt_hex physical_address)
              | None \<Rightarrow> console_println (''vm: virt='' @ fmt_hex virtual_address @ '' is unmapped'')))
        | [] \<Rightarrow> then_mon (console_println ''vm usage: vm <addr>  (no args shows important mappings)'')
            (each (important_mappings E) (\<lambda>(a, label). print_vm_translation E offset a label))))"

definition print_vm_walk :: "'m monitor_env \<Rightarrow> u64 \<Rightarrow> u64 \<Rightarrow> string \<Rightarrow> (unit, 'm) mon" where
  "print_vm_walk E offset virtual_address label =
     bind_mon (lift_run (walk_virtual_address (me_x86_64 E) (me_cr3 E) (me_tables E) offset virtual_address)) (\<lambda>walk.
     then_mon (console_println (''vmmap['' @ label @ '']: virt='' @ fmt_hex (vw_virtual_address walk) @
       '' canonical='' @ fmt_bool (vw_canonical walk) @ '' idx(p4/p3/p2/p1)=('' @ fmt_dec (vw_p4_index walk) @ ''/'' @
       fmt_dec (vw_p3_index walk) @ ''/'' @ fmt_dec (vw_p2_index walk) @ ''/'' @ fmt_dec (vw_p1_index walk) @
       '') off='' @ fmt_hex_width 5 (vw_page_offset walk)))
     (then_mon (console_println (''  flags: p4='' @ fmt_hex (vw_p4_flags_bits walk) @ '' p3='' @
       fmt_hex (vw_p3_flags_bits walk) @ '' p2='' @ fmt_hex (vw_p2_flags_bits walk) @ '' p1='' @ fmt_hex (vw_p1_flags_bits walk)))
     (case (vw_physical_address walk, vw_page_size walk) of
        (Some physical, Some page_size) \<Rightarrow>
          console_println (''  map: phys='' @ fmt_hex physical @ '' page_size='' @ vm_page_size_name page_size)
      | _ \<Rightarrow> console_println ''  map: unmapped'')))"

definition cmd_vmmap :: "'m monitor_env \<Rightarrow> MonitorContext \<Rightarrow> string list \<Rightarrow> (unit, 'm) mon" where
  "cmd_vmmap E C parts =
     (case mc_physical_memory_offset C of
        None \<Rightarrow> console_println ''physical memory mapping not enabled''
      | Some offset \<Rightarrow> (case parts of
          raw_addr # _ \<Rightarrow> (case parse_u64 raw_addr of
              None \<Rightarrow> console_println (''invalid address: '' @ raw_addr)
            | Some virtual_address \<Rightarrow> print_vm_walk E offset virtual_address ''target'')
        | [] \<Rightarrow> then_mon (console_println ''vmmap usage: vmmap <addr>  (no args shows important mappings)'')
            (each (important_mappings E) (\<lambda>(a, label). print_vm_walk E offset a label))))"

text \<open>An optional numeric argument: the default without it, the text back when it is not a number.\<close>

definition optional_arg :: "u64 \<Rightarrow> string list \<Rightarrow> (u64, string) result" where
  "optional_arg fallback parts =
     (case parts of
        [] \<Rightarrow> Inr fallback
      | text # _ \<Rightarrow> (case parse_u64 text of Some v \<Rightarrow> Inr v | None \<Rightarrow> Inl text))"

text \<open>
  The read of \<open>fault\<close>: an unmapped address is a page fault.
\<close>

definition fault_read :: "'m monitor_env \<Rightarrow> u64 \<Rightarrow> (unit, 'm) mon" where
  "fault_read E address = act (\<lambda>s.
     bind_run (read_volatile_u64 (me_mapper E) address (mo_machine s)) (\<lambda>_. Ret ((), s)))"

definition cmd_fault :: "'m monitor_env \<Rightarrow> string list \<Rightarrow> (unit, 'm) mon" where
  "cmd_fault E parts =
     (case optional_arg 0xDEADBEEF parts of
        Inl text \<Rightarrow> console_println (''invalid fault address: '' @ text)
      | Inr fault_address \<Rightarrow>
          then_mon (console_println (''triggering page fault by reading '' @ fmt_hex fault_address @ ''...''))
            (fault_read E fault_address))"

section \<open>System calls\<close>

definition cmd_syscall :: "'m monitor_env \<Rightarrow> string list \<Rightarrow> (unit, 'm) mon" where
  "cmd_syscall E parts =
     (case parts of
        [] \<Rightarrow> console_println ''usage: syscall <number> [arg0] [arg1] [arg2]''
      | number_text # parts \<Rightarrow> (case parse_u64 number_text of
          None \<Rightarrow> console_println (''invalid syscall number: '' @ number_text)
        | Some number \<Rightarrow> (case optional_arg 0 parts of
            Inl text \<Rightarrow> console_println (''invalid arg0: '' @ text)
          | Inr arg0 \<Rightarrow> (case optional_arg 0 (drop 1 parts) of
              Inl text \<Rightarrow> console_println (''invalid arg1: '' @ text)
            | Inr arg1 \<Rightarrow> (case optional_arg 0 (drop 2 parts) of
                Inl text \<Rightarrow> console_println (''invalid arg2: '' @ text)
              | Inr arg2 \<Rightarrow> bind_mon (invoke E number arg0 arg1 arg2) (\<lambda>r. case r of
                  Inr v \<Rightarrow> console_println (''syscall '' @ syscall_name number @ ''('' @ fmt_dec arg0 @ '', '' @
                    fmt_dec arg1 @ '', '' @ fmt_dec arg2 @ '') -> '' @ fmt_hex v)
                | Inl error \<Rightarrow> console_println (''syscall error: '' @ error_name error)))))))"

definition cmd_sysabi :: "'m monitor_env \<Rightarrow> (unit, 'm) mon" where
  "cmd_sysabi E = (let fast = me_fast_status E in
     then_mon (console_println (''syscall ABI mode: '' @ abi_mode_name @ '' (vector='' @ fmt_dec SYSCALL_INTERRUPT_VECTOR @
       '', implementation='' @ abi_mode_details @ '')''))
     (then_mon (console_println (''fast syscall ABI: '' @ fast_abi_mode_details))
     (then_mon (console_println (''fast syscall scaffold: stage='' @ fast_syscall_stage_name (fs_stage fast) @
       '' cpu_support='' @ fmt_bool (fs_cpu_support fast) @ '' sce_enabled='' @ fmt_bool (fs_sce_enabled fast) @
       '' note='' @ fs_note fast))
     (then_mon (case fs_selectors fast of
          Some plan \<Rightarrow> console_println (''fast syscall selector plan: kernel_cs='' @ fmt_hex (sp_kernel_cs plan) @
            '' kernel_ss='' @ fmt_hex (sp_kernel_ss plan) @ '' user_cs='' @ fmt_hex (sp_user_cs plan) @
            '' user_ss='' @ fmt_hex (sp_user_ss plan))
        | None \<Rightarrow> ret_mon ())
     (then_mon (case fs_lstar fast of
          Some lstar \<Rightarrow> console_println (''fast syscall lstar plan: '' @ fmt_hex lstar)
        | None \<Rightarrow> ret_mon ())
     (case fs_kernel_gs_base fast of
          Some kernel_gs_base \<Rightarrow> console_println (''fast syscall kernel_gs_base: '' @ fmt_hex kernel_gs_base)
        | None \<Rightarrow> ret_mon ()))))))"

section \<open>Tasks\<close>

text \<open>The functions of \<open>task.rs\<close> on the static table.\<close>

definition task_spawn :: "TaskKind \<Rightarrow> ((u64, string) result, 'm) mon" where
  "task_spawn kind = act (\<lambda>s. bind_run (table_spawn kind (mo_tasks s)) (\<lambda>(r, tt). Ret (r, s\<lparr>mo_tasks := tt\<rparr>)))"

definition task_step :: "u64 \<Rightarrow> (TaskStepReport option, 'm) mon" where
  "task_step now = act (\<lambda>s. bind_run (table_step now (mo_tasks s)) (\<lambda>(r, tt). Ret (r, s\<lparr>mo_tasks := tt\<rparr>)))"

definition on_table :: "(TaskTable \<Rightarrow> 'r \<times> TaskTable) \<Rightarrow> ('r, 'm) mon" where
  "on_table f = act (\<lambda>s. case f (mo_tasks s) of (r, tt) \<Rightarrow> Ret (r, s\<lparr>mo_tasks := tt\<rparr>))"

definition task_sleep :: "u64 \<Rightarrow> u64 \<Rightarrow> u64 \<Rightarrow> ((u64, string) result, 'm) mon" where
  "task_sleep task_id sleep_ticks now_ticks = on_table (table_sleep task_id sleep_ticks now_ticks)"

definition task_wake :: "u64 \<Rightarrow> u64 \<Rightarrow> ((TaskInfo, string) result, 'm) mon" where
  "task_wake task_id now_ticks = on_table (table_wake task_id now_ticks)"

definition task_remove :: "u64 \<Rightarrow> u64 \<Rightarrow> ((TaskInfo, string) result, 'm) mon" where
  "task_remove task_id now_ticks = on_table (table_remove task_id now_ticks)"

definition task_set_priority :: "u64 \<Rightarrow> u8 \<Rightarrow> u64 \<Rightarrow> ((TaskInfo, string) result, 'm) mon" where
  "task_set_priority task_id priority now_ticks = on_table (table_set_priority task_id priority now_ticks)"

definition task_snapshot :: "(SchedulerSnapshot, 'm) mon" where
  "task_snapshot = reads (\<lambda>s. table_snapshot (mo_tasks s))"

definition task_list :: "TaskInfo option list \<Rightarrow> (nat \<times> TaskInfo option list, 'm) mon" where
  "task_list entries = act (\<lambda>s. bind_run (table_list (mo_tasks s) entries) (\<lambda>r. Ret (r, s)))"

lemmas task_functions = task_sleep_def task_wake_def task_remove_def task_set_priority_def task_snapshot_def task_list_def

definition show_task :: "TaskInfo \<Rightarrow> (unit, 'm) mon" where
  "show_task entry =
     (case ti_sleep_until_tick entry of
        Some until_tick \<Rightarrow> console_println (''  task id='' @ fmt_dec (ti_id entry) @ '' kind='' @ task_kind_name (ti_kind entry) @
          '' state='' @ task_state_name (ti_state entry) @ '' runs='' @ fmt_dec (ti_run_count entry) @
          '' priority='' @ fmt_dec (ti_priority entry) @ '' sleep_until_tick='' @ fmt_dec until_tick)
      | None \<Rightarrow> console_println (''  task id='' @ fmt_dec (ti_id entry) @ '' kind='' @ task_kind_name (ti_kind entry) @
          '' state='' @ task_state_name (ti_state entry) @ '' runs='' @ fmt_dec (ti_run_count entry) @
          '' priority='' @ fmt_dec (ti_priority entry)))"

definition cmd_tasks :: "(unit, 'm) mon" where
  "cmd_tasks =
     bind_mon task_snapshot (\<lambda>snapshot.
     then_mon (console_println (''scheduler: total='' @ fmt_nat (sn_total snapshot) @ '' ready='' @ fmt_nat (sn_ready snapshot) @
       '' running='' @ fmt_nat (sn_running snapshot) @ '' sleeping='' @ fmt_nat (sn_sleeping snapshot) @
       '' finished='' @ fmt_nat (sn_finished snapshot) @ '' capacity='' @ fmt_nat (sn_capacity snapshot) @
       '' next_id='' @ fmt_dec (sn_next_id snapshot)))
     (bind_mon (task_list (replicate MAX_TASKS None)) (\<lambda>(count, entries).
       if count = 0 then console_println ''scheduler table is empty''
       else each (tasks_of (take count entries)) show_task)))"

definition cmd_tasknew :: "string list \<Rightarrow> (unit, 'm) mon" where
  "cmd_tasknew parts =
     (let kind_text = (case parts of text # _ \<Rightarrow> text | [] \<Rightarrow> ''userdemo'')
      in case parse_task_kind kind_text of
        None \<Rightarrow> console_println (''tasknew usage: tasknew [userdemo|monitor|fastsyscall|fastsyscall_fail] (got: '' @ kind_text @ '')'')
      | Some kind \<Rightarrow> bind_mon (task_spawn kind) (\<lambda>r. case r of
          Inr i \<Rightarrow> console_println (''task created: id='' @ fmt_dec i @ '' kind='' @ task_kind_name kind)
        | Inl error \<Rightarrow> console_println (''tasknew failed: '' @ error)))"

definition run_task_payload :: "'m monitor_env \<Rightarrow> TaskKind \<Rightarrow> (unit, 'm) mon" where
  "run_task_payload E kind =
     (case kind of
        UserDemo \<Rightarrow> bind_mon (user_demo E) (\<lambda>r. case r of
            Inr result \<Rightarrow> console_println (''  user_demo result: ticks='' @ fmt_dec (ud_ticks result) @ '' uptime='' @
              fmt_dec (ud_uptime_seconds result) @ ''s sum='' @ fmt_dec (ud_sum result) @ '' usable_bytes='' @
              fmt_dec (ud_usable_bytes result) @ '' usable_frames='' @ fmt_dec (ud_usable_frames result))
          | Inl error \<Rightarrow> console_println (''  user_demo task failed: '' @ error_name error))
      | FastSyscallSuccess \<Rightarrow>
          then_mon (console_println ''  fast_syscall_success task: entering ring3 success-path syscall demo'')
          (bind_mon (start_demo (run_fast_syscall_demo (me_mapper E) (me_selectors E))) (\<lambda>error.
             console_println (''  fast_syscall_success task failed: '' @ error)))
      | FastSyscallError \<Rightarrow>
          then_mon (console_println ''  fast_syscall_error task: entering ring3 error-path syscall demo'')
          (bind_mon (start_demo (run_fast_syscall_error_demo (me_mapper E) (me_selectors E))) (\<lambda>error.
             console_println (''  fast_syscall_error task failed: '' @ error)))
      | KernelMonitor \<Rightarrow> ret_mon ())"

definition run_task_step_with_label_internal :: "'m monitor_env \<Rightarrow> string \<Rightarrow> bool \<Rightarrow> (bool, 'm) mon" where
  "run_task_step_with_label_internal E label print_no_ready =
     bind_mon (reads mo_ticks) (\<lambda>now.
     bind_mon (task_step now) (\<lambda>r. case r of
        Some report \<Rightarrow>
          then_mon (console_println (label @ '': ran id='' @ fmt_dec (sr_id report) @ '' kind='' @
            task_kind_name (sr_kind report) @ '' runs='' @ fmt_dec (sr_run_count report) @ '' (state reset to ready)''))
          (then_mon (run_task_payload E (sr_kind report)) (ret_mon True))
      | None \<Rightarrow>
          then_mon (if print_no_ready then console_println (label @ '': no ready task'') else ret_mon ())
            (ret_mon False)))"

definition run_task_step_with_label :: "'m monitor_env \<Rightarrow> string \<Rightarrow> (bool, 'm) mon" where
  "run_task_step_with_label E label = run_task_step_with_label_internal E label True"

definition cmd_taskstep :: "'m monitor_env \<Rightarrow> (unit, 'm) mon" where
  "cmd_taskstep E = then_mon (run_task_step_with_label E ''taskstep'') (ret_mon ())"

definition DEFAULT_TASKRUN_STEPS :: u64 where "DEFAULT_TASKRUN_STEPS = 4"
definition MAX_TASKRUN_STEPS :: u64 where "MAX_TASKRUN_STEPS = 256"

fun taskrun_loop :: "'m monitor_env \<Rightarrow> nat \<Rightarrow> u64 \<Rightarrow> (u64, 'm) mon" where
  "taskrun_loop E 0 executed = ret_mon executed"
| "taskrun_loop E (Suc n) executed =
     bind_mon (run_task_step_with_label E ''taskrun'') (\<lambda>ran.
       if ran then taskrun_loop E n (saturating_add executed 1) else ret_mon executed)"

definition taskrun_steps :: "'m monitor_env \<Rightarrow> u64 \<Rightarrow> (unit, 'm) mon" where
  "taskrun_steps E steps_requested =
     bind_mon (taskrun_loop E (unat steps_requested) 0) (\<lambda>executed.
     console_println (''taskrun: requested='' @ fmt_dec steps_requested @ '' executed='' @ fmt_dec executed))"

definition cmd_taskrun :: "'m monitor_env \<Rightarrow> string list \<Rightarrow> (unit, 'm) mon" where
  "cmd_taskrun E parts =
     (case parts of
        [] \<Rightarrow> taskrun_steps E DEFAULT_TASKRUN_STEPS
      | raw_steps # _ \<Rightarrow> (case parse_u64 raw_steps of
          None \<Rightarrow> console_println (''taskrun usage: taskrun [steps] (got: '' @ raw_steps @ '')'')
        | Some parsed \<Rightarrow>
            if parsed = 0 then console_println ''taskrun steps must be > 0''
            else taskrun_steps E (min parsed MAX_TASKRUN_STEPS)))"

definition DEFAULT_TASKSLEEP_TICKS :: u64 where "DEFAULT_TASKSLEEP_TICKS = 100"

definition tasksleep :: "u64 \<Rightarrow> u64 \<Rightarrow> (unit, 'm) mon" where
  "tasksleep task_id sleep_ticks =
     bind_mon (reads mo_ticks) (\<lambda>now_tick.
     bind_mon (task_sleep task_id sleep_ticks now_tick) (\<lambda>r. case r of
        Inr until_tick \<Rightarrow> console_println (''tasksleep: id='' @ fmt_dec task_id @ '' sleep_ticks='' @ fmt_dec sleep_ticks @
          '' now_tick='' @ fmt_dec now_tick @ '' until_tick='' @ fmt_dec until_tick)
      | Inl error \<Rightarrow> console_println (''tasksleep failed: '' @ error)))"

definition cmd_tasksleep :: "string list \<Rightarrow> (unit, 'm) mon" where
  "cmd_tasksleep parts =
     (case parts of
        [] \<Rightarrow> console_println ''tasksleep usage: tasksleep <id> [ticks]''
      | raw_task_id # parts \<Rightarrow> (case parse_u64 raw_task_id of
          None \<Rightarrow> console_println (''tasksleep usage: tasksleep <id> [ticks] (got id='' @ raw_task_id @ '')'')
        | Some task_id \<Rightarrow> (case parts of
            [] \<Rightarrow> tasksleep task_id DEFAULT_TASKSLEEP_TICKS
          | raw_ticks # _ \<Rightarrow> (case parse_u64 raw_ticks of
              None \<Rightarrow> console_println (''tasksleep usage: tasksleep <id> [ticks] (got ticks='' @ raw_ticks @ '')'')
            | Some parsed \<Rightarrow>
                if parsed = 0 then console_println ''tasksleep ticks must be > 0''
                else tasksleep task_id parsed))))"

definition cmd_taskwake :: "string list \<Rightarrow> (unit, 'm) mon" where
  "cmd_taskwake parts =
     (case parts of
        [] \<Rightarrow> console_println ''taskwake usage: taskwake <id>''
      | raw_task_id # _ \<Rightarrow> (case parse_u64 raw_task_id of
          None \<Rightarrow> console_println (''taskwake usage: taskwake <id> (got id='' @ raw_task_id @ '')'')
        | Some task_id \<Rightarrow>
            bind_mon (reads mo_ticks) (\<lambda>now.
            bind_mon (task_wake task_id now) (\<lambda>r. case r of
              Inr task_info \<Rightarrow> console_println (''taskwake: id='' @ fmt_dec (ti_id task_info) @ '' kind='' @
                task_kind_name (ti_kind task_info) @ '' state='' @ task_state_name (ti_state task_info) @
                '' runs='' @ fmt_dec (ti_run_count task_info))
            | Inl error \<Rightarrow> console_println (''taskwake failed: '' @ error)))))"

definition cmd_taskrm :: "string list \<Rightarrow> (unit, 'm) mon" where
  "cmd_taskrm parts =
     (case parts of
        [] \<Rightarrow> console_println ''taskrm usage: taskrm <id>''
      | raw_task_id # _ \<Rightarrow> (case parse_u64 raw_task_id of
          None \<Rightarrow> console_println (''taskrm usage: taskrm <id> (got id='' @ raw_task_id @ '')'')
        | Some task_id \<Rightarrow>
            bind_mon (reads mo_ticks) (\<lambda>now.
            bind_mon (task_remove task_id now) (\<lambda>r. case r of
              Inr task_info \<Rightarrow> console_println (''taskrm: removed id='' @ fmt_dec (ti_id task_info) @ '' kind='' @
                task_kind_name (ti_kind task_info) @ '' state='' @ task_state_name (ti_state task_info) @
                '' runs='' @ fmt_dec (ti_run_count task_info))
            | Inl error \<Rightarrow> console_println (''taskrm failed: '' @ error)))))"

definition cmd_taskprio :: "string list \<Rightarrow> (unit, 'm) mon" where
  "cmd_taskprio parts =
     (case parts of
        [] \<Rightarrow> console_println ''taskprio usage: taskprio <id> <priority>''
      | raw_task_id # parts \<Rightarrow> (case parse_u64 raw_task_id of
          None \<Rightarrow> console_println (''taskprio usage: taskprio <id> <priority> (got id='' @ raw_task_id @ '')'')
        | Some task_id \<Rightarrow> (case parts of
            [] \<Rightarrow> console_println ''taskprio usage: taskprio <id> <priority>''
          | raw_priority # _ \<Rightarrow> (case parse_u64 raw_priority of
              None \<Rightarrow> console_println (''taskprio usage: taskprio <id> <priority> (got priority='' @ raw_priority @ '')'')
            | Some priority_raw \<Rightarrow>
                bind_mon (reads mo_ticks) (\<lambda>now.
                bind_mon (task_set_priority task_id (ucast (min priority_raw 255)) now) (\<lambda>r. case r of
                  Inr task_info \<Rightarrow> console_println (''taskprio: id='' @ fmt_dec (ti_id task_info) @ '' priority='' @
                    fmt_dec (ti_priority task_info) @ '' kind='' @ task_kind_name (ti_kind task_info) @
                    '' state='' @ task_state_name (ti_state task_info))
                | Inl error \<Rightarrow> console_println (''taskprio failed: '' @ error)))))))"

definition DEFAULT_INTERVAL_TICKS :: u64 where "DEFAULT_INTERVAL_TICKS = 100"

definition auto_new :: "u64 \<Rightarrow> SchedulerAutoMode" where
  "auto_new now_tick = \<lparr>am_enabled = False, am_interval_ticks = DEFAULT_INTERVAL_TICKS, am_next_run_tick = now_tick\<rparr>"

definition auto_enable :: "u64 \<Rightarrow> u64 \<Rightarrow> SchedulerAutoMode \<Rightarrow> SchedulerAutoMode" where
  "auto_enable interval_ticks now_tick a =
     a\<lparr>am_enabled := True, am_interval_ticks := interval_ticks, am_next_run_tick := saturating_add now_tick interval_ticks\<rparr>"

definition auto_disable :: "SchedulerAutoMode \<Rightarrow> SchedulerAutoMode" where
  "auto_disable a = a\<lparr>am_enabled := False\<rparr>"

definition taskauto_on :: "u64 \<Rightarrow> u64 \<Rightarrow> (unit, 'm) mon" where
  "taskauto_on interval_ticks now_tick =
     then_mon (change (\<lambda>s. s\<lparr>mo_auto := auto_enable interval_ticks now_tick (mo_auto s)\<rparr>))
     (bind_mon (reads mo_auto) (\<lambda>a.
       console_println (''taskauto: enabled interval_ticks='' @ fmt_dec (am_interval_ticks a) @ '' next_run_tick='' @
         fmt_dec (am_next_run_tick a) @ '' now_tick='' @ fmt_dec now_tick)))"

definition cmd_taskauto :: "string list \<Rightarrow> (unit, 'm) mon" where
  "cmd_taskauto parts =
     bind_mon (reads mo_ticks) (\<lambda>now_tick.
     case parts of
        [] \<Rightarrow> bind_mon (reads mo_auto) (\<lambda>a.
          console_println (''taskauto: enabled='' @ fmt_bool (am_enabled a) @ '' interval_ticks='' @ fmt_dec (am_interval_ticks a) @
            '' next_run_tick='' @ fmt_dec (am_next_run_tick a) @ '' now_tick='' @ fmt_dec now_tick))
      | mode # parts \<Rightarrow>
          if mode = ''off'' then
            then_mon (change (\<lambda>s. s\<lparr>mo_auto := auto_disable (mo_auto s)\<rparr>)) (console_println ''taskauto: disabled'')
          else if mode = ''on'' then
            (case parts of
               [] \<Rightarrow> taskauto_on DEFAULT_INTERVAL_TICKS now_tick
             | raw_interval # _ \<Rightarrow> (case parse_u64 raw_interval of
                 None \<Rightarrow> console_println (''taskauto usage: taskauto [on [ticks]|off] (got ticks='' @ raw_interval @ '')'')
               | Some parsed \<Rightarrow>
                   if parsed = 0 then console_println ''taskauto ticks must be > 0''
                   else taskauto_on parsed now_tick))
          else console_println (''taskauto usage: taskauto [on [ticks]|off] (got: '' @ mode @ '')''))"

section \<open>Demos and the rest\<close>

definition cmd_userdemo :: "'m monitor_env \<Rightarrow> (unit, 'm) mon" where
  "cmd_userdemo E = bind_mon (user_demo E) (\<lambda>r. case r of
      Inr report \<Rightarrow> console_println (''userdemo: ticks='' @ fmt_dec (ud_ticks report) @ '' uptime='' @
        fmt_dec (ud_uptime_seconds report) @ ''s sum='' @ fmt_dec (ud_sum report) @ '' usable_bytes='' @
        fmt_dec (ud_usable_bytes report) @ '' usable_frames='' @ fmt_dec (ud_usable_frames report))
    | Inl error \<Rightarrow> console_println (''userdemo failed: '' @ error_name error))"

definition cmd_usermode :: "'m monitor_env \<Rightarrow> (unit, 'm) mon" where
  "cmd_usermode E =
     then_mon (console_println ''launching ring3 demo (expects int 0x80 then int 0x81 return)...'')
     (bind_mon (start_demo (run_demo (me_mapper E) (me_selectors E))) (\<lambda>error.
       console_println (''usermode failed: '' @ error)))"

definition cmd_usermode_syscall :: "'m monitor_env \<Rightarrow> (unit, 'm) mon" where
  "cmd_usermode_syscall E =
     then_mon (console_println ''launching ring3 fast-syscall demo (success path: rax(value)/r10(status), then int 0x81 return)...'')
     (bind_mon (start_demo (run_fast_syscall_demo (me_mapper E) (me_selectors E))) (\<lambda>error.
       console_println (''usermode_syscall failed: '' @ error)))"

definition cmd_usermode_syscall_fail :: "'m monitor_env \<Rightarrow> (unit, 'm) mon" where
  "cmd_usermode_syscall_fail E =
     then_mon (console_println ''launching ring3 fast-syscall demo (error path: unknown/overflow statuses), then int 0x81 return...'')
     (bind_mon (start_demo (run_fast_syscall_error_demo (me_mapper E) (me_selectors E))) (\<lambda>error.
       console_println (''usermode_syscall_fail failed: '' @ error)))"

definition cmd_echo :: "string \<Rightarrow> (unit, 'm) mon" where
  "cmd_echo command_line =
     console_println (trim_start (case strip_prefix ''echo'' command_line of Some rest \<Rightarrow> rest | None \<Rightarrow> ''''))"

definition print_oldest_first :: "CommandHistory \<Rightarrow> (unit, 'm) mon" where
  "print_oldest_first history =
     (if ch_len history = 0 then console_println ''history is empty''
      else bind_mon (lift_run (history_lines history)) (\<lambda>lines.
        each lines (\<lambda>(index, text). console_println (fmt_right 2 (fmt_nat index) @ '': '' @ text))))"

definition cmd_history :: "(unit, 'm) mon" where
  "cmd_history = bind_mon (reads mo_history) print_oldest_first"

definition cmd_clear :: "(unit, 'm) mon" where
  "cmd_clear =
     then_mon (change (\<lambda>s. s\<lparr>mo_console := mo_console s @ [ClearScreen]\<rparr>)) (console_println ''screen cleared'')"

section \<open>The command interpreter\<close>

text \<open>The arms of the \<open>match\<close> on the first word, by name.\<close>

definition command_arms :: "'m monitor_env \<Rightarrow> MonitorContext \<Rightarrow> string \<Rightarrow> string list \<Rightarrow> (string \<times> (unit, 'm) mon) list" where
  "command_arms E C command_line parts =
     [(''help'', cmd_help), (''status'', cmd_status C), (''ticks'', cmd_ticks), (''uptime'', cmd_uptime),
      (''timerhz'', cmd_timerhz parts), (''irq'', cmd_irq), (''mem'', cmd_mem C), (''maps'', cmd_maps C parts),
      (''heap'', cmd_heap E), (''vm'', cmd_vm E C parts), (''vmmap'', cmd_vmmap E C parts), (''fault'', cmd_fault E parts),
      (''syscall'', cmd_syscall E parts), (''sysabi'', cmd_sysabi E), (''tasks'', cmd_tasks),
      (''tasknew'', cmd_tasknew parts), (''taskstep'', cmd_taskstep E), (''taskrun'', cmd_taskrun E parts),
      (''tasksleep'', cmd_tasksleep parts), (''taskwake'', cmd_taskwake parts), (''taskrm'', cmd_taskrm parts),
      (''taskprio'', cmd_taskprio parts), (''taskauto'', cmd_taskauto parts), (''userdemo'', cmd_userdemo E),
      (''usermode'', cmd_usermode E), (''usermode_syscall'', cmd_usermode_syscall E),
      (''usermode_syscall_fail'', cmd_usermode_syscall_fail E), (''echo'', cmd_echo command_line),
      (''history'', cmd_history), (''clear'', cmd_clear)]"

definition execute_command :: "'m monitor_env \<Rightarrow> MonitorContext \<Rightarrow> string \<Rightarrow> (bool, 'm) mon" where
  "execute_command E C command_line =
     (case split_whitespace command_line of
        [] \<Rightarrow> ret_mon False
      | command # parts \<Rightarrow>
          if command = ''exit'' \<or> command = ''quit'' then ret_mon True
          else then_mon (case map_of (command_arms E C command_line parts) command of
                 Some arm \<Rightarrow> arm
               | None \<Rightarrow> console_println (''unknown command: '' @ command))
            (ret_mon False))"

end
