(* ===== verification/Exceptions.thy ===== *)
theory Exceptions
  imports Monitor_State
begin

text \<open>
  The handlers that run when code does not return: the breakpoint and page fault handlers of
  \<open>kernel/src/interrupts.rs\<close>, the panic handler and the allocation error handler of
  \<open>kernel/src/main.rs\<close>. The value of a handler is what it writes to the serial port and
  prints on the screen, and the exit code it ends the machine with. The texts that the
  \<open>Debug\<close> and \<open>Display\<close> implementations of the crates and of \<open>core\<close> produce are parameters.
\<close>

record last_words =
  lw_serial :: "string list"
  lw_screen :: "string list"
  lw_exit :: "QemuExitCode option"

record fatal_texts =
  tx_message :: "panic \<Rightarrow> string"
  tx_panic_info :: "string \<Rightarrow> string"
  tx_layout :: string
  tx_address :: "u64 \<Rightarrow> string"
  tx_error_code :: string
  tx_stack_frame :: string

definition breakpoint_handler :: last_words where
  "breakpoint_handler = \<lparr>lw_serial = [], lw_screen = [''EXCEPTION: BREAKPOINT''], lw_exit = None\<rparr>"

definition page_fault_handler :: "fatal_texts \<Rightarrow> u64 \<Rightarrow> last_words" where
  "page_fault_handler T accessed_address =
     \<lparr>lw_serial = [''EXCEPTION: PAGE FAULT'', ''  Accessed Address: '' @ tx_address T accessed_address,
        ''  Error Code: '' @ tx_error_code T, ''  Stack Frame: '' @ tx_stack_frame T],
      lw_screen = [''EXCEPTION: PAGE FAULT @ '' @ tx_address T accessed_address @ '' ('' @ tx_error_code T @ '')''],
      lw_exit = Some Failed\<rparr>"

definition panic_handler :: "string \<Rightarrow> last_words" where
  "panic_handler info = \<lparr>lw_serial = [''KERNEL PANIC: '' @ info], lw_screen = [''KERNEL PANIC: '' @ info], lw_exit = Some Failed\<rparr>"

definition alloc_error_handler :: "fatal_texts \<Rightarrow> last_words" where
  "alloc_error_handler T = panic_handler (tx_panic_info T (''allocation error: '' @ tx_layout T))"

text \<open>
  What runs last. An exception without a gate becomes a double fault, which has no gate either: the
  processor shuts down and no handler of the kernel runs.
\<close>

definition fatal_end :: "fatal_texts \<Rightarrow> panic \<Rightarrow> last_words option" where
  "fatal_end T p =
     (case p of
        PageFault a \<Rightarrow> Some (page_fault_handler T a)
      | UnhandledException \<Rightarrow> None
      | AllocationFailed \<Rightarrow> Some (alloc_error_handler T)
      | _ \<Rightarrow> Some (panic_handler (tx_panic_info T (tx_message T p))))"

definition fatal_exit :: "panic \<Rightarrow> QemuExitCode option" where
  "fatal_exit p = (if p = UnhandledException then None else Some Failed)"

lemma fatal_end_exit: "Option.bind (fatal_end T p) lw_exit = fatal_exit p"
  by (cases p) (simp_all add: fatal_end_def fatal_exit_def page_fault_handler_def panic_handler_def alloc_error_handler_def)

end
