(* ===== verification/Monitor.thy ===== *)
theory Monitor
  imports Commands Exceptions
begin

text \<open>
  The monitor of \<open>kernel/src/main.rs\<close>: line redrawing and completion, the handling of key events, the
  input loop with its two input sources, the automatic scheduler and the deadline, and the return from
  user mode. The loop is a machine with one step per iteration of its inner loops, so that interrupts
  can come between any two steps.
\<close>

section \<open>Line display and completion\<close>

definition MONITOR_PROMPT :: string where "MONITOR_PROMPT = ''jingos> ''"
definition MONITOR_READY_MARKER :: string where "MONITOR_READY_MARKER = ''[[JINGOS_MONITOR_READY]]''"
definition CARRIAGE_RETURN :: string where "CARRIAGE_RETURN = [CHR 0x0D]"

definition COMMAND_NAMES :: "string list" where
  "COMMAND_NAMES =
     [''help'', ''status'', ''ticks'', ''uptime'', ''timerhz'', ''irq'', ''mem'', ''maps'', ''heap'', ''vm'', ''vmmap'',
      ''fault'', ''syscall'', ''sysabi'', ''tasks'', ''tasknew'', ''taskstep'', ''taskrun'', ''tasksleep'', ''taskwake'',
      ''taskrm'', ''taskprio'', ''taskauto'', ''userdemo'', ''usermode'', ''usermode_syscall'', ''usermode_syscall_fail'',
      ''echo'', ''history'', ''clear'', ''exit'', ''quit'']"

definition redraw_prompt_with_line :: "(unit, 'm) mon" where
  "redraw_prompt_with_line =
     bind_mon (reads mo_line) (\<lambda>line.
     bind_mon (reads mo_rendered_len) (\<lambda>rendered_len.
     let visible_len = length MONITOR_PROMPT + il_len line in
     bind_mon (lift_run (line_as_str line)) (\<lambda>text.
     then_mon (console_print (CARRIAGE_RETURN @ MONITOR_PROMPT @ text))
     (then_mon (each [0..<rendered_len - visible_len] (\<lambda>_. console_print [CHR 0x20]))
     (bind_mon (lift_run (as_prefix_str line)) (\<lambda>prefix.
     then_mon (console_print (CARRIAGE_RETURN @ MONITOR_PROMPT @ prefix))
     (change (\<lambda>s. s\<lparr>mo_rendered_len := visible_len\<rparr>))))))))"

definition edit :: "(InputLine \<Rightarrow> ('a \<times> InputLine) run) \<Rightarrow> ('a, 'm) mon" where
  "edit f = act (\<lambda>s. bind_run (f (mo_line s)) (\<lambda>(r, line). Ret (r, s\<lparr>mo_line := line\<rparr>)))"

text \<open>The loop that counts the matching command names and keeps the first.\<close>

definition count_match :: "string \<Rightarrow> nat \<times> string \<Rightarrow> string \<Rightarrow> nat \<times> string" where
  "count_match text = (\<lambda>(matched_count, first_match) command.
     if starts_with command text
     then (matched_count + 1, if matched_count + 1 = 1 then command else first_match)
     else (matched_count, first_match))"

definition complete_command :: "(unit, 'm) mon" where
  "complete_command =
     bind_mon (reads mo_line) (\<lambda>line.
     bind_mon (lift_run (line_as_str line)) (\<lambda>text.
     if CHR 0x20 \<in> set text \<or> \<not> is_cursor_at_end line then ret_mon ()
     else (case foldl (count_match text) (0, '''') COMMAND_NAMES of
        (matched_count, first_match) \<Rightarrow>
          if matched_count = 0 then ret_mon ()
          else if matched_count = 1 then
            if length text < length first_match then
              bind_mon (edit (append_str (drop (length text) first_match))) (\<lambda>appended.
                if appended then redraw_prompt_with_line else ret_mon ())
            else ret_mon ()
          else
            then_mon (console_println '''')
            (then_mon (console_print ''matches:'')
            (then_mon (each COMMAND_NAMES (\<lambda>command.
                if starts_with command text then console_print ('' '' @ command) else ret_mon ()))
            (then_mon (console_println '''') redraw_prompt_with_line))))))"

section \<open>Key events\<close>

text \<open>The serial line status and data registers are what the environment puts in; a byte maps to a key.\<close>

definition serial_byte_to_key_event :: "u8 \<Rightarrow> KeyEvent option" where
  "serial_byte_to_key_event byte =
     (if byte = 0x0D \<or> byte = 0x0A then Some Key_Enter
      else if byte = 0x08 \<or> byte = 0x7F then Some Key_Backspace
      else if byte = 0x09 then Some Key_Tab
      else if byte = 0x1B then Some Key_Escape
      else if 0x20 \<le> byte \<and> byte \<le> 0x7E then Some (Key_Char (char_of (unat byte)))
      else None)"

definition reset_history :: "(unit, 'm) mon" where
  "reset_history = change (\<lambda>s. s\<lparr>mo_history := reset_browsing (mo_history s)\<rparr>)"

text \<open>An edit that redraws when it has changed something, with and without leaving the history.\<close>

definition edit_and_redraw :: "(InputLine \<Rightarrow> (bool \<times> InputLine) run) \<Rightarrow> (unit, 'm) mon" where
  "edit_and_redraw f = bind_mon (edit f) (\<lambda>changed. if changed then redraw_prompt_with_line else ret_mon ())"

definition edit_reset_redraw :: "(InputLine \<Rightarrow> (bool \<times> InputLine) run) \<Rightarrow> (unit, 'm) mon" where
  "edit_reset_redraw f = bind_mon (edit f) (\<lambda>changed.
     if changed then then_mon reset_history redraw_prompt_with_line else ret_mon ())"

definition show_entry :: "HistoryEntry \<Rightarrow> (unit, 'm) mon" where
  "show_entry entry =
     bind_mon (lift_run (entry_as_str entry)) (\<lambda>text. then_mon (edit (set_from_str text)) (ret_mon ()))"

definition browse :: "(CommandHistory \<Rightarrow> (HistoryEntry option \<times> CommandHistory) run) \<Rightarrow> (HistoryEntry option, 'm) mon" where
  "browse f = act (\<lambda>s. bind_run (f (mo_history s)) (\<lambda>(e, h). Ret (e, s\<lparr>mo_history := h\<rparr>)))"

text \<open>The key Enter: what happens once the command has run, the run of the entered line, and the whole.\<close>

definition after_command :: "bool \<Rightarrow> (bool, 'm) mon" where
  "after_command should_exit =
     then_mon (change (\<lambda>s. s\<lparr>mo_line := line_clear (mo_line s)\<rparr>))
     (then_mon reset_history
     (then_mon (if should_exit then ret_mon ()
        else then_mon (console_print MONITOR_PROMPT) (change (\<lambda>s. s\<lparr>mo_rendered_len := length MONITOR_PROMPT\<rparr>)))
     (ret_mon should_exit)))"

definition run_entered_line :: "'m monitor_env \<Rightarrow> (bool, 'm) mon" where
  "run_entered_line E =
     bind_mon (reads mo_line) (\<lambda>line.
     bind_mon (lift_run (line_as_str line)) (\<lambda>command_line.
     bind_mon (reads mo_context) (\<lambda>monitor_context.
     bind_mon (execute_command E monitor_context command_line) after_command)))"

definition enter_line :: "'m monitor_env \<Rightarrow> (bool, 'm) mon" where
  "enter_line E =
     then_mon (console_println '''')
     (then_mon (act (\<lambda>s. bind_run (push_line (mo_line s) (mo_history s)) (\<lambda>h. Ret ((), s\<lparr>mo_history := h\<rparr>))))
     (run_entered_line E))"

definition toggle_overwrite :: "(unit, 'm) mon" where
  "toggle_overwrite =
     then_mon (change (\<lambda>s. s\<lparr>mo_overwrite_mode := \<not> mo_overwrite_mode s\<rparr>))
     (then_mon (console_println '''')
     (bind_mon (reads mo_overwrite_mode) (\<lambda>overwrite_mode.
     then_mon (console_println (''edit mode: '' @ (if overwrite_mode then ''overwrite'' else ''insert'')))
     redraw_prompt_with_line)))"

definition stay :: "(unit, 'm) mon \<Rightarrow> (bool, 'm) mon" where
  "stay m = then_mon m (ret_mon False)"

fun handle_key_event :: "'m monitor_env \<Rightarrow> u8 \<Rightarrow> KeyEvent \<Rightarrow> (bool, 'm) mon" where
  "handle_key_event E scancode (Key_Char character) = stay (
     bind_mon (reads mo_overwrite_mode) (\<lambda>overwrite_mode.
     bind_mon (edit (insert_or_overwrite_char character overwrite_mode)) (\<lambda>inserted.
       if inserted then then_mon reset_history redraw_prompt_with_line else console_print ''<FULL>'')))"
| "handle_key_event E scancode (Key_Ctrl character) = stay (console_print (''<C-'' @ [character] @ ''>''))"
| "handle_key_event E scancode (Key_Alt character) = stay (console_print (''<M-'' @ [character] @ ''>''))"
| "handle_key_event E scancode (Key_CtrlAlt character) = stay (console_print (''<C-M-'' @ [character] @ ''>''))"
| "handle_key_event E scancode Key_Enter = enter_line E"
| "handle_key_event E scancode Key_Tab = stay complete_command"
| "handle_key_event E scancode Key_Backspace = stay (edit_reset_redraw line_backspace)"
| "handle_key_event E scancode Key_ArrowUp = stay (
     bind_mon (browse history_previous) (\<lambda>r. case r of
        Some entry \<Rightarrow> then_mon (show_entry entry) redraw_prompt_with_line
      | None \<Rightarrow> ret_mon ()))"
| "handle_key_event E scancode Key_ArrowDown = stay (
     bind_mon (browse history_next) (\<lambda>r.
     then_mon (case r of Some entry \<Rightarrow> show_entry entry | None \<Rightarrow> change (\<lambda>s. s\<lparr>mo_line := line_clear (mo_line s)\<rparr>))
       redraw_prompt_with_line))"
| "handle_key_event E scancode Key_ArrowLeft = stay (edit_and_redraw (\<lambda>l. Ret (move_left l)))"
| "handle_key_event E scancode Key_ArrowRight = stay (edit_and_redraw (\<lambda>l. Ret (move_right l)))"
| "handle_key_event E scancode Key_WordLeft = stay (edit_and_redraw move_word_left)"
| "handle_key_event E scancode Key_WordRight = stay (edit_and_redraw move_word_right)"
| "handle_key_event E scancode Key_Insert = stay toggle_overwrite"
| "handle_key_event E scancode Key_Delete = stay (edit_reset_redraw line_delete)"
| "handle_key_event E scancode Key_WordDeleteLeft = stay (edit_reset_redraw delete_word_left)"
| "handle_key_event E scancode Key_WordDeleteRight = stay (edit_reset_redraw delete_word_right)"
| "handle_key_event E scancode Key_Home = stay (edit_and_redraw (\<lambda>l. Ret (move_home l)))"
| "handle_key_event E scancode Key_End = stay (edit_and_redraw (\<lambda>l. Ret (move_end l)))"
| "handle_key_event E scancode Key_PageUp = stay (console_print ''<PGUP>'')"
| "handle_key_event E scancode Key_PageDown = stay (console_print ''<PGDN>'')"
| "handle_key_event E scancode (Key_Function number) = stay (console_print (''<F'' @ fmt_dec number @ ''>''))"
| "handle_key_event E scancode Key_Escape = then_mon (console_println ''<ESC>'') (ret_mon True)"
| "handle_key_event E scancode (Key_Unknown code) = stay (
     console_println (''<SC:'' @ fmt_hex_width 4 code @ '' RAW:'' @ fmt_hex_width 4 scancode @ ''>''))"

section \<open>The input loop\<close>

definition INPUT_WINDOW_TICKS :: u64 where "INPUT_WINDOW_TICKS = 800"

text \<open>The variables \<open>input_loop\<close> starts with, and its greeting.\<close>

definition start_loop :: "(unit, 'm) mon" where
  "start_loop =
     bind_mon (reads mo_ticks) (\<lambda>start_ticks.
     then_mon (change (\<lambda>s. s\<lparr>mo_decoder := decoder_new, mo_deadline := saturating_add start_ticks INPUT_WINDOW_TICKS,
         mo_decoded_events := 0, mo_line := line_new, mo_history := history_new,
         mo_rendered_len := length MONITOR_PROMPT, mo_overwrite_mode := False, mo_auto := auto_new start_ticks\<rparr>))
     (then_mon (console_println '''')
     (then_mon (console_println MONITOR_READY_MARKER)
     (then_mon (console_println ''jingos monitor ready. type 'help' for commands.'')
     (console_print MONITOR_PROMPT)))))"

definition leave :: "string \<Rightarrow> (unit, 'm) mon" where
  "leave reason =
     bind_mon (reads (\<lambda>s. keyboard_counters (mo_interrupts s))) (\<lambda>(keyboard_irqs, dropped).
     bind_mon (reads mo_decoded_events) (\<lambda>decoded_events.
     then_mon (console_println (reason @ '': keyboard_irqs='' @ fmt_dec keyboard_irqs @ '', dropped='' @
       fmt_dec dropped @ '', decoded='' @ fmt_dec decoded_events))
     (exit_qemu Success)))"

text \<open>The body both inner loops share, once a scancode or serial byte has given an event.\<close>

definition on_event :: "'m monitor_env \<Rightarrow> u8 \<Rightarrow> KeyEvent \<Rightarrow> (unit, 'm) mon" where
  "on_event E code event =
     then_mon (act (\<lambda>s. bind_run (add_checked_build (mo_decoded_events s) 1) (\<lambda>n. Ret ((), s\<lparr>mo_decoded_events := n\<rparr>))))
     (then_mon (change (\<lambda>s. s\<lparr>mo_deadline := saturating_add (mo_ticks s) INPUT_WINDOW_TICKS\<rparr>))
     (bind_mon (handle_key_event E code event) (\<lambda>should_exit.
       if should_exit then leave ''Exiting monitor'' else ret_mon ())))"

definition maybe_run :: "'m monitor_env \<Rightarrow> u64 \<Rightarrow> (unit, 'm) mon" where
  "maybe_run E now_tick =
     bind_mon (reads mo_auto) (\<lambda>a.
     if \<not> am_enabled a \<or> now_tick < am_next_run_tick a then ret_mon ()
     else then_mon (change (\<lambda>s. s\<lparr>mo_auto := (mo_auto s)\<lparr>am_next_run_tick := saturating_add now_tick (am_interval_ticks a)\<rparr>\<rparr>))
       (then_mon (run_task_step_with_label_internal E ''taskauto'' False) (ret_mon ())))"

text \<open>
  One iteration of the scancode loop (\<open>True\<close> while it goes on), one of the serial loop with what
  \<open>poll_serial_byte\<close> finds, and the end of the outer loop's body up to \<open>hlt\<close>.
\<close>

definition scancode_iteration :: "'m monitor_env \<Rightarrow> (bool, 'm) mon" where
  "scancode_iteration E =
     bind_mon (act (\<lambda>s. bind_run (pop_scancode (mo_interrupts s)) (\<lambda>(r, st). Ret (r, s\<lparr>mo_interrupts := st\<rparr>)))) (\<lambda>r. case r of
        None \<Rightarrow> ret_mon False
      | Some scancode \<Rightarrow>
          bind_mon (act (\<lambda>s. case feed scancode (mo_decoder s) of (e, d) \<Rightarrow> Ret (e, s\<lparr>mo_decoder := d\<rparr>))) (\<lambda>e.
          then_mon (case e of None \<Rightarrow> ret_mon () | Some event \<Rightarrow> on_event E scancode event)
            (ret_mon True)))"

definition serial_iteration :: "'m monitor_env \<Rightarrow> u8 option \<Rightarrow> (bool, 'm) mon" where
  "serial_iteration E polled =
     (case polled of
        None \<Rightarrow> ret_mon False
      | Some serial_byte \<Rightarrow>
          then_mon (case serial_byte_to_key_event serial_byte of
              None \<Rightarrow> ret_mon ()
            | Some event \<Rightarrow> on_event E serial_byte event)
            (ret_mon True))"

definition loop_tail :: "'m monitor_env \<Rightarrow> (unit, 'm) mon" where
  "loop_tail E =
     bind_mon (reads mo_ticks) (\<lambda>now_tick.
     then_mon (maybe_run E now_tick)
     (bind_mon (reads mo_deadline) (\<lambda>deadline.
       if deadline \<le> now_tick then leave ''Input window ended'' else ret_mon ())))"

definition report_line :: "FastSyscallDemoReport \<Rightarrow> string \<Rightarrow> string" where
  "report_line report verdict =
     ''fast-syscall report ('' @ kind_name report @ ''): '' @ verdict @ '' call0='' @ fmt_dec (dr_call0_value report) @
     '' (status='' @ fmt_dec (dr_call0_status report) @ '') call1='' @ fmt_dec (dr_call1_value report) @
     '' (status='' @ fmt_dec (dr_call1_status report) @ '')''"

text \<open>Without a saved context the message goes to the serial port only and the machine ends.\<close>

definition resume_monitor_after_usermode_exit :: "(unit, 'm) mon" where
  "resume_monitor_after_usermode_exit =
     bind_mon (reads mo_monitor_context) (\<lambda>saved. case saved of
        None \<Rightarrow> exit_qemu Failed
      | Some saved_context \<Rightarrow>
          then_mon (console_println ''returned from ring3 via int 0x81; resuming monitor'')
          (bind_mon (act (\<lambda>s. case take_last_fast_syscall_report (mo_usermode s) of (r, um) \<Rightarrow> Ret (r, s\<lparr>mo_usermode := um\<rparr>))) (\<lambda>r.
          then_mon (case r of
              None \<Rightarrow> ret_mon ()
            | Some report \<Rightarrow>
                if passed report then console_println (report_line report ''ok'')
                else then_mon (console_println (report_line report ''unexpected''))
                  (console_println (''fast-syscall expected: '' @ expected_summary report)))
          (then_mon (change (\<lambda>s. s\<lparr>mo_interrupts := device [InterruptsEnable] (mo_interrupts s), mo_context := saved_context\<rparr>))
            start_loop))))"

section \<open>The machine\<close>

datatype phase = ScancodeLoop | SerialLoop | AtHlt | InUserMode | Stopped QemuExitCode

type_synonym 'm machine_state = "phase \<times> 'm monitor"

text \<open>
  What can happen next: an interrupt, a step of the monitor (with what the serial port holds if it polls
  it), or the exit interrupt of user code, with the registers the stub has saved and the CPU as the
  handler finds it.
\<close>

datatype monitor_event =
    TimerEvent
  | KeyboardEvent u8
  | StepEvent "u8 option"
  | UserExitEvent SyscallRegisters cpu

definition next_phase :: "('a \<Rightarrow> phase) \<Rightarrow> 'a flow \<times> 'm monitor \<Rightarrow> 'm machine_state" where
  "next_phase f = (\<lambda>(r, s). case r of
      Done x \<Rightarrow> (f x, s)
    | EnteredUser \<Rightarrow> (InUserMode, s)
    | Exited code \<Rightarrow> (Stopped code, s))"

definition run_mon :: "('a \<Rightarrow> phase) \<Rightarrow> ('a, 'm) mon \<Rightarrow> 'm monitor \<Rightarrow> 'm machine_state run" where
  "run_mon f m s = bind_run (m s) (\<lambda>r. Ret (next_phase f r))"

definition monitor_step :: "'m monitor_env \<Rightarrow> u8 option \<Rightarrow> 'm machine_state \<Rightarrow> 'm machine_state run" where
  "monitor_step E polled = (\<lambda>(phase, s). case phase of
      ScancodeLoop \<Rightarrow> run_mon (\<lambda>more. if more then ScancodeLoop else SerialLoop) (scancode_iteration E) s
    | SerialLoop \<Rightarrow>
        (case polled of
           Some _ \<Rightarrow> run_mon (\<lambda>_. SerialLoop) (serial_iteration E polled) s
         | None \<Rightarrow> run_mon (\<lambda>_. AtHlt) (then_mon (serial_iteration E None) (loop_tail E)) s)
    | _ \<Rightarrow> Ret (phase, s))"

text \<open>An interrupt ends \<open>hlt\<close>; a machine that has ended takes none.\<close>

definition interrupt :: "(InterruptState \<Rightarrow> InterruptState run) \<Rightarrow> 'm machine_state \<Rightarrow> 'm machine_state run" where
  "interrupt h = (\<lambda>(phase, s). case phase of
      Stopped code \<Rightarrow> Ret (phase, s)
    | _ \<Rightarrow> bind_run (h (mo_interrupts s)) (\<lambda>st.
        Ret (if phase = AtHlt then ScancodeLoop else phase, s\<lparr>mo_interrupts := st\<rparr>)))"

definition user_exit :: "SyscallRegisters \<Rightarrow> cpu \<Rightarrow> 'm machine_state \<Rightarrow> 'm machine_state run" where
  "user_exit registers c = (\<lambda>(phase, s).
     if phase = InUserMode then
       (case handle_exit_interrupt_from_registers registers (mo_usermode s) of
          (ReturnsToCaller, um) \<Rightarrow> Ret (InUserMode, s\<lparr>mo_usermode := um\<rparr>)
        | (ResumesMonitor, um) \<Rightarrow>
            run_mon (\<lambda>_. ScancodeLoop) resume_monitor_after_usermode_exit (s\<lparr>mo_usermode := um, mo_cpu := c\<rparr>))
     else Ret (phase, s))"

fun machine_step :: "'m monitor_env \<Rightarrow> monitor_event \<Rightarrow> 'm machine_state \<Rightarrow> 'm machine_state run" where
  "machine_step E TimerEvent st = interrupt (\<lambda>i. Ret (timer_interrupt_handler i)) st"
| "machine_step E (KeyboardEvent scancode) st = interrupt (keyboard_interrupt_handler scancode) st"
| "machine_step E (StepEvent polled) st = monitor_step E polled st"
| "machine_step E (UserExitEvent registers c) st = user_exit registers c st"

fun machine_run :: "'m monitor_env \<Rightarrow> monitor_event list \<Rightarrow> 'm machine_state \<Rightarrow> 'm machine_state run" where
  "machine_run E [] st = Ret st"
| "machine_run E (e # es) st = bind_run (machine_step E e st) (machine_run E es)"

text \<open>
  The exit code the kernel has written to the exit port, if it has written one: none while it runs, and none after an
  exception it has no handler for.
\<close>

definition exit_status :: "'m machine_state run \<Rightarrow> QemuExitCode option" where
  "exit_status r = (case r of Ret (Stopped code, _) \<Rightarrow> Some code | Ret _ \<Rightarrow> None | Panic p \<Rightarrow> fatal_exit p)"

end
