(* ===== verification/Monitor_Safety.thy ===== *)
theory Monitor_Safety
  imports Monitor
begin

text \<open>
  The invariant of the monitor: what the modules' states keep while the monitor, the interrupt handlers
  and user code take turns, and that nothing the user types makes the kernel panic apart from the
  commands \<open>line_panic\<close> names.
\<close>

unbundle bit_operations_syntax

section \<open>The invariant\<close>

text \<open>
  The direct map: from \<open>cr3\<close> down, every page table of the hierarchy has a canonical virtual address in it,
  whatever its present entries point to.
\<close>

abbreviation table_address :: "u64 \<Rightarrow> u64" where
  "table_address e \<equiv> e AND 0x000ffffffffff000"

definition direct_map :: "table_memory \<Rightarrow> u64 \<Rightarrow> u64 \<Rightarrow> bool" where
  "direct_map mem cr3 off \<longleftrightarrow> canonical_addr off \<and> address_window off cr3 \<and>
     (\<forall>i4. let e4 = mem (off + cr3) i4 in bit e4 0 \<longrightarrow> address_window off (table_address e4) \<and>
       (\<forall>i3. let e3 = mem (off + table_address e4) i3 in bit e3 0 \<and> \<not> bit e3 7 \<longrightarrow> address_window off (table_address e3) \<and>
         (\<forall>i2. let e2 = mem (off + table_address e3) i2 in bit e2 0 \<and> \<not> bit e2 7 \<longrightarrow> address_window off (table_address e2))))"

definition context_ok :: "'m monitor_env \<Rightarrow> MonitorContext \<Rightarrow> bool" where
  "context_ok E C \<longleftrightarrow> (\<forall>off. mc_physical_memory_offset C = Some off \<longrightarrow> direct_map (me_tables E) (me_cr3 E) off)"

definition env_ok :: "'m monitor_env \<Rightarrow> bool" where
  "env_ok E \<longleftrightarrow> x86_64_documented (me_x86_64 E) \<and> ce_depth (me_callee E) < 2 ^ 63 \<and>
     canonical_addr (me_stack_probe E AND NOT 0xfff) \<and> canonical_addr (me_code_probe E AND NOT 0xfff)"

text \<open>
  The counters leave room for \<open>n\<close> more events. \<open>m\<close> is the mapper's state, which the monitor does not
  change.
\<close>

definition monitor_ok :: "'m monitor_env \<Rightarrow> 'm \<Rightarrow> nat \<Rightarrow> 'm monitor \<Rightarrow> bool" where
  "monitor_ok E m n s \<longleftrightarrow>
     pit_ok (mo_interrupts s) \<and> scancode_inv (is_scancodes (mo_interrupts s)) \<and>
     wf_table (mo_tasks s) \<and> line_ok (mo_line s) \<and> hist_ok (mo_history s) \<and>
     context_ok E (mo_context s) \<and> (\<forall>c. mo_monitor_context s = Some c \<longrightarrow> context_ok E c) \<and>
     mm_mapper (mo_machine s) = m \<and>
     (um_context (mo_usermode s) \<noteq> None \<longrightarrow> (\<exists>p. mapped_to (me_mapper E) m USER_CODE_START p 4096)) \<and>
     unat (mo_decoded_events s) + n < 2 ^ 64 \<and> unat (sb_dropped (is_scancodes (mo_interrupts s))) + n < 2 ^ 64 \<and>
     unat (tt_next_id (mo_tasks s)) + n < 2 ^ 64"

lemma monitor_ok_free [simp]:
  "monitor_ok E m n (s\<lparr>mo_console := x1\<rparr>) = monitor_ok E m n s"
  "monitor_ok E m n (s\<lparr>mo_cpu := x2\<rparr>) = monitor_ok E m n s"
  "monitor_ok E m n (s\<lparr>mo_decoder := x3\<rparr>) = monitor_ok E m n s"
  "monitor_ok E m n (s\<lparr>mo_deadline := x4\<rparr>) = monitor_ok E m n s"
  "monitor_ok E m n (s\<lparr>mo_rendered_len := x5\<rparr>) = monitor_ok E m n s"
  "monitor_ok E m n (s\<lparr>mo_overwrite_mode := x6\<rparr>) = monitor_ok E m n s"
  "monitor_ok E m n (s\<lparr>mo_auto := x7\<rparr>) = monitor_ok E m n s"
  by (simp_all add: monitor_ok_def)

lemma monitor_ok_parts:
  "monitor_ok E m n s \<Longrightarrow> line_ok (mo_line s)" "monitor_ok E m n s \<Longrightarrow> hist_ok (mo_history s)"
  "monitor_ok E m n s \<Longrightarrow> wf_table (mo_tasks s)" "monitor_ok E m n s \<Longrightarrow> context_ok E (mo_context s)"
  "monitor_ok E m n s \<Longrightarrow> pit_ok (mo_interrupts s)" "monitor_ok E m n s \<Longrightarrow> scancode_inv (is_scancodes (mo_interrupts s))"
  by (simp_all add: monitor_ok_def)

lemma monitor_ok_less: "monitor_ok E m n s \<Longrightarrow> k \<le> n \<Longrightarrow> monitor_ok E m k s"
  by (auto simp: monitor_ok_def)

lemma monitor_ok_line: "monitor_ok E m n s \<Longrightarrow> line_ok line \<Longrightarrow> monitor_ok E m n (s\<lparr>mo_line := line\<rparr>)"
  by (simp add: monitor_ok_def)

lemma monitor_ok_history: "monitor_ok E m n s \<Longrightarrow> hist_ok h \<Longrightarrow> monitor_ok E m n (s\<lparr>mo_history := h\<rparr>)"
  by (simp add: monitor_ok_def)

lemma monitor_ok_tasks:
  "monitor_ok E m n s \<Longrightarrow> wf_table tt \<Longrightarrow> tt_next_id tt = tt_next_id (mo_tasks s) \<Longrightarrow> monitor_ok E m n (s\<lparr>mo_tasks := tt\<rparr>)"
  by (simp add: monitor_ok_def)

lemma keeps_print [keeps_rules]: "keeps pan (monitor_ok E m n) (console_print t)"
  by (simp add: console_print_def yields_change)

lemma keeps_println [keeps_rules]: "keeps pan (monitor_ok E m n) (console_println t)"
  by (simp add: console_println_def keeps_print)

lemma spends_keeps: "keeps pan (monitor_ok E m n) f \<Longrightarrow> yields pan (monitor_ok E m (Suc n)) f (monitor_ok E m n)"
  by (erule yields_weaken) (auto intro: monitor_ok_less)

section \<open>Commands\<close>

text \<open>The lines that end the machine: reading an unmapped address, translating a non-canonical one, and probing a heap that is not there.\<close>

definition read_panic :: "'m mapper_api \<Rightarrow> 'm \<Rightarrow> u64 \<Rightarrow> panic option" where
  "read_panic M m a =
     (if a AND 7 \<noteq> 0 then Some UnsafePrecondition
      else if \<not> canonical_addr a then Some UnhandledException
      else map_option PageFault (find (\<lambda>b. mp_translate_addr M m b = None) (map (\<lambda>i. a + of_nat i) [0..<8])))"

definition line_panic :: "'m monitor_env \<Rightarrow> 'm \<Rightarrow> MonitorContext \<Rightarrow> string \<Rightarrow> panic option" where
  "line_panic E m C line =
     (case split_whitespace line of
        [] \<Rightarrow> None
      | command # parts \<Rightarrow>
          if command = ''fault''
          then (case optional_arg 0xDEADBEEF parts of Inl _ \<Rightarrow> None | Inr a \<Rightarrow> read_panic (me_mapper E) m a)
          else if command = ''vm''
          then (case parts of [] \<Rightarrow> None | raw # _ \<Rightarrow> (case parse_u64 raw of
              None \<Rightarrow> None
            | Some a \<Rightarrow> if mc_physical_memory_offset C \<noteq> None \<and> \<not> canonical_addr a then Some InvalidAddress else None))
          else if command = ''heap'' \<and> me_heap E = None then Some AllocationFailed else None)"

lemma line_panic_Cons:
  assumes "split_whitespace line = command # parts"
  shows "line_panic E m C line = None \<longleftrightarrow>
    \<not> (command = ''fault'' \<and> (\<exists>a. optional_arg 0xDEADBEEF parts = Inr a \<and> read_panic (me_mapper E) m a \<noteq> None)) \<and>
    \<not> (command = ''vm'' \<and> mc_physical_memory_offset C \<noteq> None \<and>
      (\<exists>raw rest a. parts = raw # rest \<and> parse_u64 raw = Some a \<and> \<not> canonical_addr a)) \<and>
    \<not> (command = ''heap'' \<and> me_heap E = None)"
  using assms by (auto simp: line_panic_def split: sum.split list.split option.splits if_splits)

lemma centiseconds_defined:
  assumes "pit_ok st"
  shows "\<exists>secs. div_word (is_ticks st) (ucast (is_pit_hz st)) = Ret secs"
    and "\<exists>cs. bind_run (rem_word (is_ticks st) (ucast (is_pit_hz st))) (\<lambda>r.
       bind_run (mul_checked_build r 100) (\<lambda>x. div_word x (ucast (is_pit_hz st)))) = Ret cs"
proof -
  let ?hz = "ucast (is_pit_hz st) :: u64"
  have hz: "unat ?hz = unat (is_pit_hz st)"
    by (simp add: unsigned_ucast_eq take_bit_nat_eq_self order.strict_trans2[OF unat_less_2p])
  have "19 \<le> unat ?hz" "unat ?hz \<le> 1193182"
    using assms by (simp_all add: hz pit_ok_def PIT_MIN_HZ_def PIT_MAX_HZ_def PIT_INPUT_HZ_def word_le_nat_alt)
  moreover from this have nz: "?hz \<noteq> 0" by (metis not_numeral_le_zero unat_0)
  moreover have "unat (is_ticks st mod ?hz) < unat ?hz"
    using calculation(1) by (simp add: unat_mod)
  ultimately show "\<exists>secs. div_word (is_ticks st) ?hz = Ret secs"
    "\<exists>cs. bind_run (rem_word (is_ticks st) ?hz) (\<lambda>r. bind_run (mul_checked_build r 100) (\<lambda>x. div_word x ?hz)) = Ret cs"
    by (simp_all add: div_word_def rem_word_def mul_checked_build_def)
qed

lemma keeps_uptime: "keeps pan (monitor_ok E m n) cmd_uptime"
proof (rule yieldsI)
  fix s :: "'a monitor"
  assume ok: "monitor_ok E m n s"
  then have "pit_ok (mo_interrupts s)" by (simp add: monitor_ok_def)
  from centiseconds_defined[OF this] ok
  show "\<exists>r s'. cmd_uptime s = Ret (r, s') \<and> monitor_ok E m n s'"
    by (auto simp: cmd_uptime_def bind_mon_def reads_def lift_run_def mo_ticks_def console_println_def console_print_def
        change_def)
qed

lemma keeps_timerhz: "keeps pan (monitor_ok E m n) (cmd_timerhz parts)"
proof -
  have "pit_ok st' \<and> is_scancodes st' = is_scancodes st" if "set_pit_hz hz st = (new_hz, st')" for hz st new_hz st'
    using that pit_ok_set_pit_hz[of hz st] by (auto simp: set_pit_hz_def device_def split: prod.splits)
  then have "keeps pan (monitor_ok E m n) (act (\<lambda>s. case set_pit_hz hz (mo_interrupts s) of
      (new_hz, st) \<Rightarrow> Ret (new_hz, s\<lparr>mo_interrupts := st\<rparr>)))" for hz
    by (intro yields_act) (auto simp: monitor_ok_def split: prod.split)
  then show ?thesis unfolding cmd_timerhz_def by (intro keeps_rules)
qed

lemma keeps_maps: "keeps pan (monitor_ok E m n) (cmd_maps C parts)"
proof -
  have "keeps pan (monitor_ok E m n) (maps_loop limit index shown regions)" for limit index shown regions
    by (induction regions arbitrary: index shown) (auto intro!: keeps_rules)
  then show ?thesis unfolding cmd_maps_def show_maps_def by (intro keeps_rules)
qed

lemma keeps_information:
  "keeps pan (monitor_ok E m n) cmd_help" "keeps pan (monitor_ok E m n) (cmd_status C)" "keeps pan (monitor_ok E m n) cmd_ticks"
  "keeps pan (monitor_ok E m n) cmd_irq" "keeps pan (monitor_ok E m n) (cmd_mem C)" "keeps pan (monitor_ok E m n) (cmd_echo line)"
  "keeps pan (monitor_ok E m n) (cmd_sysabi E)"
  unfolding cmd_help_def cmd_status_def cmd_ticks_def cmd_irq_def cmd_mem_def cmd_echo_def cmd_sysabi_def
  by (intro keeps_rules)+

lemma keeps_clear: "keeps pan (monitor_ok E m n) cmd_clear"
  unfolding cmd_clear_def by (intro keeps_rules yields_change) simp

lemma keeps_lift: "\<exists>x. r = Ret x \<Longrightarrow> keeps pan I (lift_run r)"
  by (cases r) (auto simp: yields_def lift_run_def)

lemma keeps_heap: "me_heap E \<noteq> None \<Longrightarrow> keeps pan (monitor_ok E m n) (cmd_heap E)"
  unfolding cmd_heap_def by (intro keeps_bind keeps_lift) (auto intro!: keeps_rules)

lemma keeps_history: "keeps pan (monitor_ok E m n) cmd_history"
  unfolding cmd_history_def
proof (rule yields_reads_bind)
  fix s
  assume "monitor_ok E m n s"
  then have "hist_ok (mo_history s)" by (simp add: monitor_ok_def)
  from history_lines_ok[OF this]
  show "keeps pan (monitor_ok E m n) (print_oldest_first (mo_history s))"
    unfolding print_oldest_first_def by (intro keeps_rules yields_lift_bind)
qed

section \<open>Virtual memory commands\<close>

context x86_64_documented
begin

lemma translate_defined:
  "direct_map mem cr3 off \<Longrightarrow> canonical_addr a \<Longrightarrow> \<exists>r. translate_virtual_address X M cr3 off a = Ret r"
  by (simp add: translate_virtual_address_def init_offset_page_table_def active_level_4_table_def
      direct_map_def va_new va_add)

lemma entry_offset_defined:
  assumes "n \<in> {0xfff, 0x1fffff, 0x3fffffff}"
  shows "\<exists>p. add_checked_build (entry_addr X e) (va AND n) = Ret p"
proof -
  have "unat (e AND 0x000ffffffffff000) \<le> unat (0x000ffffffffff000 :: u64)" "unat (va AND n) \<le> unat n"
    using word_and_le1[of e "0x000ffffffffff000"] word_and_le1[of va n] by (simp_all add: word_le_nat_alt)
  moreover have "unat n < 2 ^ 30" using assms by auto
  ultimately have "unat (entry_addr X e) + unat (va AND n) < 2 ^ 64" by (simp add: entry_addr)
  then show ?thesis by (simp add: add_checked_build_def)
qed

lemma walk_defined:
  assumes map: "direct_map mem cr3 off"
  shows "\<exists>info. walk_virtual_address X cr3 mem off va = Ret info"
proof (cases "canonical_addr va")
  case False
  then show ?thesis by (simp add: walk_virtual_address_def va_try_new)
next
  case True
  define v where "v = va_new_truncate X va"
  define e4 where "e4 = mem (off + cr3) (va_p4_index X v)"
  define e3 where "e3 = mem (off + entry_addr X e4) (va_p3_index X v)"
  define e2 where "e2 = mem (off + entry_addr X e3) (va_p2_index X v)"
  have top: "canonical_addr off" "address_window off cr3" using map by (simp_all add: direct_map_def)
  have w4: "address_window off (entry_addr X e4)" if "bit e4 0"
    using map that by (auto simp: direct_map_def e4_def entry_addr Let_def)
  have w3: "address_window off (entry_addr X e3)" if "bit e4 0" "bit e3 0" "\<not> bit e3 7"
    using map that by (auto simp: direct_map_def e4_def e3_def entry_addr Let_def)
  have w2: "address_window off (entry_addr X e2)" if "bit e4 0" "bit e3 0" "\<not> bit e3 7" "bit e2 0" "\<not> bit e2 7"
    using map that by (auto simp: direct_map_def e4_def e3_def e2_def entry_addr Let_def)
  obtain p1 p2 p3 where ps: "add_checked_build (entry_addr X e3) (v AND 0x3fffffff) = Ret p1"
    "add_checked_build (entry_addr X e2) (v AND 0x1fffff) = Ret p2"
    "add_checked_build (entry_addr X (mem (off + entry_addr X e2) (va_p1_index X v))) (v AND 0xfff) = Ret p3"
    using entry_offset_defined[of "0x3fffffff" e3 v] entry_offset_defined[of "0x1fffff" e2 v]
      entry_offset_defined[of "0xfff" "mem (off + entry_addr X e2) (va_p1_index X v)" v] by auto
  note unfold = walk_virtual_address_def active_level_4_table_def page_table_from_physical_def
  show ?thesis
    unfolding unfold v_def[symmetric]
    by (simp add: True va_try_new va_new va_add top entry_present entry_huge Let_def e4_def[symmetric] e3_def[symmetric] e2_def[symmetric]
        w4 w3 w2 ps)
qed

end

lemma important_canonical:
  assumes "env_ok E" "(a, label) \<in> set (important_mappings E)"
  shows "canonical_addr a"
  using assms by (auto simp: important_mappings_def env_ok_def canonical_addr_def DEMO_PAGE_START_def HEAP_START_def)

lemma keeps_each_in: "(\<And>x. x \<in> set xs \<Longrightarrow> keeps pan I (f x)) \<Longrightarrow> keeps pan I (each xs f)"
  by (induction xs) (auto intro!: keeps_rules)

lemma translate_outcome:
  assumes "env_ok E" "direct_map (me_tables E) (me_cr3 E) off"
  shows "if canonical_addr a then \<exists>r. translate_virtual_address (me_x86_64 E) (me_mapper E) (me_cr3 E) off a = Ret r
    else translate_virtual_address (me_x86_64 E) (me_mapper E) (me_cr3 E) off a = Panic InvalidAddress"
proof -
  have X: "x86_64_documented (me_x86_64 E)" using assms(1) by (simp add: env_ok_def)
  obtain r where "translate_virtual_address (me_x86_64 E) (me_mapper E) (me_cr3 E) off 0 = Ret r"
    using x86_64_documented.translate_defined[OF X assms(2), of 0] by (auto simp: canonical_addr_def)
  then show ?thesis
    by (auto simp: translate_virtual_address_def bind_run_Ret_iff x86_64_documented.va_new[OF X])
qed

lemma keeps_translate:
  assumes "env_ok E" "direct_map (me_tables E) (me_cr3 E) off" "canonical_addr a"
  shows "keeps pan I (translate E off a)"
  using translate_outcome[OF assms(1,2), of a] assms(3) unfolding translate_def by (intro keeps_lift) auto

lemma keeps_vm:
  assumes "env_ok E" "context_ok E C"
    and "\<And>raw rest a. parts = raw # rest \<Longrightarrow> mc_physical_memory_offset C \<noteq> None \<Longrightarrow> parse_u64 raw = Some a \<Longrightarrow> canonical_addr a"
  shows "keeps pan (monitor_ok E m n) (cmd_vm E C parts)"
proof (cases "mc_physical_memory_offset C")
  case None
  then show ?thesis unfolding cmd_vm_def by (simp add: keeps_println)
next
  case (Some off)
  then have off: "direct_map (me_tables E) (me_cr3 E) off" using assms(2) by (simp add: context_ok_def)
  have "keeps pan (monitor_ok E m n) (each (important_mappings E) (\<lambda>(a, label). print_vm_translation E off a label))"
    using important_canonical[OF assms(1)]
    by (intro keeps_each_in) (auto simp: print_vm_translation_def intro!: keeps_translate[OF assms(1) off] keeps_rules)
  then show ?thesis
    unfolding cmd_vm_def using Some assms(3)
    by (auto intro!: keeps_rules keeps_translate[OF assms(1) off] split: list.split option.split)
qed

lemma keeps_vmmap:
  assumes "env_ok E" "context_ok E C"
  shows "keeps pan (monitor_ok E m n) (cmd_vmmap E C parts)"
proof -
  have "keeps pan (monitor_ok E m n) (print_vm_walk E off a label)" if "direct_map (me_tables E) (me_cr3 E) off" for off a label
  proof -
    have "\<exists>info. walk_virtual_address (me_x86_64 E) (me_cr3 E) (me_tables E) off a = Ret info"
      by (rule x86_64_documented.walk_defined) (use assms(1) that in \<open>simp_all add: env_ok_def\<close>)
    then show ?thesis
      unfolding print_vm_walk_def by (elim exE, intro yields_lift_bind) (assumption, intro keeps_rules)
  qed
  then show ?thesis
    unfolding cmd_vmmap_def using assms(2) by (intro keeps_rules) (auto simp: context_ok_def)
qed

lemma read_volatile_bytes_outcome:
  "read_volatile_bytes M a k mm =
     (case find (\<lambda>b. mp_translate_addr M (mm_mapper mm) b = None) (map (\<lambda>i. a + of_nat i) [0..<k]) of
        Some b \<Rightarrow> Panic (PageFault b)
      | None \<Rightarrow> Ret (map (\<lambda>i. mm_bytes mm (the (mp_translate_addr M (mm_mapper mm) (a + of_nat i)))) [0..<k]))"
proof (induction k arbitrary: a)
  case (Suc k)
  have shift: "map (\<lambda>i. f (a + of_nat i)) [0..<Suc k] = f a # map (\<lambda>i. f (a + 1 + of_nat i)) [0..<k]" for f :: "u64 \<Rightarrow> 'x"
    by (simp add: upt_conv_Cons map_Suc_upt[symmetric] add.assoc del: upt_Suc)
  show ?case
    unfolding shift[of "\<lambda>x. x"] shift[of "\<lambda>x. mm_bytes mm (the (mp_translate_addr M (mm_mapper mm) x))"]
    by (simp add: Suc.IH read_volatile_u8_def split: option.split)
qed simp

lemma read_volatile_u64_outcome:
  "(case read_panic M (mm_mapper mm) a of Some p \<Rightarrow> read_volatile_u64 M a mm = Panic p | None \<Rightarrow> \<exists>v. read_volatile_u64 M a mm = Ret v)"
  by (auto simp: read_panic_def read_volatile_u64_def read_volatile_bytes_outcome simp del: upt_rec_numeral split: option.split)

lemma keeps_fault:
  assumes "\<And>a. optional_arg 0xDEADBEEF parts = Inr a \<Longrightarrow> read_panic (me_mapper E) m a = None"
  shows "keeps pan (monitor_ok E m n) (cmd_fault E parts)"
proof -
  have "keeps pan (monitor_ok E m n) (fault_read E a)" if arg: "optional_arg 0xDEADBEEF parts = Inr a" for a
  proof -
    have "\<exists>v. read_volatile_u64 (me_mapper E) a (mo_machine s) = Ret v" if "monitor_ok E m n s" for s
      using read_volatile_u64_outcome[where M = "me_mapper E" and mm = "mo_machine s" and a = a] assms[OF arg] that by (auto simp: monitor_ok_def)
    then show ?thesis unfolding fault_read_def by (intro yields_act) fastforce
  qed
  then show ?thesis unfolding cmd_fault_def by (intro keeps_rules)
qed

section \<open>System calls, tasks and demos\<close>

lemma gates_handler: "ce_handler (gates E s h) = handle_interrupt_from_registers (services s)" "ce_depth (gates E s h) = ce_depth (me_callee E)"
  by (simp_all add: gates_def)

lemma services_pit: "monitor_ok E m n s \<Longrightarrow> pit_ok (ks_interrupts (services s))"
  by (simp add: monitor_ok_def services_def)

lemma keeps_invoke: "env_ok E \<Longrightarrow> keeps pan (monitor_ok E m n) (invoke E number a0 a1 a2)"
  unfolding invoke_def
proof (rule yields_act)
  fix s
  assume E: "env_ok E" and ok: "monitor_ok E m n s"
  have "ce_depth (gates E s SyscallInterruptEntry) < 2 ^ 63" using E by (simp add: gates_handler env_ok_def)
  from invoke_via_interrupt_served[where CF = "gates E s", OF gates_handler(1) this services_pit[OF ok]] ok
  show "\<exists>x s'. bind_run (invoke_via_interrupt (gates E s) (me_tss_rsp0 E) (me_syscall_entry E) number a0 a1 a2 (mo_cpu s))
      (\<lambda>(r, c). Ret (r, s\<lparr>mo_cpu := c\<rparr>)) = Ret (x, s') \<and> monitor_ok E m n s'"
    by (metis (no_types, lifting) bind_run.simps(1) case_prod_conv monitor_ok_free(2))
qed

lemma run_user_demo_defined:
  assumes "ce_handler (CF SyscallInterruptEntry) = handle_interrupt_from_registers ks"
    and "ce_depth (CF SyscallInterruptEntry) < 2 ^ 63" "pit_ok (ks_interrupts ks)"
  shows "\<exists>r c'. run_user_demo CF tss_rsp0 entry c = Ret (r, c')"
proof -
  note gate = interrupt_gate[where CF = CF, OF assms, of tss_rsp0 entry]
  have step: "\<exists>r c'. call_then (invoke_via_interrupt CF tss_rsp0 entry n a0 a1 a2) f c = Ret (r, c')"
    if "\<And>v c. \<exists>r c'. f v c = Ret (r, c')" for n a0 a1 a2 c and f :: "u64 \<Rightarrow> cpu \<Rightarrow> ((UserDemoReport, SyscallError) result \<times> cpu) run"
    using call_gate.invoke_serves[OF gate, of n a0 a1 a2 c] that
    by (auto simp: call_then_def split: sum.split)
  show ?thesis unfolding run_user_demo_def Let_def by (intro step) simp
qed

lemma keeps_user_demo: "env_ok E \<Longrightarrow> keeps pan (monitor_ok E m n) (user_demo E)"
  unfolding user_demo_def
proof (rule yields_act)
  fix s
  assume E: "env_ok E" and ok: "monitor_ok E m n s"
  have "ce_depth (gates E s SyscallInterruptEntry) < 2 ^ 63" using E by (simp add: gates_handler env_ok_def)
  then obtain r c where "run_user_demo (gates E s) (me_tss_rsp0 E) (me_syscall_entry E) (mo_cpu s) = Ret (r, c)"
    using run_user_demo_defined[where CF = "gates E s", OF gates_handler(1) _ services_pit[OF ok]] by blast
  with ok show "\<exists>x s'. bind_run (run_user_demo (gates E s) (me_tss_rsp0 E) (me_syscall_entry E) (mo_cpu s))
      (\<lambda>(r, c). Ret (r, s\<lparr>mo_cpu := c\<rparr>)) = Ret (x, s') \<and> monitor_ok E m n s'"
    by simp
qed

lemma keeps_syscall: "env_ok E \<Longrightarrow> keeps pan (monitor_ok E m n) (cmd_syscall E parts)"
  unfolding cmd_syscall_def by (intro keeps_rules keeps_invoke)

lemma keeps_userdemo: "env_ok E \<Longrightarrow> keeps pan (monitor_ok E m n) (cmd_userdemo E)"
  unfolding cmd_userdemo_def by (intro keeps_rules keeps_user_demo)

text \<open>A demo starts when its memory is there, and is refused otherwise.\<close>

lemma run_demo_code_ok:
  assumes "um_context um \<noteq> None \<longrightarrow> (\<exists>p. mapped_to M (mm_mapper mm) USER_CODE_START p 4096)" "length code \<le> 4096"
  shows "\<exists>r um'. run_demo_code M sel code kind um mm c = (Ret r, um') \<and> um_context um' = um_context um \<and>
    (\<forall>c' mm'. r = Inr (c', mm') \<longrightarrow> mm_mapper mm' = mm_mapper mm)"
proof (cases "um_context um")
  case (Some ctx)
  then obtain p where "mapped_to M (mm_mapper mm) USER_CODE_START p 4096" using assms(1) by auto
  from write_demo_code_mapped[OF this assms(2)] show ?thesis by (simp add: run_demo_code_def Some Let_def)
qed (simp add: run_demo_code_def)


lemma keeps_start:
  assumes "\<And>um mm c. um_context um \<noteq> None \<longrightarrow> (\<exists>p. mapped_to (me_mapper E) (mm_mapper mm) USER_CODE_START p 4096) \<Longrightarrow>
     \<exists>r um'. f um mm c = (Ret r, um') \<and> um_context um' = um_context um \<and> (\<forall>c' mm'. r = Inr (c', mm') \<longrightarrow> mm_mapper mm' = mm_mapper mm)"
  shows "keeps pan (monitor_ok E m n) (start_demo f)"
proof (rule yieldsI)
  fix s
  assume ok: "monitor_ok E m n s"
  then have "um_context (mo_usermode s) \<noteq> None \<longrightarrow>
      (\<exists>p. mapped_to (me_mapper E) (mm_mapper (mo_machine s)) USER_CODE_START p 4096)"
    by (auto simp: monitor_ok_def)
  from assms[OF this, of "mo_cpu s"] obtain r um' where
    r: "f (mo_usermode s) (mo_machine s) (mo_cpu s) = (Ret r, um')" "um_context um' = um_context (mo_usermode s)"
      "\<And>c' mm'. r = Inr (c', mm') \<Longrightarrow> mm_mapper mm' = mm_mapper (mo_machine s)" by auto
  show "\<exists>r s'. start_demo f s = Ret (r, s') \<and> monitor_ok E m n s'"
    using ok r by (cases r) (auto simp: start_demo_def monitor_ok_def split: prod.split)
qed

lemma demo_lengths:
  "length USER_INT_DEMO_CODE \<le> 4096"
  "build_fast_syscall_success_code = Inr ub \<Longrightarrow> length (code_as_slice ub) \<le> 4096"
  "build_fast_syscall_error_code = Inr ub \<Longrightarrow> length (code_as_slice ub) \<le> 4096"
proof -
  show "length USER_INT_DEMO_CODE \<le> 4096" by (simp add: USER_INT_DEMO_CODE_def)
  show "length (code_as_slice ub) \<le> 4096" if "build_fast_syscall_success_code = Inr ub"
    using build_fast_syscall_codes(1)[unfolded that] by (auto simp: slot0_bytes_def slot1_bytes_def mov_args_def)
  show "length (code_as_slice ub) \<le> 4096" if "build_fast_syscall_error_code = Inr ub"
    using build_fast_syscall_codes(2)[unfolded that] by (auto simp: slot0_bytes_def slot1_bytes_def mov_args_def)
qed

lemma keeps_demos:
  "keeps pan (monitor_ok E m n) (start_demo (run_demo (me_mapper E) sel))"
  "keeps pan (monitor_ok E m n) (start_demo (run_fast_syscall_demo (me_mapper E) sel))"
  "keeps pan (monitor_ok E m n) (start_demo (run_fast_syscall_error_demo (me_mapper E) sel))"
proof -
  show "keeps pan (monitor_ok E m n) (start_demo (run_demo (me_mapper E) sel))"
    unfolding run_demo_def by (intro keeps_start run_demo_code_ok demo_lengths)
  obtain ub where ub: "build_fast_syscall_success_code = Inr ub" using build_fast_syscall_codes(1) by blast
  show "keeps pan (monitor_ok E m n) (start_demo (run_fast_syscall_demo (me_mapper E) sel))"
    unfolding run_fast_syscall_demo_def ub sum.case by (intro keeps_start run_demo_code_ok demo_lengths(2)[OF ub])
  obtain ub where ub: "build_fast_syscall_error_code = Inr ub" using build_fast_syscall_codes(2) by blast
  show "keeps pan (monitor_ok E m n) (start_demo (run_fast_syscall_error_demo (me_mapper E) sel))"
    unfolding run_fast_syscall_error_demo_def ub sum.case by (intro keeps_start run_demo_code_ok demo_lengths(3)[OF ub])
qed

lemma keeps_usermode:
  "keeps pan (monitor_ok E m n) (cmd_usermode E)" "keeps pan (monitor_ok E m n) (cmd_usermode_syscall E)"
  "keeps pan (monitor_ok E m n) (cmd_usermode_syscall_fail E)"
  unfolding cmd_usermode_def cmd_usermode_syscall_def cmd_usermode_syscall_fail_def
  by (intro keeps_rules keeps_demos)+

lemma keeps_on_table:
  assumes "\<And>tt. wf_table tt \<Longrightarrow> wf_table (snd (f tt)) \<and> tt_next_id (snd (f tt)) = tt_next_id tt"
  shows "keeps pan (monitor_ok E m n) (on_table f)"
  unfolding on_table_def
proof (rule yields_act)
  fix s
  assume ok: "monitor_ok E m n s"
  then have "wf_table (snd (f (mo_tasks s)))" "tt_next_id (snd (f (mo_tasks s))) = tt_next_id (mo_tasks s)"
    using assms[of "mo_tasks s"] by (simp_all add: monitor_ok_def)
  with ok show "\<exists>x s'. (case f (mo_tasks s) of (r, tt) \<Rightarrow> Ret (r, s\<lparr>mo_tasks := tt\<rparr>)) = Ret (x, s') \<and> monitor_ok E m n s'"
    by (cases "f (mo_tasks s)") (auto intro: monitor_ok_tasks)
qed

lemma run_on_task_next_id [simp]: "tt_next_id (snd (run_on_task i body tt)) = tt_next_id tt"
  by (simp add: run_on_task_def split: prod.split)

lemma table_ops_next_id:
  "tt_next_id (snd (table_wake_due now tt)) = tt_next_id tt"
  "tt_next_id (snd (table_sleep i ticks now tt)) = tt_next_id tt"
  "tt_next_id (snd (table_wake i now tt)) = tt_next_id tt"
  "tt_next_id (snd (table_remove i now tt)) = tt_next_id tt"
  "tt_next_id (snd (table_set_priority i p now tt)) = tt_next_id tt"
  by (simp_all add: table_wake_due_conv table_sleep_def table_wake_def table_remove_def table_set_priority_def Let_def)

lemma keeps_table_commands:
  "keeps pan (monitor_ok E m n) (cmd_tasksleep parts)" "keeps pan (monitor_ok E m n) (cmd_taskwake parts)"
  "keeps pan (monitor_ok E m n) (cmd_taskrm parts)" "keeps pan (monitor_ok E m n) (cmd_taskprio parts)"
  unfolding cmd_tasksleep_def tasksleep_def cmd_taskwake_def cmd_taskrm_def cmd_taskprio_def task_functions
  by (intro keeps_rules keeps_on_table conjI table_sleep_wf table_wake_wf table_remove_wf table_set_priority_wf table_ops_next_id; assumption)+

lemma keeps_task_step: "keeps pan (monitor_ok E m n) (task_step now)"
  unfolding task_step_def
proof (rule yields_act)
  fix s
  assume ok: "monitor_ok E m n s"
  then obtain r tt where "table_step now (mo_tasks s) = Ret (r, tt)" "wf_table tt" "tt_next_id tt = tt_next_id (mo_tasks s)"
    using table_step_total[of "mo_tasks s" now] by (auto simp: monitor_ok_def)
  with ok show "\<exists>x s'. bind_run (table_step now (mo_tasks s)) (\<lambda>(r, tt). Ret (r, s\<lparr>mo_tasks := tt\<rparr>)) = Ret (x, s') \<and>
      monitor_ok E m n s'" by (auto intro: monitor_ok_tasks)
qed

lemma keeps_payload: "env_ok E \<Longrightarrow> keeps pan (monitor_ok E m n) (run_task_payload E kind)"
  unfolding run_task_payload_def by (cases kind; simp; intro keeps_rules keeps_user_demo keeps_demos)

lemma keeps_step_with_label: "env_ok E \<Longrightarrow> keeps pan (monitor_ok E m n) (run_task_step_with_label_internal E label b)"
  unfolding run_task_step_with_label_internal_def by (intro keeps_rules keeps_task_step keeps_payload)

lemma keeps_taskrun: "env_ok E \<Longrightarrow> keeps pan (monitor_ok E m n) (cmd_taskrun E parts)"
proof -
  assume "env_ok E"
  then have "keeps pan (monitor_ok E m n) (taskrun_loop E k executed)" for k executed
    by (induction k arbitrary: executed) (auto simp: run_task_step_with_label_def intro!: keeps_rules keeps_step_with_label)
  then show ?thesis unfolding cmd_taskrun_def taskrun_steps_def by (intro keeps_rules)
qed

lemma keeps_taskstep: "env_ok E \<Longrightarrow> keeps pan (monitor_ok E m n) (cmd_taskstep E)"
  unfolding cmd_taskstep_def run_task_step_with_label_def by (intro keeps_rules keeps_step_with_label)

lemma keeps_taskauto: "keeps pan (monitor_ok E m n) (cmd_taskauto parts)"
  unfolding cmd_taskauto_def taskauto_on_def by (intro keeps_rules yields_change) simp_all

lemma length_tasks_of: "length (tasks_of ss) \<le> length ss"
  by (induction ss rule: tasks_of.induct) auto

lemma keeps_tasks: "keeps pan (monitor_ok E m n) cmd_tasks"
proof -
  have "keeps pan (monitor_ok E m n) (act (\<lambda>s. bind_run (table_list (mo_tasks s) (replicate MAX_TASKS None)) (\<lambda>r. Ret (r, s))))"
  proof (rule yields_act)
    fix s
    assume ok: "monitor_ok E m n s"
    then have "length (tasks_of (tt_slots (mo_tasks s))) \<le> MAX_TASKS"
      using length_tasks_of[of "tt_slots (mo_tasks s)"] by (simp add: monitor_ok_def wf_table_def wf_slots_def)
    with ok show "\<exists>x s'. bind_run (table_list (mo_tasks s) (replicate MAX_TASKS None)) (\<lambda>r. Ret (r, s)) = Ret (x, s') \<and>
        monitor_ok E m n s'" by (simp add: table_list_def list_loop_conv)
  qed
  then show ?thesis unfolding cmd_tasks_def show_task_def task_functions by (intro keeps_rules)
qed

text \<open>Creating a task uses up an id.\<close>

lemma spends_tasknew: "yields pan (monitor_ok E m (Suc n)) (cmd_tasknew parts) (monitor_ok E m n)"
proof -
  have spawn: "yields pan (monitor_ok E m (Suc n)) (task_spawn kind) (monitor_ok E m n)" for kind
    unfolding task_spawn_def
  proof (rule yields_act)
    fix s
    assume ok: "monitor_ok E m (Suc n) s"
    then have wf: "wf_table (mo_tasks s)" and room: "unat (tt_next_id (mo_tasks s)) + Suc n < 2 ^ 64"
      by (simp_all add: monitor_ok_def)
    have max: "tt_next_id (mo_tasks s) \<noteq> - 1" using room unat_max_word[where 'a = 64] by auto
    obtain r tt where sp: "table_spawn kind (mo_tasks s) = Ret (r, tt)" "unat (tt_next_id tt) \<le> unat (tt_next_id (mo_tasks s)) + 1"
    proof (cases "None \<in> set (tt_slots (mo_tasks s))")
      case True
      from table_spawn_free[OF True, of kind] that show ?thesis
        by (auto simp: unat_saturating_add)
    qed (use that table_spawn_full in auto)
    with ok table_spawn_wf[OF wf max sp(1)]
    show "\<exists>x s'. bind_run (table_spawn kind (mo_tasks s)) (\<lambda>(r, tt). Ret (r, s\<lparr>mo_tasks := tt\<rparr>)) = Ret (x, s') \<and>
        monitor_ok E m n s'" by (auto simp: monitor_ok_def)
  qed
  show ?thesis
  proof (cases "parse_task_kind (case parts of [] \<Rightarrow> ''userdemo'' | text # _ \<Rightarrow> text)")
    case None
    then show ?thesis unfolding cmd_tasknew_def Let_def by (auto intro!: spends_keeps keeps_rules)
  next
    case (Some kind)
    then show ?thesis
      unfolding cmd_tasknew_def Let_def by (simp, intro yields_bind[OF spawn] keeps_rules)
  qed
qed

text \<open>Any other command returns and leaves the invariant; only \<open>tasknew\<close> uses up room.\<close>

lemma calm_command_safe:
  assumes E: "env_ok E" "context_ok E C" "line_panic E m C line = None"
  shows "yields pan (monitor_ok E m (Suc n)) (execute_command E C line) (monitor_ok E m n)"
proof (cases "split_whitespace line")
  case Nil
  then show ?thesis unfolding execute_command_def by (simp add: spends_keeps keeps_ret)
next
  case (Cons command parts)
  note calm = E(3)[unfolded line_panic_Cons[OF Cons]]
  have arms: "list_all (\<lambda>(name, arm). name \<in> {''tasknew'', ''fault'', ''vm'', ''heap''} \<or> keeps pan (monitor_ok E m n) arm)
      (command_arms E C line parts)"
    by (simp add: command_arms_def keeps_information keeps_uptime keeps_timerhz keeps_maps keeps_vmmap[OF E(1,2)]
        keeps_syscall[OF E(1)] keeps_tasks keeps_taskstep[OF E(1)] keeps_taskrun[OF E(1)] keeps_table_commands keeps_taskauto
        keeps_userdemo[OF E(1)] keeps_usermode keeps_history keeps_clear)
  have arm: "yields pan (monitor_ok E m (Suc n)) arm (monitor_ok E m n)" if mem: "(command, arm) \<in> set (command_arms E C line parts)" for arm
  proof (cases "command = ''tasknew''")
    case True
    with mem show ?thesis by (auto simp: command_arms_def spends_tasknew)
  next
    case False
    show ?thesis
    proof (rule spends_keeps)
      consider "command = ''fault''" "arm = cmd_fault E parts" | "command = ''vm''" "arm = cmd_vm E C parts"
        | "command = ''heap''" "arm = cmd_heap E" | "command \<notin> {''fault'', ''vm'', ''heap''}"
        using mem by (auto simp: command_arms_def)
      then show "keeps pan (monitor_ok E m n) arm"
      proof cases
        case 1
        show ?thesis unfolding 1(2) by (rule keeps_fault) (use calm 1(1) in metis)
      next
        case 2
        show ?thesis unfolding 2(2) by (rule keeps_vm[OF E(1,2)]) (use calm 2(1) in metis)
      next
        case 3
        show ?thesis unfolding 3(2) by (rule keeps_heap) (use calm 3(1) in metis)
      next
        case 4
        with arms mem False show ?thesis by (auto simp: list_all_iff)
      qed
    qed
  qed
  show ?thesis
  proof (cases "command = ''exit'' \<or> command = ''quit''")
    case True
    then show ?thesis unfolding execute_command_def by (simp add: Cons spends_keeps keeps_ret)
  next
    case False
    have "yields pan (monitor_ok E m (Suc n)) (case map_of (command_arms E C line parts) command of
        Some arm \<Rightarrow> arm | None \<Rightarrow> console_println (''unknown command: '' @ command)) (monitor_ok E m n)"
      using arm by (auto intro: spends_keeps keeps_println dest: map_of_SomeD split: option.split)
    with False show ?thesis
      unfolding execute_command_def by (simp add: Cons) (erule yields_bind, intro keeps_rules)
  qed
qed

text \<open>The other lines panic, in the way \<open>line_panic\<close> names.\<close>

lemma line_panics:
  assumes E: "env_ok E" "context_ok E C" and p: "line_panic E (mm_mapper (mo_machine s)) C line = Some p"
  shows "execute_command E C line s = Panic p"
proof -
  obtain command parts where split: "split_whitespace line = command # parts" using p by (auto simp: line_panic_def split: list.splits)
  note p = p[unfolded line_panic_def split list.case]
  consider a where "command = ''fault''" "optional_arg 0xDEADBEEF parts = Inr a" "read_panic (me_mapper E) (mm_mapper (mo_machine s)) a = Some p"
    | raw rest a off where "command = ''vm''" "parts = raw # rest" "parse_u64 raw = Some a" "mc_physical_memory_offset C = Some off"
        "\<not> canonical_addr a" "p = InvalidAddress"
    | "command = ''heap''" "me_heap E = None" "p = AllocationFailed"
    using p by (auto split: if_splits sum.splits list.splits option.splits)
  then show ?thesis
  proof cases
    case 1
    then have "read_volatile_u64 (me_mapper E) a (mo_machine s) = Panic p"
      using read_volatile_u64_outcome[where M = "me_mapper E" and mm = "mo_machine s" and a = a] by simp
    with 1 show ?thesis by (simp add: execute_command_def split command_arms_def cmd_fault_def fault_read_def mon_simps)
  next
    case 2
    then have "translate_virtual_address (me_x86_64 E) (me_mapper E) (me_cr3 E) off a = Panic InvalidAddress"
      using translate_outcome[OF E(1), of off a] E(2) by (simp add: context_ok_def)
    with 2 show ?thesis by (simp add: execute_command_def split command_arms_def cmd_vm_def translate_def mon_simps)
  next
    case 3
    then show ?thesis by (simp add: execute_command_def split command_arms_def cmd_heap_def mon_simps)
  qed
qed

lemma execute_command_safe:
  assumes E: "env_ok E" "context_ok E C" "\<forall>p. line_panic E m C line = Some p \<longrightarrow> pan p"
  shows "yields pan (monitor_ok E m (Suc n)) (execute_command E C line) (monitor_ok E m n)"
proof (cases "line_panic E m C line")
  case None
  then show ?thesis by (rule calm_command_safe[OF E(1,2)])
next
  case (Some p)
  then have "execute_command E C line s = Panic p" if "monitor_ok E m (Suc n) s" for s
    using that by (intro line_panics[OF E(1,2)]) (simp add: monitor_ok_def)
  with Some E(3) show ?thesis by (simp add: yields_def)
qed

section \<open>Key events\<close>

lemma edit_ok: "line_ok line \<Longrightarrow> \<exists>b line'. run_edit x line = Ret (b, line') \<and> line_ok line'"
  using line_editor.step_refines[of line x] by auto

lemma keeps_edit:
  assumes "f = run_edit x"
  shows "keeps pan (monitor_ok E m n) (edit f)"
  unfolding edit_def
proof (rule yields_act)
  fix s
  assume ok: "monitor_ok E m n s"
  then obtain b line where "f (mo_line s) = Ret (b, line)" "line_ok line"
    using edit_ok[of "mo_line s" x] assms by (auto simp: monitor_ok_def)
  with ok show "\<exists>r s'. bind_run (f (mo_line s)) (\<lambda>(r, line). Ret (r, s\<lparr>mo_line := line\<rparr>)) = Ret (r, s') \<and> monitor_ok E m n s'"
    by (auto intro: monitor_ok_line)
qed

lemma run_edit_ops:
  "insert_or_overwrite_char c b = run_edit (EditChar c b)" "append_str t = run_edit (EditAppend t)"
  "set_from_str t = run_edit (EditSet t)" "line_backspace = run_edit EditBackspace" "line_delete = run_edit EditDelete"
  "(\<lambda>l. Ret (move_left l)) = run_edit EditLeft" "(\<lambda>l. Ret (move_right l)) = run_edit EditRight"
  "(\<lambda>l. Ret (move_home l)) = run_edit EditHome" "(\<lambda>l. Ret (move_end l)) = run_edit EditEnd"
  "move_word_left = run_edit EditWordLeft" "move_word_right = run_edit EditWordRight"
  "delete_word_left = run_edit EditDeleteWordLeft" "delete_word_right = run_edit EditDeleteWordRight"
  by (simp_all add: fun_eq_iff)

lemmas keeps_edits = run_edit_ops[THEN keeps_edit]

text \<open>The line read from a state with the invariant can be read as text.\<close>

lemma keeps_line_bind:
  assumes "\<And>line t p. line_as_str line = Ret t \<Longrightarrow> as_prefix_str line = Ret p \<Longrightarrow> keeps pan (monitor_ok E m n) (f line)"
  shows "keeps pan (monitor_ok E m n) (bind_mon (reads mo_line) f)"
proof (rule yields_reads_bind)
  fix s
  assume "monitor_ok E m n s"
  from monitor_ok_parts(1)[OF this] line_strings[of "mo_line s"]
  show "keeps pan (monitor_ok E m n) (f (mo_line s))" by (cases "line_view (mo_line s)") (auto intro!: assms)
qed

lemma keeps_redraw: "keeps pan (monitor_ok E m n) redraw_prompt_with_line"
  unfolding redraw_prompt_with_line_def Let_def
  by (rule keeps_line_bind) (rule keeps_rules keeps_lift yields_change | assumption | simp)+

lemma keeps_reset_history: "keeps pan (monitor_ok E m n) reset_history"
  unfolding reset_history_def
  by (intro yields_change monitor_ok_history) (simp_all add: monitor_ok_def hist_ok_def reset_browsing_def)

lemma keeps_clear_line: "keeps pan (monitor_ok E m n) (change (\<lambda>s. s\<lparr>mo_line := line_clear (mo_line s)\<rparr>))"
  by (rule yields_change) (simp add: monitor_ok_def line_ok_def line_clear_def)

lemma keeps_complete: "keeps pan (monitor_ok E m n) complete_command"
  unfolding complete_command_def
  by (rule keeps_line_bind, rule yields_lift_bind, assumption) (intro keeps_rules keeps_edits keeps_redraw)

text \<open>What browsing returns can be shown.\<close>

definition readable :: "HistoryEntry option \<Rightarrow> bool" where
  "readable e \<longleftrightarrow> (\<forall>entry. e = Some entry \<longrightarrow> (\<exists>t. entry_as_str entry = Ret t))"

lemma browse_ok:
  assumes "hist_ok h" "f \<in> {history_previous, history_next}"
  shows "\<exists>e h'. f h = Ret (e, h') \<and> hist_ok h' \<and> readable e"
proof -
  have "\<exists>r h'. bind_run (f h) entry_text = Ret (r, h') \<and> hist_ok h'"
    using assms previous_refines[OF assms(1)] next_refines[OF assms(1)] by auto
  then show ?thesis
    by (auto simp: bind_run_Ret_iff entry_text_def readable_def split: option.splits)
qed

lemma keeps_browse:
  assumes "f \<in> {history_previous, history_next}" "\<And>e. readable e \<Longrightarrow> keeps pan (monitor_ok E m n) (g e)"
  shows "keeps pan (monitor_ok E m n) (bind_mon (browse f) g)"
  unfolding browse_def
proof (rule yields_act_bind)
  fix s
  assume ok: "monitor_ok E m n s"
  obtain e h where "f (mo_history s) = Ret (e, h)" "hist_ok h" "readable e"
    using browse_ok[OF monitor_ok_parts(2)[OF ok] assms(1)] by blast
  with ok show "\<exists>x s'. bind_run (f (mo_history s)) (\<lambda>(e, h). Ret (e, s\<lparr>mo_history := h\<rparr>)) = Ret (x, s') \<and>
      monitor_ok E m n s' \<and> readable x"
    by (auto intro: monitor_ok_history)
qed (rule assms(2))

lemma keeps_show_entry: "readable (Some entry) \<Longrightarrow> keeps pan (monitor_ok E m n) (show_entry entry)"
  unfolding show_entry_def readable_def
  by (auto intro!: yields_lift_bind keeps_bind[OF keeps_edits(3)] keeps_ret)

text \<open>Every key but Enter keeps the invariant.\<close>

lemmas key_rules = keeps_rules keeps_edits keeps_redraw keeps_reset_history keeps_clear_line keeps_complete keeps_show_entry

lemma handle_key_safe: "event \<noteq> Key_Enter \<Longrightarrow> keeps pan (monitor_ok E m n) (handle_key_event E scancode event)"
proof (cases event)
  case Key_ArrowUp
  show ?thesis unfolding Key_ArrowUp handle_key_event.simps stay_def
    by (intro keeps_bind[OF _ keeps_ret] keeps_browse) (auto intro!: key_rules)
next
  case Key_ArrowDown
  show ?thesis unfolding Key_ArrowDown handle_key_event.simps stay_def
    by (intro keeps_bind[OF _ keeps_ret] keeps_browse) (auto intro!: key_rules)
next
  case Key_Insert
  show ?thesis unfolding Key_Insert handle_key_event.simps stay_def toggle_overwrite_def
    by (intro key_rules yields_change) simp
qed (simp_all add: stay_def edit_and_redraw_def edit_reset_redraw_def, (intro key_rules)+)

text \<open>The state in which a key arrives: with room for what it may use up, and a given line and context.\<close>

definition typed :: "'m monitor_env \<Rightarrow> 'm \<Rightarrow> nat \<Rightarrow> InputLine \<Rightarrow> MonitorContext \<Rightarrow> 'm monitor \<Rightarrow> bool" where
  "typed E m n line C s \<longleftrightarrow> monitor_ok E m n s \<and> mo_line s = line \<and> mo_context s = C"

lemma typed_less: "typed E m (Suc n) line C s \<Longrightarrow> monitor_ok E m n s"
  by (auto simp: typed_def intro: monitor_ok_less)

lemma keeps_after_command: "keeps pan (monitor_ok E m n) (after_command should_exit)"
  unfolding after_command_def by (intro key_rules yields_change) simp

lemma run_entered_line_safe:
  assumes E: "env_ok E" and t: "line_as_str line = Ret t" "\<forall>p. line_panic E m C t = Some p \<longrightarrow> pan p"
  shows "yields pan (typed E m (Suc n) line C) (run_entered_line E) (monitor_ok E m n)"
  unfolding run_entered_line_def
proof (intro yields_reads_bind yields_lift_bind)
  fix s1 s2
  assume s: "typed E m (Suc n) line C s1" "typed E m (Suc n) line C s2"
  show "line_as_str (mo_line s1) = Ret t" using s(1) t(1) by (simp add: typed_def)
  have C: "mo_context s2 = C" "context_ok E C" using s(2) by (auto simp: typed_def monitor_ok_parts)
  have "yields pan (typed E m (Suc n) line C) (execute_command E C t) (monitor_ok E m n)"
    by (rule yields_weaken[OF execute_command_safe[OF E C(2) t(2)]]) (auto simp: typed_def)
  then show "yields pan (typed E m (Suc n) line C) (bind_mon (execute_command E (mo_context s2) t) after_command) (monitor_ok E m n)"
    unfolding C(1) by (rule yields_bind) (rule keeps_after_command)
qed

lemma enter_line_safe:
  assumes E: "env_ok E" and t: "line_as_str line = Ret t" "\<forall>p. line_panic E m C t = Some p \<longrightarrow> pan p"
  shows "yields pan (typed E m (Suc n) line C) (enter_line E) (monitor_ok E m n)"
proof -
  have "keeps pan (typed E m (Suc n) line C) (console_println '''')"
    unfolding console_println_def console_print_def by (rule yields_change) (simp add: typed_def)
  moreover have "keeps pan (typed E m (Suc n) line C)
      (act (\<lambda>s. bind_run (push_line (mo_line s) (mo_history s)) (\<lambda>h. Ret ((), s\<lparr>mo_history := h\<rparr>))))"
  proof (rule yields_act)
    fix s
    assume s: "typed E m (Suc n) line C s"
    then obtain h where "push_line (mo_line s) (mo_history s) = Ret h" "hist_ok h"
      using push_line_refines[of "mo_history s" line t] t(1) by (auto simp: typed_def monitor_ok_parts)
    with s show "\<exists>x s'. bind_run (push_line (mo_line s) (mo_history s)) (\<lambda>h. Ret ((), s\<lparr>mo_history := h\<rparr>)) = Ret (x, s') \<and>
        typed E m (Suc n) line C s'"
      by (auto simp: typed_def intro: monitor_ok_history)
  qed
  ultimately show ?thesis
    unfolding enter_line_def using run_entered_line_safe[OF assms]
    by (intro yields_bind[where Q = "typed E m (Suc n) line C"]) (auto intro: typed_less)
qed

section \<open>The loop\<close>

text \<open>The line about to be entered ends the machine in this way.\<close>

definition line_fails :: "'m monitor_env \<Rightarrow> 'm monitor \<Rightarrow> panic \<Rightarrow> bool" where
  "line_fails E s p \<longleftrightarrow>
     (\<exists>t. line_as_str (mo_line s) = Ret t \<and> line_panic E (mm_mapper (mo_machine s)) (mo_context s) t = Some p)"

lemma handle_key_typed:
  assumes "env_ok E" "line_as_str line = Ret t" "\<forall>p. line_panic E m C t = Some p \<longrightarrow> pan p"
  shows "yields pan (typed E m (Suc n) line C) (handle_key_event E code event) (monitor_ok E m n)"
proof (cases "event = Key_Enter")
  case True
  with enter_line_safe[OF assms] show ?thesis by simp
next
  case False
  show ?thesis by (rule yields_weaken[OF handle_key_safe[OF False]]) (auto intro: typed_less)
qed

lemma keeps_leave: "keeps pan (monitor_ok E m n) (leave reason)"
  unfolding leave_def by (intro keeps_rules)

lemma on_event_safe:
  assumes "env_ok E" "line_as_str line = Ret t" "\<forall>p. line_panic E m C t = Some p \<longrightarrow> pan p"
  shows "yields pan (typed E m (Suc (Suc n)) line C) (on_event E code event) (monitor_ok E m n)"
proof -
  have "yields pan (typed E m (Suc (Suc n)) line C)
      (act (\<lambda>s. bind_run (add_checked_build (mo_decoded_events s) 1) (\<lambda>n. Ret ((), s\<lparr>mo_decoded_events := n\<rparr>))))
      (typed E m (Suc n) line C)"
  proof (rule yields_act)
    fix s
    assume s: "typed E m (Suc (Suc n)) line C s"
    then have "unat (mo_decoded_events s) + 1 < 2 ^ 64" by (simp add: typed_def monitor_ok_def)
    then have "add_checked_build (mo_decoded_events s) 1 = Ret (mo_decoded_events s + 1)"
      "unat (mo_decoded_events s + 1) = unat (mo_decoded_events s) + 1"
      by (simp_all add: add_checked_build_def unat_word_ariths)
    with s show "\<exists>x s'. bind_run (add_checked_build (mo_decoded_events s) 1) (\<lambda>n. Ret ((), s\<lparr>mo_decoded_events := n\<rparr>)) = Ret (x, s') \<and>
        typed E m (Suc n) line C s'" by (auto simp: typed_def monitor_ok_def)
  qed
  moreover have "keeps pan (typed E m (Suc n) line C) (change (\<lambda>s. s\<lparr>mo_deadline := saturating_add (mo_ticks s) INPUT_WINDOW_TICKS\<rparr>))"
    by (rule yields_change) (simp add: typed_def)
  moreover have "yields pan (typed E m (Suc n) line C) (bind_mon (handle_key_event E code event) (\<lambda>should_exit.
       if should_exit then leave ''Exiting monitor'' else ret_mon ())) (monitor_ok E m n)"
    by (rule yields_bind[OF handle_key_typed[OF assms]]) (intro keeps_rules keeps_leave)
  ultimately show ?thesis
    unfolding on_event_def
    by (rule yields_bind[OF _ yields_bind[where Q = "typed E m (Suc n) line C"]]) (auto intro: typed_less)
qed

text \<open>Popping a scancode changes the buffer only.\<close>

lemma pop_typed:
  assumes "typed E m n line C s"
  shows "\<exists>r st. pop_scancode (mo_interrupts s) = Ret (r, st) \<and> typed E m n line C (s\<lparr>mo_interrupts := st\<rparr>)"
proof -
  have inv: "scancode_inv (is_scancodes (mo_interrupts s))" using assms by (simp add: typed_def monitor_ok_def)
  have "\<exists>r b. scancode_pop (is_scancodes (mo_interrupts s)) = Ret (r, b)"
    using scancode_pop_first[OF inv] inv by (cases "sb_len (is_scancodes (mo_interrupts s)) = 0") (auto simp: scancode_pop_def)
  then obtain r b where b: "scancode_pop (is_scancodes (mo_interrupts s)) = Ret (r, b)" by blast
  with scancode_pop_account[OF inv b] assms show ?thesis
    by (auto simp: pop_scancode_def typed_def monitor_ok_def pit_ok_def)
qed

lemma typed_skips: "yields pan (typed E m (Suc (Suc n)) line C) (ret_mon x) (monitor_ok E m n)"
  by (rule yields_weaken[OF keeps_ret, where P' = "monitor_ok E m n"]) (auto simp: typed_def intro: monitor_ok_less)

text \<open>The rest of an iteration, once a key has arrived or not.\<close>

lemma iteration_safe:
  assumes "env_ok E" "line_as_str line = Ret t" "\<forall>p. line_panic E m C t = Some p \<longrightarrow> pan p"
  shows "yields pan (typed E m (Suc (Suc n)) line C)
     (then_mon (case e of None \<Rightarrow> ret_mon () | Some event \<Rightarrow> on_event E code event) (ret_mon x)) (monitor_ok E m n)"
proof (rule yields_bind[OF _ keeps_ret])
  show "yields pan (typed E m (Suc (Suc n)) line C) (case e of None \<Rightarrow> ret_mon () | Some event \<Rightarrow> on_event E code event)
      (monitor_ok E m n)"
    using on_event_safe[OF assms] typed_skips by (auto split: option.split)
qed

lemma scancode_iteration_safe:
  assumes "env_ok E" "line_as_str line = Ret t" "\<forall>p. line_panic E m C t = Some p \<longrightarrow> pan p"
  shows "yields pan (typed E m (Suc (Suc n)) line C) (scancode_iteration E) (monitor_ok E m n)"
proof -
  let ?T = "typed E m (Suc (Suc n)) line C"
  have less: "?T s \<Longrightarrow> monitor_ok E m n s" for s by (auto simp: typed_def intro: monitor_ok_less)
  have "keeps pan ?T (act (\<lambda>s. bind_run (pop_scancode (mo_interrupts s)) (\<lambda>(r, st). Ret (r, s\<lparr>mo_interrupts := st\<rparr>))))"
    by (rule yields_act) (use pop_typed in fastforce)
  moreover have "keeps pan ?T (act (\<lambda>s. case feed sc (mo_decoder s) of (e, d) \<Rightarrow> Ret (e, s\<lparr>mo_decoder := d\<rparr>)))" for sc
    by (rule yields_act) (auto simp: typed_def split: prod.split)
  then have "yields pan ?T (bind_mon (act (\<lambda>s. case feed sc (mo_decoder s) of (e, d) \<Rightarrow> Ret (e, s\<lparr>mo_decoder := d\<rparr>))) (\<lambda>e.
      then_mon (case e of None \<Rightarrow> ret_mon () | Some event \<Rightarrow> on_event E sc event) (ret_mon True))) (monitor_ok E m n)" for sc
    by (rule yields_bind[OF _ iteration_safe[OF assms] less])
  moreover have "yields pan ?T (ret_mon False) (monitor_ok E m n)"
    by (rule typed_skips)
  ultimately show ?thesis
    unfolding scancode_iteration_def
    by (intro yields_bind[where Q = ?T]) (auto intro: less split: option.split)
qed

lemma serial_iteration_safe:
  assumes "env_ok E" "line_as_str line = Ret t" "\<forall>p. line_panic E m C t = Some p \<longrightarrow> pan p"
  shows "yields pan (typed E m (Suc (Suc n)) line C) (serial_iteration E polled) (monitor_ok E m n)"
proof (cases polled)
  case None
  show ?thesis
    unfolding serial_iteration_def None option.case by (rule typed_skips)
next
  case (Some byte)
  show ?thesis unfolding serial_iteration_def Some option.case by (rule iteration_safe[OF assms])
qed

lemma keeps_maybe_run: "env_ok E \<Longrightarrow> keeps pan (monitor_ok E m n) (maybe_run E now)"
  unfolding maybe_run_def by (intro keeps_rules keeps_step_with_label yields_change) simp_all

lemma keeps_loop_tail: "env_ok E \<Longrightarrow> keeps pan (monitor_ok E m n) (loop_tail E)"
  unfolding loop_tail_def by (intro keeps_rules keeps_maybe_run keeps_leave)

lemma keeps_start_loop: "keeps pan (monitor_ok E m n) start_loop"
proof -
  have "keeps pan (monitor_ok E m n) (change (\<lambda>s. s\<lparr>mo_decoder := d, mo_deadline := t, mo_decoded_events := 0, mo_line := line_new,
      mo_history := history_new, mo_rendered_len := k, mo_overwrite_mode := b, mo_auto := a\<rparr>))" for d t k b a
    by (rule yields_change) (auto simp: monitor_ok_def line_new_ok history_new_ok)
  then show ?thesis unfolding start_loop_def by (intro keeps_rules)
qed

lemma keeps_resume: "keeps pan (monitor_ok E m n) resume_monitor_after_usermode_exit"
  unfolding resume_monitor_after_usermode_exit_def
proof (rule yields_reads_bind)
  fix s0
  assume s0: "monitor_ok E m n s0"
  show "keeps pan (monitor_ok E m n) (case mo_monitor_context s0 of
        None \<Rightarrow> exit_qemu Failed
      | Some saved_context \<Rightarrow>
          then_mon (console_println ''returned from ring3 via int 0x81; resuming monitor'')
          (bind_mon (act (\<lambda>s. case take_last_fast_syscall_report (mo_usermode s) of (r, um) \<Rightarrow> Ret (r, s\<lparr>mo_usermode := um\<rparr>))) (\<lambda>r.
          then_mon (case r of
              None \<Rightarrow> ret_mon ()
            | Some report \<Rightarrow>
                if passed report then console_println (report_line report ''ok'')
                else then_mon (console_println (report_line report ''unexpected''))
                  (console_println (''fast-syscall expected: '' @ expected_summary report)))
          (then_mon (change (\<lambda>s. s\<lparr>mo_interrupts := device [InterruptsEnable] (mo_interrupts s), mo_context := saved_context\<rparr>))
            start_loop))))"
    by (intro keeps_rules keeps_start_loop yields_change yields_act)
      (use s0 in \<open>auto simp: monitor_ok_def take_last_fast_syscall_report_def device_def pit_ok_def\<close>)
qed

section \<open>The machine\<close>

text \<open>A step of the machine: it ends in a state with the invariant, or panics where that is allowed.\<close>

definition steps_to :: "(panic \<Rightarrow> bool) \<Rightarrow> 'm machine_state run \<Rightarrow> ('m monitor \<Rightarrow> bool) \<Rightarrow> bool" where
  "steps_to pan r Q \<longleftrightarrow> (case r of Ret (ph, s) \<Rightarrow> Q s | Panic p \<Rightarrow> pan p)"

lemma run_mon_safe:
  assumes "yields pan P m Q" "P s"
  shows "steps_to pan (run_mon f m s) Q"
  using yieldsD[OF assms] by (auto simp: steps_to_def run_mon_def next_phase_def split: flow.split)

lemma interrupt_safe:
  assumes "monitor_ok E m n s"
    and "h (mo_interrupts s) = Ret st" "monitor_ok E m k (s\<lparr>mo_interrupts := st\<rparr>)" "k \<le> n"
  shows "steps_to pan (interrupt h (ph, s)) (monitor_ok E m k)"
  using assms by (cases ph) (auto simp: steps_to_def interrupt_def intro: monitor_ok_less)

lemma keyboard_interrupt_safe:
  assumes "monitor_ok E m (Suc n) s"
  shows "\<exists>st. keyboard_interrupt_handler scancode (mo_interrupts s) = Ret st \<and> monitor_ok E m n (s\<lparr>mo_interrupts := st\<rparr>)"
proof -
  let ?b = "is_scancodes (mo_interrupts s)"
  have room: "unat (sb_dropped ?b) + Suc n < 2 ^ 64" using assms by (simp add: monitor_ok_def)
  then have max: "sb_dropped ?b \<noteq> - 1" using unat_max_word[where 'a = 64] by auto
  obtain b where "scancode_push scancode ?b = Ret b" "scancode_inv b" "unat (sb_dropped b) \<le> unat (sb_dropped ?b) + 1"
    using scancode_push_account[OF monitor_ok_parts(6)[OF assms] max] by metis
  with assms show ?thesis
    by (auto simp: keyboard_interrupt_handler_def monitor_ok_def device_def pit_ok_def)
qed

lemma timer_interrupt_safe: "monitor_ok E m n s \<Longrightarrow> monitor_ok E m n (s\<lparr>mo_interrupts := timer_interrupt_handler (mo_interrupts s)\<rparr>)"
  by (auto simp: timer_interrupt_handler_def monitor_ok_def device_def pit_ok_def)

lemma user_exit_safe:
  assumes "monitor_ok E m n s"
  shows "steps_to pan (user_exit rs c (ph, s)) (monitor_ok E m n)"
proof -
  obtain out um where um: "handle_exit_interrupt_from_registers rs (mo_usermode s) = (out, um)"
    by (cases "handle_exit_interrupt_from_registers rs (mo_usermode s)")
  then have "um_context um = um_context (mo_usermode s)"
    by (auto simp: handle_exit_interrupt_from_registers_def Let_def split: if_splits option.splits)
  then have "monitor_ok E m n (s\<lparr>mo_usermode := um\<rparr>)" "monitor_ok E m n (s\<lparr>mo_usermode := um, mo_cpu := c\<rparr>)"
    using assms by (auto simp: monitor_ok_def)
  moreover from run_mon_safe[OF keeps_resume this(2)]
  have "steps_to pan (run_mon (\<lambda>_. ScancodeLoop) resume_monitor_after_usermode_exit (s\<lparr>mo_usermode := um, mo_cpu := c\<rparr>)) (monitor_ok E m n)" .
  ultimately show ?thesis
    unfolding user_exit_def using um assms by (cases out) (simp_all add: steps_to_def)
qed

lemma monitor_step_safe:
  assumes "env_ok E" "monitor_ok E m (Suc (Suc n)) s"
  shows "steps_to (line_fails E s) (monitor_step E polled (ph, s)) (monitor_ok E m n)"
proof -
  obtain l r where v: "line_view (mo_line s) = (l, r)" by (cases "line_view (mo_line s)")
  have t: "line_as_str (mo_line s) = Ret (l @ r)" by (rule line_strings(1)[OF monitor_ok_parts(1)[OF assms(2)] v])
  have "mm_mapper (mo_machine s) = m" using assms(2) by (simp add: monitor_ok_def)
  then have nr: "\<forall>p. line_panic E m (mo_context s) (l @ r) = Some p \<longrightarrow> line_fails E s p" using t by (auto simp: line_fails_def)
  let ?T = "typed E m (Suc (Suc n)) (mo_line s) (mo_context s)"
  have s: "?T s" using assms(2) by (simp add: typed_def)
  have k: "monitor_ok E m n s" using assms(2) by (rule monitor_ok_less) simp
  note serial = serial_iteration_safe[where n = n, OF assms(1) t nr]
  have fin: "yields (line_fails E s) ?T (then_mon (serial_iteration E None) (loop_tail E)) (monitor_ok E m n)"
    by (rule yields_bind[OF serial keeps_loop_tail[OF assms(1)]])
  show ?thesis
  proof (cases ph)
    case ScancodeLoop
    then show ?thesis
      using run_mon_safe[OF scancode_iteration_safe[OF assms(1) t nr] s] by (simp add: monitor_step_def)
  next
    case SerialLoop
    then show ?thesis
      using run_mon_safe[OF serial s] run_mon_safe[OF fin s] by (cases polled) (simp_all add: monitor_step_def)
  qed (simp_all add: monitor_step_def steps_to_def k)
qed

lemma machine_step_safe:
  assumes "env_ok E" "monitor_ok E m (Suc (Suc n)) s"
  shows "steps_to (line_fails E s) (machine_step E e (ph, s)) (monitor_ok E m n)"
proof -
  have less: "monitor_ok E m n s" "monitor_ok E m (Suc n) s" using assms(2) by (auto intro: monitor_ok_less)
  show ?thesis
  proof (cases e)
    case TimerEvent
    with interrupt_safe[where h = "\<lambda>i. Ret (timer_interrupt_handler i)", OF less(1) refl timer_interrupt_safe[OF less(1)]] show ?thesis by simp
  next
    case (KeyboardEvent sc)
    obtain st where "keyboard_interrupt_handler sc (mo_interrupts s) = Ret st" "monitor_ok E m n (s\<lparr>mo_interrupts := st\<rparr>)"
      using keyboard_interrupt_safe[OF less(2)] by blast
    from interrupt_safe[where h = "keyboard_interrupt_handler sc", OF less(1) this] show ?thesis by (simp add: KeyboardEvent)
  next
    case (StepEvent polled)
    with monitor_step_safe[OF assms] show ?thesis by simp
  next
    case (UserExitEvent rs c)
    with user_exit_safe[OF less(1)] show ?thesis by simp
  qed
qed

text \<open>A run ends in a state with the invariant, or panics in a step that finds a line that panics this way.\<close>

lemma machine_run_safe:
  assumes "env_ok E" "monitor_ok E m (2 * length es) s"
  shows "case machine_run E es (ph, s) of
      Ret (ph', s') \<Rightarrow> monitor_ok E m 0 s'
    | Panic p \<Rightarrow> \<exists>es1 e es2 ph1 s1. es = es1 @ e # es2 \<and> machine_run E es1 (ph, s) = Ret (ph1, s1) \<and>
        machine_step E e (ph1, s1) = Panic p \<and> line_fails E s1 p"
  using assms(2)
proof (induction es arbitrary: ph s)
  case (Cons e es)
  have step: "steps_to (line_fails E s) (machine_step E e (ph, s)) (monitor_ok E m (2 * length es))"
    using machine_step_safe[OF assms(1), of m "2 * length es" s e ph] Cons.prems by simp
  show ?case
  proof (cases "machine_step E e (ph, s)")
    case (Panic p)
    with step have "line_fails E s p" by (simp add: steps_to_def)
    then show ?thesis using Panic by (auto intro!: exI[of _ "[]"])
  next
    case (Ret st)
    obtain ph1 s1 where st: "st = (ph1, s1)" by (cases st)
    with Ret step have s1: "monitor_ok E m (2 * length es) s1" by (simp add: steps_to_def)
    show ?thesis
    proof (cases "machine_run E es (ph1, s1)")
      case (Ret st2)
      then show ?thesis using Cons.IH[OF s1, of ph1] \<open>machine_step E e (ph, s) = Ret st\<close> st by simp
    next
      case (Panic p)
      then obtain es1 e' es2 ph2 s2 where "es = es1 @ e' # es2" "machine_run E es1 (ph1, s1) = Ret (ph2, s2)"
        "machine_step E e' (ph2, s2) = Panic p" "line_fails E s2 p"
        using Cons.IH[OF s1, of ph1] by auto
      then have "\<exists>es1 e1 es2 ph1 s1. e # es = es1 @ e1 # es2 \<and> machine_run E es1 (ph, s) = Ret (ph1, s1) \<and>
          machine_step E e1 (ph1, s1) = Panic p \<and> line_fails E s1 p"
        using Ret st by (intro exI[of _ "e # es1"] exI[of _ e'] exI[of _ es2] exI[of _ ph2] exI[of _ s2]) simp
      with Panic Ret st show ?thesis by simp
    qed
  qed
qed simp

section \<open>Properties\<close>

text \<open>
  C14. Which command lines end the machine, and how. In a state with the invariant of the monitor a command line does
  not return exactly if it is one of these: \<open>fault\<close> with an address that is misaligned (a checked build
  panics), not canonical, or not mapped (a page fault at that address); \<open>vm\<close> with an address that is not canonical;
  \<open>heap\<close> while the heap has not been set up. In all of them a handler of the kernel ends the machine with \<open>Failed\<close>, except
  for \<open>fault\<close> with an aligned address that is not canonical: that is an exception without a handler.
\<close>

theorem command_panics_exactly:
  assumes "env_ok E" "monitor_ok E m (Suc n) s"
  shows "(execute_command E (mo_context s) line s = Panic p \<longleftrightarrow> line_panic E m (mo_context s) line = Some p) \<and>
    (line_panic E m (mo_context s) line = Some p \<longrightarrow> (fatal_exit p \<noteq> Some Failed \<longleftrightarrow>
      (\<exists>parts a. split_whitespace line = ''fault'' # parts \<and> optional_arg 0xDEADBEEF parts = Inr a \<and> a AND 7 = 0 \<and> \<not> canonical_addr a)))"
proof
  have C: "context_ok E (mo_context s)" "mm_mapper (mo_machine s) = m" using assms(2) by (simp_all add: monitor_ok_def)
  show "execute_command E (mo_context s) line s = Panic p \<longleftrightarrow> line_panic E m (mo_context s) line = Some p"
  proof
    assume "execute_command E (mo_context s) line s = Panic p"
    with yieldsD[OF execute_command_safe[where line = line and pan = "\<lambda>q. line_panic E m (mo_context s) line = Some q", OF assms(1) C(1)] assms(2)]
    show "line_panic E m (mo_context s) line = Some p" by simp
  qed (use line_panics[OF assms(1) C(1)] C(2) in simp)
  show "line_panic E m (mo_context s) line = Some p \<longrightarrow> (fatal_exit p \<noteq> Some Failed \<longleftrightarrow>
      (\<exists>parts a. split_whitespace line = ''fault'' # parts \<and> optional_arg 0xDEADBEEF parts = Inr a \<and> a AND 7 = 0 \<and> \<not> canonical_addr a))"
    by (auto simp: line_panic_def read_panic_def fatal_exit_def canonical_addr_def simp del: upt_rec_numeral
        split: list.splits if_splits sum.splits option.splits)
qed

text \<open>An environment and a state for concrete runs.\<close>

definition demo_env :: "(u64 \<Rightarrow> u64 option) monitor_env" where
  "demo_env = \<lparr>me_x86_64 = x86_64_functions, me_mapper = page_map_functions, me_cr3 = 0x1000, me_tables = demo_tables,
     me_heap = Some (HEAP_START, HEAP_SIZE), me_selectors = demo_selectors, me_fast_status = DEFAULT_FAST_SYSCALL_STATUS,
     me_callee = demo_callee, me_tss_rsp0 = 0x500000, me_syscall_entry = 0x200000, me_stack_probe = 0x7000,
     me_code_probe = 0x9000\<rparr>"

definition demo_context :: MonitorContext where
  "demo_context = \<lparr>mc_memory_regions = demo_regions, mc_memory_summary = summarize_memory demo_regions,
     mc_physical_memory_offset = Some 0x40000000\<rparr>"

definition demo_monitor :: "(u64 \<Rightarrow> u64 option) monitor" where
  "demo_monitor = \<lparr>mo_interrupts = interrupts_init interrupt_statics, mo_kernel_summary = Some (summarize_memory demo_regions),
     mo_monitor_context = Some demo_context, mo_tasks = demo_table, mo_usermode = usermode_statics,
     mo_machine = \<lparr>mm_mapper = (\<lambda>_. None), mm_bytes = (\<lambda>_. 0)\<rparr>, mo_cpu = demo_cpu, mo_console = [],
     mo_context = demo_context, mo_decoder = decoder_new, mo_deadline = 800, mo_decoded_events = 0, mo_line = line_new,
     mo_history = history_new, mo_rendered_len = 8, mo_overwrite_mode = False,
     mo_auto = auto_new 0\<rparr>"

lemma demo_direct_map: "direct_map demo_tables 0x1000 0x40000000"
proof -
  have "bit (0x2003 :: u64) 0" "bit (0x3003 :: u64) 0" "bit (0x600083 :: u64) 7" "\<not> bit (0x3003 :: u64) 7" by code_simp+
  then show ?thesis
    by (simp add: direct_map_def demo_tables_def Let_def canonical_addr_def address_window_def)
qed

lemma demo_env_ok: "env_ok demo_env"
  by (simp add: env_ok_def demo_env_def x86_64.x86_64_documented_axioms demo_callee_def canonical_addr_def)

lemma demo_monitor_ok: "n < 2 ^ 63 \<Longrightarrow> monitor_ok demo_env (\<lambda>_. None) n demo_monitor"
proof -
  assume n: "n < 2 ^ 63"
  have "pit_ok (interrupts_init interrupt_statics)" "is_scancodes (interrupts_init interrupt_statics) = scancode_buffer_new"
    using demo_services_pit by (simp_all add: demo_services_def interrupts_init_def interrupt_statics_def set_pit_hz_def device_def
        split: prod.split)
  moreover have "wf_table demo_table" by (rule reachable_wf[OF demo_table_reachable])
  ultimately show ?thesis
    using n scancode_buffer_new_inv demo_direct_map
    by (simp add: monitor_ok_def demo_monitor_def context_ok_def demo_context_def demo_env_def line_new_ok history_new_ok
        usermode_statics_def scancode_buffer_new_def demo_table_def)
qed

theorem command_panics_exactly_witness:
  "execute_command demo_env (mo_context demo_monitor) ''fault 0x8000000000000000'' demo_monitor = Panic UnhandledException \<and>
   fatal_exit UnhandledException \<noteq> Some Failed \<and>
   execute_command demo_env (mo_context demo_monitor) ''fault'' demo_monitor = Panic UnsafePrecondition"
proof -
  have words: "split_whitespace ''fault 0x8000000000000000'' = [''fault'', ''0x8000000000000000'']" "split_whitespace ''fault'' = [''fault'']"
    "to_digit 16 CHR ''8'' = Some 8" "to_digit 16 CHR ''0'' = Some 0" by code_simp+
  then have "parse_u64 ''0x8000000000000000'' = Some 0x8000000000000000"
    by (simp add: parse_u64_bounded bounded_def numeral_value_def Let_def)
  with words have lines: "line_panic demo_env (\<lambda>_. None) (mo_context demo_monitor) ''fault 0x8000000000000000'' = Some UnhandledException"
    "line_panic demo_env (\<lambda>_. None) (mo_context demo_monitor) ''fault'' = Some UnsafePrecondition"
    by (simp_all add: line_panic_def optional_arg_def read_panic_def canonical_addr_def)
  have ok: "monitor_ok demo_env (\<lambda>_. None) (Suc 0) demo_monitor" by (rule demo_monitor_ok) simp
  note exact = command_panics_exactly[OF demo_env_ok ok]
  show ?thesis
    using exact[of "''fault 0x8000000000000000''" UnhandledException] exact[of "''fault''" UnsafePrecondition] lines
    by (simp add: fatal_exit_def)
qed

end
