(* ===== verification/Monitor_Typing.thy ===== *)
theory Monitor_Typing
  imports Monitor_Safety
begin

text \<open>
  What the user sees and what typing does: the redrawn line on the screen, and a line typed on the serial
  port from its first byte to the command it runs.
\<close>

section \<open>What the redrawing prints\<close>

definition redraw_events :: "string \<Rightarrow> string \<Rightarrow> nat \<Rightarrow> console_event list" where
  "redraw_events text prefix pad =
     Out (CARRIAGE_RETURN @ MONITOR_PROMPT @ text) # replicate pad (Out [CHR 0x20]) @
     [Out (CARRIAGE_RETURN @ MONITOR_PROMPT @ prefix)]"

lemmas mon_run = mon_simps stay_def

lemma redraw_run:
  assumes "line_as_str (mo_line s) = Ret text" "as_prefix_str (mo_line s) = Ret prefix"
  shows "redraw_prompt_with_line s = Ret (Done (), s\<lparr>
     mo_console := mo_console s @ redraw_events text prefix (mo_rendered_len s - (length MONITOR_PROMPT + il_len (mo_line s))),
     mo_rendered_len := length MONITOR_PROMPT + il_len (mo_line s)\<rparr>)"
  using assms by (simp add: redraw_prompt_with_line_def mon_run redraw_events_def Let_def)

section \<open>What the screen shows\<close>

text \<open>The texts the monitor prints stay on their row as long as they fit.\<close>

definition plain :: "string \<Rightarrow> bool" where
  "plain t \<longleftrightarrow> list_all (\<lambda>c. 0x20 \<le> (of_char c :: nat) \<and> is_ascii c) t"

definition put_text :: "string \<Rightarrow> nat \<Rightarrow> (nat \<Rightarrow> char option) \<Rightarrow> nat \<Rightarrow> char option" where
  "put_text t k row c = (if k \<le> c \<and> c < k + length t then Some (t ! (c - k)) else row c)"

lemma put_text_Nil [simp]: "put_text [] k row = row"
  by (auto simp: fun_eq_iff put_text_def)

lemma plain_char:
  "0x20 \<le> (of_char c :: nat) \<Longrightarrow> is_ascii c \<Longrightarrow> screen_char c s = screen_put c s"
  by (auto simp: screen_char_def)

lemma screen_text:
  assumes "plain t" "sc_column s + length t \<le> sc_columns s"
  shows "fold screen_char t s = s\<lparr>sc_cells := (sc_cells s)(sc_row s := put_text t (sc_column s) (sc_cells s (sc_row s))),
     sc_column := sc_column s + length t\<rparr>"
  using assms
proof (induction t arbitrary: s)
  case Nil
  then show ?case by simp
next
  case (Cons c t)
  define s1 where "s1 = s\<lparr>sc_cells := (sc_cells s)(sc_row s := (sc_cells s (sc_row s))(sc_column s := Some c)),
      sc_column := sc_column s + 1\<rparr>"
  have "screen_char c s = s1"
    using Cons.prems by (simp add: s1_def plain_def plain_char screen_put_def set_cell_def)
  moreover have "put_text t (Suc (sc_column s)) ((sc_cells s (sc_row s))(sc_column s := Some c)) =
      put_text (c # t) (sc_column s) (sc_cells s (sc_row s))"
    by (auto simp: put_text_def fun_eq_iff nth_Cons' Suc_le_eq)
  moreover have "fold screen_char t s1 = s1\<lparr>sc_cells := (sc_cells s1)(sc_row s1 := put_text t (sc_column s1) (sc_cells s1 (sc_row s1))),
      sc_column := sc_column s1 + length t\<rparr>"
    by (rule Cons.IH) (use Cons.prems in \<open>simp_all add: plain_def s1_def\<close>)
  ultimately show ?case by (simp add: s1_def fun_upd_def cong: if_cong)
qed

lemma screen_line_text:
  assumes "plain t" "length t \<le> sc_columns s"
  shows "fold screen_char (CARRIAGE_RETURN @ t) s = s\<lparr>sc_cells := (sc_cells s)(sc_row s := put_text t 0 (sc_cells s (sc_row s))),
     sc_column := length t\<rparr>"
  using screen_text[OF assms(1), of "s\<lparr>sc_column := 0\<rparr>"] assms(2)
  by (simp add: CARRIAGE_RETURN_def screen_char_def)

lemma screen_spaces:
  "sc_column s + k \<le> sc_columns s \<Longrightarrow>
   screen_replay (replicate k (Out [CHR 0x20]) @ es) s = screen_replay es (fold screen_char (replicate k CHR 0x20) s)"
  by (induction k arbitrary: s) (simp_all add: screen_char_def screen_put_def set_cell_def)

lemma plain_append [simp]: "plain (a @ b) \<longleftrightarrow> plain a \<and> plain b"
  by (simp add: plain_def)

lemma plain_prompt [simp]: "plain MONITOR_PROMPT"
  by (simp add: plain_def MONITOR_PROMPT_def is_ascii_def)

lemma plain_spaces [simp]: "plain (replicate k CHR 0x20)"
  by (simp add: plain_def list_all_iff is_ascii_def)

lemma put_text_over: "put_text u k (put_text t k row) = (if length t \<le> length u then put_text u k row
   else put_text (u @ drop (length u) t) k row)"
  by (auto simp: put_text_def fun_eq_iff nth_append)

lemma put_text_append: "put_text u (k + length t) (put_text t k row) = put_text (t @ u) k row"
  by (auto simp: put_text_def fun_eq_iff nth_append)

lemma put_text_padded:
  "c < length t \<Longrightarrow> put_text (t @ u) 0 row c = Some (t ! c)"
  "length t \<le> c \<Longrightarrow> put_text (t @ replicate k x) 0 row c = (if c < length t + k then Some x else row c)"
  by (auto simp: put_text_def nth_append)

lemma redraw_screen:
  assumes "plain (l @ r)" "length (MONITOR_PROMPT @ l @ r) + pad \<le> sc_columns scr"
  shows "screen_replay (redraw_events (l @ r) l pad) scr =
    scr\<lparr>sc_cells := (sc_cells scr)(sc_row scr :=
          put_text (MONITOR_PROMPT @ l @ r @ replicate pad CHR 0x20) 0 (sc_cells scr (sc_row scr))),
        sc_column := length (MONITOR_PROMPT @ l)\<rparr>"
proof -
  let ?t = "MONITOR_PROMPT @ l @ r" and ?p = "MONITOR_PROMPT @ l" and ?row = "sc_cells scr (sc_row scr)"
  let ?sp = "replicate pad CHR 0x20"
  define s1 where "s1 = scr\<lparr>sc_cells := (sc_cells scr)(sc_row scr := put_text ?t 0 ?row), sc_column := length ?t\<rparr>"
  define s2 where "s2 = scr\<lparr>sc_cells := (sc_cells scr)(sc_row scr := put_text (?t @ ?sp) 0 ?row), sc_column := length (?t @ ?sp)\<rparr>"
  have 1: "fold screen_char (CARRIAGE_RETURN @ ?t) scr = s1"
    unfolding s1_def by (rule screen_line_text) (use assms in simp_all)
  have "fold screen_char ?sp s1 = s1\<lparr>sc_cells := (sc_cells s1)(sc_row s1 := put_text ?sp (sc_column s1) (sc_cells s1 (sc_row s1))),
      sc_column := sc_column s1 + length ?sp\<rparr>"
    by (rule screen_text) (use assms in \<open>simp_all add: s1_def\<close>)
  also have "\<dots> = s2"
    using put_text_append[of ?sp 0 ?t ?row] by (simp add: s1_def s2_def)
  finally have 2: "fold screen_char ?sp s1 = s2" .
  have "fold screen_char (CARRIAGE_RETURN @ ?p) s2 = s2\<lparr>sc_cells := (sc_cells s2)(sc_row s2 := put_text ?p 0 (sc_cells s2 (sc_row s2))),
      sc_column := length ?p\<rparr>"
    by (rule screen_line_text) (use assms in \<open>simp_all add: s2_def\<close>)
  also have "\<dots> = scr\<lparr>sc_cells := (sc_cells scr)(sc_row scr := put_text (?t @ ?sp) 0 ?row), sc_column := length ?p\<rparr>"
    by (simp add: s2_def put_text_over)
  finally have 3: "fold screen_char (CARRIAGE_RETURN @ ?p) s2 = \<dots>" .
  have "screen_replay (redraw_events (l @ r) l pad) scr = screen_replay (replicate pad (Out [CHR 0x20]) @ [Out (CARRIAGE_RETURN @ ?p)]) s1"
    using 1 by (simp add: redraw_events_def)
  also have "\<dots> = fold screen_char (CARRIAGE_RETURN @ ?p) s2"
    using assms(2) by (subst screen_spaces) (simp_all add: 2 del: fold_append fold_replicate, simp add: s1_def)
  finally show ?thesis using 3 by simp
qed

section \<open>Editing keys\<close>

text \<open>The edit a key stands for.\<close>

fun edit_of :: "bool \<Rightarrow> KeyEvent \<Rightarrow> edit_op option" where
  "edit_of ov (Key_Char c) = Some (EditChar c ov)"
| "edit_of ov Key_Backspace = Some EditBackspace"
| "edit_of ov Key_Delete = Some EditDelete"
| "edit_of ov Key_ArrowLeft = Some EditLeft"
| "edit_of ov Key_ArrowRight = Some EditRight"
| "edit_of ov Key_Home = Some EditHome"
| "edit_of ov Key_End = Some EditEnd"
| "edit_of ov Key_WordLeft = Some EditWordLeft"
| "edit_of ov Key_WordRight = Some EditWordRight"
| "edit_of ov Key_WordDeleteLeft = Some EditDeleteWordLeft"
| "edit_of ov Key_WordDeleteRight = Some EditDeleteWordRight"
| "edit_of ov _ = None"

text \<open>The row of the cursor shows the prompt and the line, nothing after it, and the cursor where the line has it.\<close>

definition shows_line :: "Screen \<Rightarrow> 'm monitor \<Rightarrow> bool" where
  "shows_line scr s \<longleftrightarrow> (case line_view (mo_line s) of (l, r) \<Rightarrow>
     plain (l @ r) \<and> mo_rendered_len s = length (MONITOR_PROMPT @ l @ r) \<and> sc_column scr = length (MONITOR_PROMPT @ l) \<and>
     (\<forall>c < length (MONITOR_PROMPT @ l @ r). sc_cells scr (sc_row scr) c = Some ((MONITOR_PROMPT @ l @ r) ! c)) \<and>
     (\<forall>c \<ge> length (MONITOR_PROMPT @ l @ r). sc_cells scr (sc_row scr) c \<in> {None, Some CHR 0x20}))"

lemma shows_line_cong:
  "line_view (mo_line s') = line_view (mo_line s) \<Longrightarrow> mo_rendered_len s' = mo_rendered_len s \<Longrightarrow> shows_line scr s' = shows_line scr s"
  by (simp add: shows_line_def)

text \<open>The edits keep a plain line plain, grow it by one character at most, and change nothing when they report so.\<close>

lemma plain_set: "plain t \<longleftrightarrow> set t \<subseteq> {c. 0x20 \<le> (of_char c :: nat) \<and> is_ascii c}"
  by (auto simp: plain_def list_all_iff)

lemma in_set_tlD: "x \<in> set (tl t) \<Longrightarrow> x \<in> set t"
  by (cases t) simp_all

lemma edit_of_spec:
  assumes "edit_of ov ev = Some x" "spec_edit x (l, r) = (b, l', r')"
  shows "set (l' @ r') \<subseteq> set (l @ r) \<union> (case ev of Key_Char c \<Rightarrow> {c} | _ \<Rightarrow> {})"
    and "length (l' @ r') \<le> Suc (length (l @ r))" "\<not> b \<Longrightarrow> l' = l \<and> r' = r"
proof -
  have "set (l' @ r') \<subseteq> set (l @ r) \<union> (case ev of Key_Char c \<Rightarrow> {c} | _ \<Rightarrow> {}) \<and>
      length (l' @ r') \<le> Suc (length (l @ r)) \<and> (\<not> b \<longrightarrow> l' = l \<and> r' = r)"
    by (cases ev) (use assms in \<open>auto simp: Let_def split: if_splits
        dest: in_set_takeD in_set_dropD in_set_butlastD in_set_tlD\<close>)
  then show "set (l' @ r') \<subseteq> set (l @ r) \<union> (case ev of Key_Char c \<Rightarrow> {c} | _ \<Rightarrow> {})"
    "length (l' @ r') \<le> Suc (length (l @ r))" "\<not> b \<Longrightarrow> l' = l \<and> r' = r" by auto
qed

text \<open>What an editing key does to the state.\<close>

definition drawn :: "'m monitor \<Rightarrow> InputLine \<Rightarrow> CommandHistory \<Rightarrow> console_event list \<Rightarrow> 'm monitor" where
  "drawn s line h es = s\<lparr>mo_console := mo_console s @ es, mo_line := line, mo_history := h,
     mo_rendered_len := length MONITOR_PROMPT + il_len line\<rparr>"

lemma redraw_drawn:
  assumes "line_as_str line = Ret t" "as_prefix_str line = Ret p"
  shows "redraw_prompt_with_line (s\<lparr>mo_line := line, mo_history := h\<rparr>) = Ret (Done (),
     drawn s line h (redraw_events t p (mo_rendered_len s - (length MONITOR_PROMPT + il_len line))))"
  using redraw_run[of "s\<lparr>mo_line := line, mo_history := h\<rparr>" t p] assms by (simp add: drawn_def)

lemma edit_run: "f (mo_line s) = Ret (b, line) \<Longrightarrow> edit f s = Ret (Done b, s\<lparr>mo_line := line\<rparr>)"
  by (simp add: edit_def act_def)

lemma edit_redraw_run:
  assumes "f (mo_line s) = Ret (b, line)" "line_as_str line = Ret t" "as_prefix_str line = Ret p"
  defines "es \<equiv> redraw_events t p (mo_rendered_len s - (length MONITOR_PROMPT + il_len line))"
  shows "edit_and_redraw f s = Ret (Done (), if b then drawn s line (mo_history s) es else s\<lparr>mo_line := line\<rparr>)"
    and "edit_reset_redraw f s = Ret (Done (), if b then drawn s line (reset_browsing (mo_history s)) es else s\<lparr>mo_line := line\<rparr>)"
  using redraw_drawn[where s = s, OF assms(2,3)] redraw_drawn[where s = s and h = "mo_history s", OF assms(2,3)]
  by (simp_all add: es_def edit_and_redraw_def edit_reset_redraw_def edit_run[where f = f, OF assms(1)] bind_mon_def ret_mon_def
      reset_history_def change_def)

lemma handle_edit_run:
  assumes x: "edit_of (mo_overwrite_mode s) ev = Some x" "run_edit x (mo_line s) = Ret (b, line)"
    and "b \<or> (\<forall>c. ev \<noteq> Key_Char c)" and strs: "line_as_str line = Ret t" "as_prefix_str line = Ret p"
  shows "\<exists>h \<in> {mo_history s, reset_browsing (mo_history s)}. handle_key_event E code ev s = Ret (Done False,
     if b then drawn s line h (redraw_events t p (mo_rendered_len s - (length MONITOR_PROMPT + il_len line)))
     else s\<lparr>mo_line := line\<rparr>)"
proof -
  note runs = edit_redraw_run[where f = "run_edit x", OF x(2) strs]
  have stay: "m s = Ret (Done (), s') \<Longrightarrow> stay m s = Ret (Done False, s')" for m :: "(unit, 'a) mon" and s'
    by (simp add: stay_def bind_mon_def ret_mon_def)
  show ?thesis
  proof (cases "\<exists>c. ev = Key_Char c")
    case True
    then obtain c where ev: "ev = Key_Char c" "x = EditChar c (mo_overwrite_mode s)" using x(1) by auto
    then have b using assms(3) by simp
    have "handle_key_event E code ev s = stay (edit_reset_redraw (run_edit x)) s"
      using edit_run[where f = "run_edit x", OF x(2)] \<open>b\<close> unfolding ev
      by (simp add: run_edit_ops stay_def bind_mon_def reads_def edit_reset_redraw_def)
    with stay[where m = "edit_reset_redraw (run_edit x)", OF runs(2)] show ?thesis by auto
  next
    case False
    then have "handle_key_event E code ev = stay (edit_and_redraw (run_edit x)) \<or>
        handle_key_event E code ev = stay (edit_reset_redraw (run_edit x))"
      using x(1) by (cases ev) (auto simp: run_edit_ops)
    with stay[where m = "edit_and_redraw (run_edit x)", OF runs(1)] stay[where m = "edit_reset_redraw (run_edit x)", OF runs(2)] show ?thesis by auto
  qed
qed

text \<open>
  C37. What is seen is what is edited, as long as the prompt and the line fit on one row of the screen with a column to
  spare (a longer line wraps, and the redraw starts at the row the cursor is on): an editing key (a printable character that fits, Backspace, Delete,
  the arrow, Home and End keys and the word keys) leaves on the screen the prompt and exactly the line
  that the edit specification gives, nothing after it, and the cursor at its place; no other row changes.
\<close>

theorem edit_keys_show_line:
  assumes ok: "line_ok (mo_line s)" and shown: "shows_line scr s" and x: "edit_of (mo_overwrite_mode s) ev = Some x"
    and c: "\<forall>c. ev = Key_Char c \<longrightarrow> plain [c] \<and> il_len (mo_line s) < INPUT_LINE_MAX"
    and fits: "length MONITOR_PROMPT + il_len (mo_line s) < sc_columns scr"
  shows "\<exists>s' es. handle_key_event E code ev s = Ret (Done False, s') \<and> mo_console s' = mo_console s @ es \<and>
    line_view (mo_line s') = snd (spec_edit x (line_view (mo_line s))) \<and> line_ok (mo_line s') \<and>
    shows_line (screen_replay es scr) s' \<and> sc_row (screen_replay es scr) = sc_row scr \<and>
    (\<forall>row. row \<noteq> sc_row scr \<longrightarrow> sc_cells (screen_replay es scr) row = sc_cells scr row)"
proof -
  obtain l r where v: "line_view (mo_line s) = (l, r)" by (cases "line_view (mo_line s)")
  obtain b line where run: "run_edit x (mo_line s) = Ret (b, line)" "line_ok line" "spec_edit x (l, r) = (b, line_view line)"
    using line_editor.step_refines[OF ok, of x] v by auto
  obtain l' r' where v': "line_view line = (l', r')" by (cases "line_view line")
  have len: "il_len (mo_line s) = length (l @ r)" "il_len line = length (l' @ r')"
    using ok run(2) v v' by (auto simp: line_ok_def line_view_def)
  note spec = edit_of_spec[OF x run(3)[unfolded v']]
  have plain: "plain (l @ r)" and rend: "mo_rendered_len s = length (MONITOR_PROMPT @ l @ r)"
    using shown v by (simp_all add: shows_line_def)
  have "plain (l' @ r')"
    using spec(1) plain c by (auto simp: plain_set split: KeyEvent.splits)
  note strs = line_strings[OF run(2) v']
  have bc: "b \<or> (\<forall>c. ev \<noteq> Key_Char c)"
    using run(3) x c len(1) by (cases ev) (auto simp: plain_def v' split: if_splits)
  let ?pad = "length (l @ r) - length (l' @ r')"
  have pad: "mo_rendered_len s - (length MONITOR_PROMPT + il_len line) = ?pad" by (simp add: rend len)
  obtain h where h: "handle_key_event E code ev s = Ret (Done False,
     if b then drawn s line h (redraw_events (l' @ r') l' ?pad) else s\<lparr>mo_line := line\<rparr>)"
    using handle_edit_run[where E = E and code = code, OF x run(1) bc strs, unfolded pad] by blast
  show ?thesis
  proof (cases b)
    case False
    define s' where "s' = s\<lparr>mo_line := line\<rparr>"
    have "line_view (mo_line s') = (l, r)"
      using v' spec(3)[OF False] by (simp add: s'_def)
    with shown v have "shows_line scr s'"
      by (subst shows_line_cong[of _ s]) (simp_all add: s'_def)
    moreover note \<open>line_view (mo_line s') = (l, r)\<close>
    moreover have "handle_key_event E code ev s = Ret (Done False, s')" "mo_console s' = mo_console s" "line_ok (mo_line s')"
      using h False run(2) by (simp_all add: s'_def)
    ultimately show ?thesis
      using v run(3) v' spec(3)[OF False] by (intro exI[of _ s'] exI[of _ "[]"]) simp
  next
    case True
    let ?t = "MONITOR_PROMPT @ l' @ r'" and ?es = "redraw_events (l' @ r') l' ?pad"
    have scr: "screen_replay ?es scr = scr\<lparr>sc_cells := (sc_cells scr)(sc_row scr :=
          put_text (?t @ replicate ?pad CHR 0x20) 0 (sc_cells scr (sc_row scr))), sc_column := length (MONITOR_PROMPT @ l')\<rparr>"
      using redraw_screen[OF \<open>plain (l' @ r')\<close>, of ?pad scr] fits spec(2) len by simp
    have blank: "sc_cells scr (sc_row scr) c \<in> {None, Some CHR 0x20}" if "length (MONITOR_PROMPT @ l @ r) \<le> c" for c
      using shown v that by (simp add: shows_line_def)
    have "shows_line (screen_replay ?es scr) (drawn s line h ?es)"
      unfolding shows_line_def scr using \<open>plain (l' @ r')\<close> blank put_text_padded[where t = ?t]
      by (simp add: drawn_def v' len)
    with True h v v' run scr show ?thesis
      by (intro exI[of _ "drawn s line h ?es"] exI[of _ ?es]) (simp add: drawn_def)
  qed
qed

definition demo_screen :: Screen where
  "demo_screen = \<lparr>sc_rows = 24, sc_columns = 80,
     sc_cells = (\<lambda>r. if r = 0 then put_text MONITOR_PROMPT 0 (\<lambda>_. None) else (\<lambda>_. None)), sc_row = 0, sc_column = 8\<rparr>"

theorem edit_keys_show_line_witness:
  "\<exists>s' es. handle_key_event demo_env 0 (Key_Char (CHR ''h'')) demo_monitor = Ret (Done False, s') \<and>
    mo_console s' = mo_console demo_monitor @ es \<and>
    line_view (mo_line s') = (''h'', '''') \<and> line_ok (mo_line s') \<and>
    shows_line (screen_replay es demo_screen) s' \<and> sc_row (screen_replay es demo_screen) = sc_row demo_screen \<and>
    sc_cells (screen_replay es demo_screen) 1 = sc_cells demo_screen 1"
proof -
  have v: "line_view (mo_line demo_monitor) = ([], [])" "il_len (mo_line demo_monitor) = 0" "line_ok (mo_line demo_monitor)"
    by (simp_all add: demo_monitor_def line_new_ok) (simp_all add: line_new_def line_view_def)
  have 1: "shows_line demo_screen demo_monitor"
    by (simp add: shows_line_def v demo_screen_def plain_def put_text_def) (simp add: demo_monitor_def MONITOR_PROMPT_def)
  have 2: "edit_of (mo_overwrite_mode demo_monitor) (Key_Char (CHR ''h'')) = Some (EditChar (CHR ''h'') False)"
    by (simp add: demo_monitor_def)
  have 3: "\<forall>c. Key_Char (CHR ''h'') = Key_Char c \<longrightarrow> plain [c] \<and> il_len (mo_line demo_monitor) < INPUT_LINE_MAX"
    by (simp add: v plain_def is_ascii_def INPUT_LINE_MAX_def)
  have 4: "length MONITOR_PROMPT + il_len (mo_line demo_monitor) < sc_columns demo_screen"
    by (simp add: v demo_screen_def MONITOR_PROMPT_def)
  have 5: "snd (spec_edit (EditChar (CHR ''h'') False) (line_view (mo_line demo_monitor))) = (''h'', '''')"
    by (simp add: v is_ascii_def INPUT_LINE_MAX_def)
  have 6: "1 \<noteq> sc_row demo_screen" by (simp add: demo_screen_def)
  show ?thesis using edit_keys_show_line[OF v(3) 1 2 3 4, of demo_env 0] 6 unfolding 5 by blast
qed

section \<open>A line on the serial port\<close>

text \<open>Two states that differ in the line, its display and the counters of the input loop only.\<close>

definition input_only :: "'m monitor \<Rightarrow> 'm monitor \<Rightarrow> bool" where
  "input_only s s' \<longleftrightarrow> s' = s\<lparr>mo_console := mo_console s', mo_deadline := mo_deadline s', mo_decoded_events := mo_decoded_events s',
     mo_line := mo_line s', mo_history := mo_history s', mo_rendered_len := mo_rendered_len s'\<rparr>"

lemma input_only_refl [simp]: "input_only s s"
  by (simp add: input_only_def)

lemma input_only_trans:
  assumes "input_only s s1" "input_only s1 s2"
  shows "input_only s s2"
proof -
  have "s2 = s1\<lparr>mo_console := mo_console s2, mo_deadline := mo_deadline s2, mo_decoded_events := mo_decoded_events s2,
     mo_line := mo_line s2, mo_history := mo_history s2, mo_rendered_len := mo_rendered_len s2\<rparr>"
    using assms(2) by (simp add: input_only_def)
  also have "\<dots> = s\<lparr>mo_console := mo_console s2, mo_deadline := mo_deadline s2, mo_decoded_events := mo_decoded_events s2,
     mo_line := mo_line s2, mo_history := mo_history s2, mo_rendered_len := mo_rendered_len s2\<rparr>"
    by (subst assms(1)[unfolded input_only_def]) simp
  finally show ?thesis by (simp add: input_only_def)
qed

lemma input_only_keeps:
  assumes "input_only s s'"
  shows "mo_overwrite_mode s' = mo_overwrite_mode s" "mo_context s' = mo_context s" "mo_interrupts s' = mo_interrupts s"
    "mo_tasks s' = mo_tasks s" "mo_machine s' = mo_machine s" "mo_usermode s' = mo_usermode s"
  by (subst assms[unfolded input_only_def], simp)+

text \<open>The state after a text has been typed from an empty line.\<close>

definition typing :: "'m monitor \<Rightarrow> string \<Rightarrow> 'm monitor \<Rightarrow> bool" where
  "typing s t s' \<longleftrightarrow> input_only s s' \<and> line_ok (mo_line s') \<and> line_view (mo_line s') = (t, []) \<and> hist_ok (mo_history s') \<and>
     fst (hist_view (mo_history s')) = fst (hist_view (mo_history s)) \<and>
     unat (mo_decoded_events s') = unat (mo_decoded_events s) + length t"

definition printable :: "u8 \<Rightarrow> bool" where
  "printable b \<longleftrightarrow> 0x20 \<le> b \<and> b \<le> 0x7E"

lemma printable_event:
  assumes "printable b"
  shows "serial_byte_to_key_event b = Some (Key_Char (char_of (unat b)))" "is_ascii (char_of (unat b))"
proof -
  have "32 \<le> unat b" "unat b \<le> 126"
    using assms by (simp_all add: printable_def word_le_nat_alt)
  then show "serial_byte_to_key_event b = Some (Key_Char (char_of (unat b)))" "is_ascii (char_of (unat b))"
    by (auto simp: serial_byte_to_key_event_def is_ascii_def word_le_nat_alt)
qed

text \<open>What the loop body does once it has an event: the counter, the deadline, then the key.\<close>

definition counted :: "'m monitor \<Rightarrow> 'm monitor" where
  "counted s = s\<lparr>mo_decoded_events := mo_decoded_events s + 1, mo_deadline := saturating_add (mo_ticks s) INPUT_WINDOW_TICKS\<rparr>"

lemma on_event_run:
  assumes "unat (mo_decoded_events s) + 1 < 2 ^ 64"
  shows "on_event E code ev s = bind_mon (handle_key_event E code ev) (\<lambda>should_exit.
     if should_exit then leave ''Exiting monitor'' else ret_mon ()) (counted s)"
  using assms by (simp add: on_event_def counted_def bind_mon_def act_def change_def add_checked_build_def mo_ticks_def)

lemma on_event_stays:
  assumes "unat (mo_decoded_events s) + 1 < 2 ^ 64" "handle_key_event E code ev (counted s) = Ret (Done False, s')"
  shows "on_event E code ev s = Ret (Done (), s')"
  using assms(2) by (simp add: on_event_run[OF assms(1)] bind_mon_def ret_mon_def)

lemma char_key_run:
  assumes ok: "line_ok (mo_line s)" and v: "line_view (mo_line s) = (t, [])" and "hist_ok (mo_history s)"
    and "\<not> mo_overwrite_mode s" and c: "is_ascii c" and room: "length t < INPUT_LINE_MAX"
  shows "\<exists>s'. handle_key_event E code (Key_Char c) s = Ret (Done False, s') \<and> input_only s s' \<and> line_ok (mo_line s') \<and>
    line_view (mo_line s') = (t @ [c], []) \<and> hist_ok (mo_history s') \<and>
    fst (hist_view (mo_history s')) = fst (hist_view (mo_history s)) \<and> mo_decoded_events s' = mo_decoded_events s \<and>
    mo_deadline s' = mo_deadline s"
proof -
  let ?x = "EditChar c (mo_overwrite_mode s)"
  obtain line where run: "run_edit ?x (mo_line s) = Ret (True, line)" "line_ok line" "line_view line = (t @ [c], [])"
    using line_editor.step_refines[OF ok, of ?x] v c room by auto
  obtain h es where h: "h \<in> {mo_history s, reset_browsing (mo_history s)}"
    "handle_key_event E code (Key_Char c) s = Ret (Done False, drawn s line h es)"
    using handle_edit_run[where E = E and code = code and ev = "Key_Char c", OF _ run(1) _ line_strings[OF run(2,3)]] by auto
  have "hist_ok h" "fst (hist_view h) = fst (hist_view (mo_history s))"
    using h(1) assms(3) by (auto simp: hist_ok_def hist_view_def hist_texts_def reset_browsing_def)
  moreover have "input_only s (drawn s line h es)" by (simp add: input_only_def drawn_def)
  ultimately show ?thesis using h(2) run(2,3) by (intro exI[of _ "drawn s line h es"]) (simp add: drawn_def)
qed

lemma input_only_counted: "input_only s (counted s)"
  by (simp add: input_only_def counted_def)

lemma typing_step:
  assumes ty: "typing s t s1" and "\<not> mo_overwrite_mode s" "printable b" "length t < INPUT_LINE_MAX"
    and "unat (mo_decoded_events s) + length t + 1 < 2 ^ 64"
  shows "\<exists>s2. machine_step E (StepEvent (Some b)) (SerialLoop, s1) = Ret (SerialLoop, s2) \<and> typing s (t @ [char_of (unat b)]) s2"
proof -
  let ?c = "char_of (unat b) :: char"
  have n: "unat (mo_decoded_events s1) + 1 < 2 ^ 64" using ty assms(5) by (simp add: typing_def)
  have n': "unat (mo_decoded_events s1 + 1) = unat (mo_decoded_events s1) + 1"
    using n by (simp add: unat_word_ariths)
  have "\<not> mo_overwrite_mode s1" using ty assms(2) input_only_keeps(1) by (auto simp: typing_def)
  then obtain s2 where s2: "handle_key_event E b (Key_Char ?c) (counted s1) = Ret (Done False, s2)" "input_only (counted s1) s2"
    "line_ok (mo_line s2)" "line_view (mo_line s2) = (t @ [?c], [])" "hist_ok (mo_history s2)"
    "fst (hist_view (mo_history s2)) = fst (hist_view (mo_history s))" "mo_decoded_events s2 = mo_decoded_events s1 + 1"
    using char_key_run[of "counted s1" t ?c E b] ty printable_event(2)[OF assms(3)] assms(4)
    by (auto simp: typing_def counted_def)
  have "serial_iteration E (Some b) s1 = Ret (Done True, s2)"
    using on_event_stays[OF n s2(1)] by (simp add: serial_iteration_def printable_event[OF assms(3)] bind_mon_def ret_mon_def)
  then have "machine_step E (StepEvent (Some b)) (SerialLoop, s1) = Ret (SerialLoop, s2)"
    by (simp add: monitor_step_def run_mon_def next_phase_def)
  moreover have "input_only s s2"
    using ty input_only_counted s2(2) input_only_trans by (metis typing_def)
  ultimately show ?thesis using s2(3-) ty n' by (auto simp: typing_def)
qed

abbreviation serial_input :: "u8 list \<Rightarrow> monitor_event list" where
  "serial_input bytes \<equiv> map (\<lambda>b. StepEvent (Some b)) bytes"

abbreviation ascii_text :: "u8 list \<Rightarrow> string" where
  "ascii_text bytes \<equiv> map (\<lambda>b. char_of (unat b)) bytes"

lemma machine_run_append:
  "machine_run E (es @ fs) = (\<lambda>st. bind_run (machine_run E es st) (machine_run E fs))"
  by (induction es) (rule ext, simp add: bind_run_assoc)+

lemma run_mon_then_ret: "run_mon (\<lambda>_. ph) (then_mon m (ret_mon x)) s = run_mon (\<lambda>_. ph) m s"
  by (cases "m s") (auto simp: run_mon_def bind_mon_def ret_mon_def next_phase_def split: flow.split)

lemma machine_run_end: "bind_run r (machine_run E []) = r"
  by (cases r) simp_all

lemma typing_text:
  assumes "typing s [] s" "\<not> mo_overwrite_mode s" "list_all printable bytes" "length bytes \<le> INPUT_LINE_MAX"
    and "unat (mo_decoded_events s) + length bytes < 2 ^ 64"
  shows "\<exists>s'. machine_run E (serial_input bytes) (SerialLoop, s) = Ret (SerialLoop, s') \<and> typing s (ascii_text bytes) s'"
  using assms(3-)
proof (induction bytes rule: rev_induct)
  case Nil
  with assms(1) show ?case by simp
next
  case (snoc b bytes)
  then obtain s1 where "machine_run E (serial_input bytes) (SerialLoop, s) = Ret (SerialLoop, s1)" "typing s (ascii_text bytes) s1"
    by auto
  with typing_step[OF this(2) assms(2), of b E] snoc.prems show ?case
    by (auto simp: machine_run_append)
qed

text \<open>The key Enter on a line: the history takes the text, then the command runs.\<close>

definition run_line :: "'m monitor_env \<Rightarrow> MonitorContext \<Rightarrow> string \<Rightarrow> (unit, 'm) mon" where
  "run_line E C text = bind_mon (bind_mon (execute_command E C text) after_command) (\<lambda>should_exit.
     if should_exit then leave ''Exiting monitor'' else ret_mon ())"

lemma fst_push: "fst (snd (spec_history (HistPush t) (xs, b))) = fst (snd (spec_history (HistPush t) (xs, b')))"
  by simp

lemma enter_runs:
  assumes "line_ok (mo_line s)" "line_view (mo_line s) = (t, [])" "hist_ok (mo_history s)" and n: "unat (mo_decoded_events s) + 1 < 2 ^ 64"
  shows "\<exists>s'. on_event E code Key_Enter s = run_line E (mo_context s) t s' \<and> input_only s s' \<and>
    mo_deadline s' = saturating_add (mo_ticks s) INPUT_WINDOW_TICKS \<and>
    fst (hist_view (mo_history s')) = fst (snd (spec_history (HistPush t) (hist_view (mo_history s))))"
proof -
  have line: "line_as_str (mo_line s) = Ret t" using line_strings[of "mo_line s" t "[]"] assms(1,2) by simp
  obtain h where h: "push_line (mo_line s) (mo_history s) = Ret h"
    "spec_history (HistPush t) (hist_view (mo_history s)) = (None, hist_view h)"
    using push_line_refines[OF assms(3,1) line] by auto
  define s' where "s' = (counted s)\<lparr>mo_console := mo_console s @ [Out NEWLINE], mo_history := h\<rparr>"
  have "enter_line E (counted s) = bind_mon (execute_command E (mo_context s) t) after_command s'"
    using h(1) line by (simp add: enter_line_def run_entered_line_def mon_run s'_def counted_def)
  then have "on_event E code Key_Enter s = run_line E (mo_context s) t s'"
    by (simp add: on_event_run[OF n] run_line_def bind_mon_def)
  moreover have "input_only s s'" by (simp add: s'_def input_only_def counted_def)
  ultimately show ?thesis using h(2) by (auto simp: s'_def counted_def simp del: spec_history.simps)
qed

lemma enter_run:
  assumes ty: "typing s t s1" and n: "unat (mo_decoded_events s1) + 1 < 2 ^ 64"
  shows "\<exists>s'. on_event E code Key_Enter s1 = run_line E (mo_context s) t s' \<and> input_only s s' \<and>
    mo_deadline s' = saturating_add (mo_ticks s) INPUT_WINDOW_TICKS \<and>
    fst (hist_view (mo_history s')) = fst (snd (spec_history (HistPush t) (hist_view (mo_history s))))"
proof -
  obtain xs b b' where views: "hist_view (mo_history s1) = (xs, b)" "hist_view (mo_history s) = (xs, b')"
    using ty by (cases "hist_view (mo_history s1)", cases "hist_view (mo_history s)") (simp add: typing_def)
  have io: "input_only s s1" using ty by (simp add: typing_def)
  from enter_runs[OF _ _ _ n, of t E code] ty obtain s' where
    "on_event E code Key_Enter s1 = run_line E (mo_context s1) t s'" "input_only s1 s'"
    "mo_deadline s' = saturating_add (mo_ticks s1) INPUT_WINDOW_TICKS"
    "fst (hist_view (mo_history s')) = fst (snd (spec_history (HistPush t) (hist_view (mo_history s1))))" by (auto simp: typing_def)
  with input_only_trans[OF io] input_only_keeps(2,3)[OF io] fst_push[of t xs b' b] show ?thesis
    by (auto simp: views mo_ticks_def simp del: spec_history.simps)
qed

text \<open>
  A line typed on the serial port is the command that runs: printable bytes, as many as the line
  holds, and then a carriage return or a line feed.
\<close>

lemma serial_line_executed:
  assumes "line_ok (mo_line s)" "line_view (mo_line s) = ([], [])" "hist_ok (mo_history s)" "\<not> mo_overwrite_mode s"
    and bytes: "list_all printable bytes" "length bytes \<le> INPUT_LINE_MAX" and "final \<in> {0x0D, 0x0A}"
    and n: "unat (mo_decoded_events s) + length bytes + 1 < 2 ^ 64"
  shows "\<exists>s'. machine_run E (serial_input (bytes @ [final])) (SerialLoop, s) =
      run_mon (\<lambda>_. SerialLoop) (run_line E (mo_context s) (ascii_text bytes)) s' \<and> input_only s s' \<and>
    mo_deadline s' = saturating_add (mo_ticks s) INPUT_WINDOW_TICKS \<and>
    fst (hist_view (mo_history s')) = fst (snd (spec_history (HistPush (ascii_text bytes)) (hist_view (mo_history s))))"
proof -
  have "typing s [] s" using assms(1-3) by (simp add: typing_def)
  then obtain s1 where s1: "machine_run E (serial_input bytes) (SerialLoop, s) = Ret (SerialLoop, s1)" "typing s (ascii_text bytes) s1"
    using typing_text[OF _ assms(4) bytes, of E] n by auto
  have "unat (mo_decoded_events s1) + 1 < 2 ^ 64" using s1(2) n by (simp add: typing_def)
  from enter_run[OF s1(2) this, of E final] obtain s' where
    s': "on_event E final Key_Enter s1 = run_line E (mo_context s) (ascii_text bytes) s'" "input_only s s'"
    "mo_deadline s' = saturating_add (mo_ticks s) INPUT_WINDOW_TICKS"
    "fst (hist_view (mo_history s')) = fst (snd (spec_history (HistPush (ascii_text bytes)) (hist_view (mo_history s))))"
    by blast
  have "serial_byte_to_key_event final = Some Key_Enter" using assms(7) by (auto simp: serial_byte_to_key_event_def)
  then have "machine_step E (StepEvent (Some final)) (SerialLoop, s1) =
      run_mon (\<lambda>_. SerialLoop) (run_line E (mo_context s) (ascii_text bytes)) s'"
    by (simp add: monitor_step_def serial_iteration_def run_mon_then_ret) (simp add: run_mon_def s'(1))
  with s' show ?thesis
    by (intro exI[of _ s']) (simp add: machine_run_append s1(1) machine_run_end)
qed

end
