(* ===== verification/Monitor_Progress.thy ===== *)
theory Monitor_Progress
  imports Monitor_Typing
begin

text \<open>
  The monitor makes progress: no command touches the queue of scancodes, so the loop that drains it ends
  after at most as many iterations as it holds codes, and without input the monitor ends when its window
  does.
\<close>

section \<open>Nothing but the interrupt handlers and the loop touches the scancodes\<close>

definition queue_is :: "ScancodeBuffer \<Rightarrow> 'm monitor \<Rightarrow> bool" where
  "queue_is q s \<longleftrightarrow> is_scancodes (mo_interrupts s) = q"

named_theorems queue_rules \<open>code that leaves the scancode queue alone\<close>

lemma queue_act:
  assumes "\<And>s x s'. f s = Ret (x, s') \<Longrightarrow> is_scancodes (mo_interrupts s') = is_scancodes (mo_interrupts s)"
  shows "keeps (\<lambda>_. True) (queue_is q) (act f)"
  unfolding yields_def
proof (intro allI impI)
  fix s :: "'a monitor"
  assume "queue_is q s"
  then show "case act f s of Ret (r, s') \<Rightarrow> queue_is q s' | Panic p \<Rightarrow> True"
    using assms[of s] by (cases "f s") (auto simp: act_def queue_is_def)
qed

lemma queue_change:
  "(\<And>s. is_scancodes (mo_interrupts (f s)) = is_scancodes (mo_interrupts s)) \<Longrightarrow> keeps (\<lambda>_. True) (queue_is q) (change f)"
  by (rule yields_change) (simp add: queue_is_def)

lemma queue_lift [queue_rules]: "keeps (\<lambda>_. True) I (lift_run r)"
  by (cases r) (simp_all add: yields_def lift_run_def)

lemma queue_print [queue_rules]: "keeps (\<lambda>_. True) (queue_is q) (console_print t)" "keeps (\<lambda>_. True) (queue_is q) (console_println t)"
  unfolding console_println_def console_print_def by (rule queue_change, simp)+

lemma queue_tables [queue_rules]:
  "keeps (\<lambda>_. True) (queue_is q) (task_spawn k)" "keeps (\<lambda>_. True) (queue_is q) (task_step now)" "keeps (\<lambda>_. True) (queue_is q) (on_table g)"
  unfolding task_spawn_def task_step_def on_table_def
  by (rule queue_act, auto simp: bind_run_Ret_iff split: prod.splits)+

lemma queue_invoke [queue_rules]:
  "keeps (\<lambda>_. True) (queue_is q) (invoke E n a b c)" "keeps (\<lambda>_. True) (queue_is q) (user_demo E)" "keeps (\<lambda>_. True) (queue_is q) (fault_read E x)"
  unfolding invoke_def user_demo_def fault_read_def by (rule queue_act, auto simp: bind_run_Ret_iff split: prod.splits)+

lemma queue_start [queue_rules]: "keeps (\<lambda>_. True) (queue_is q) (start_demo f)"
  unfolding yields_def
proof (intro allI impI)
  fix s :: "'a monitor"
  assume "queue_is q s"
  moreover obtain r um where r: "f (mo_usermode s) (mo_machine s) (mo_cpu s) = (r, um)" by fastforce
  ultimately show "case start_demo f s of Ret (r, s') \<Rightarrow> queue_is q s' | Panic p \<Rightarrow> True"
    by (cases r) (auto simp: start_demo_def queue_is_def split: sum.split)
qed

lemma set_pit_hz_queue: "set_pit_hz hz st = (r, st') \<Longrightarrow> is_scancodes st' = is_scancodes st"
  by (auto simp: set_pit_hz_def device_def Let_def split: prod.splits)

lemma queue_maps [queue_rules]: "keeps (\<lambda>_. True) (queue_is q) (maps_loop limit i k rs)"
  by (induction rs arbitrary: i k) (auto intro!: keeps_rules queue_rules)

lemma queue_payload [queue_rules]: "keeps (\<lambda>_. True) (queue_is q) (run_task_payload E k)"
  by (cases k) (auto simp: run_task_payload_def intro!: keeps_rules queue_rules)

lemma queue_task_step [queue_rules]: "keeps (\<lambda>_. True) (queue_is q) (run_task_step_with_label_internal E label b)"
  unfolding run_task_step_with_label_internal_def by (intro keeps_rules queue_rules)

lemma queue_taskrun [queue_rules]: "keeps (\<lambda>_. True) (queue_is q) (taskrun_loop E n k)"
  by (induction n arbitrary: k) (auto simp: run_task_step_with_label_def intro!: keeps_rules queue_rules)

lemma queue_information [queue_rules]:
  "keeps (\<lambda>_. True) (queue_is q) cmd_help" "keeps (\<lambda>_. True) (queue_is q) (cmd_status C)" "keeps (\<lambda>_. True) (queue_is q) cmd_ticks"
  "keeps (\<lambda>_. True) (queue_is q) cmd_uptime" "keeps (\<lambda>_. True) (queue_is q) cmd_irq" "keeps (\<lambda>_. True) (queue_is q) (cmd_mem C)"
  "keeps (\<lambda>_. True) (queue_is q) (cmd_maps C ps)" "keeps (\<lambda>_. True) (queue_is q) (cmd_heap E)"
  unfolding cmd_help_def cmd_status_def cmd_ticks_def cmd_uptime_def cmd_irq_def cmd_mem_def cmd_maps_def show_maps_def cmd_heap_def
  by (intro keeps_rules queue_rules)+

lemma queue_timerhz [queue_rules]: "keeps (\<lambda>_. True) (queue_is q) (cmd_timerhz ps)"
  unfolding cmd_timerhz_def
  by (intro keeps_rules queue_rules queue_act) (auto dest: set_pit_hz_queue split: prod.splits)

lemma queue_memory [queue_rules]:
  "keeps (\<lambda>_. True) (queue_is q) (cmd_vm E C ps)" "keeps (\<lambda>_. True) (queue_is q) (cmd_vmmap E C ps)" "keeps (\<lambda>_. True) (queue_is q) (cmd_fault E ps)"
  unfolding cmd_vm_def cmd_vmmap_def cmd_fault_def print_vm_translation_def print_vm_walk_def translate_def
  by (intro keeps_rules queue_rules)+

lemma queue_syscalls [queue_rules]: "keeps (\<lambda>_. True) (queue_is q) (cmd_syscall E ps)" "keeps (\<lambda>_. True) (queue_is q) (cmd_sysabi E)"
  unfolding cmd_syscall_def cmd_sysabi_def by (intro keeps_rules queue_rules)+

lemma queue_task_commands [queue_rules]:
  "keeps (\<lambda>_. True) (queue_is q) cmd_tasks" "keeps (\<lambda>_. True) (queue_is q) (cmd_tasknew ps)" "keeps (\<lambda>_. True) (queue_is q) (cmd_taskstep E)"
  "keeps (\<lambda>_. True) (queue_is q) (cmd_taskrun E ps)" "keeps (\<lambda>_. True) (queue_is q) (cmd_tasksleep ps)" "keeps (\<lambda>_. True) (queue_is q) (cmd_taskwake ps)"
  "keeps (\<lambda>_. True) (queue_is q) (cmd_taskrm ps)" "keeps (\<lambda>_. True) (queue_is q) (cmd_taskprio ps)" "keeps (\<lambda>_. True) (queue_is q) (cmd_taskauto ps)"
  unfolding cmd_tasks_def task_functions cmd_tasknew_def cmd_taskstep_def cmd_taskrun_def cmd_tasksleep_def cmd_taskwake_def cmd_taskrm_def
    cmd_taskprio_def cmd_taskauto_def show_task_def taskrun_steps_def tasksleep_def taskauto_on_def run_task_step_with_label_def
  by (intro keeps_rules queue_rules queue_change queue_act; auto simp: bind_run_Ret_iff)+

lemma queue_demos [queue_rules]:
  "keeps (\<lambda>_. True) (queue_is q) (cmd_userdemo E)" "keeps (\<lambda>_. True) (queue_is q) (cmd_usermode E)" "keeps (\<lambda>_. True) (queue_is q) (cmd_usermode_syscall E)"
  "keeps (\<lambda>_. True) (queue_is q) (cmd_usermode_syscall_fail E)" "keeps (\<lambda>_. True) (queue_is q) (cmd_echo l)" "keeps (\<lambda>_. True) (queue_is q) cmd_history"
  "keeps (\<lambda>_. True) (queue_is q) cmd_clear"
  unfolding cmd_userdemo_def cmd_usermode_def cmd_usermode_syscall_def cmd_usermode_syscall_fail_def cmd_echo_def cmd_history_def
    print_oldest_first_def cmd_clear_def
  by (intro keeps_rules queue_rules queue_change; simp)+

lemma queue_command [queue_rules]: "keeps (\<lambda>_. True) (queue_is q) (execute_command E C line)"
proof -
  have "keeps (\<lambda>_. True) (queue_is q) arm" if "map_of (command_arms E C line ps) w = Some arm" for ps w arm
  proof -
    have "list_all (\<lambda>(_, arm). keeps (\<lambda>_. True) (queue_is q) arm) (command_arms E C line ps)"
      unfolding command_arms_def by (simp add: queue_rules)
    with that show ?thesis by (auto dest!: map_of_SomeD simp: list_all_iff)
  qed
  then show ?thesis unfolding execute_command_def by (intro keeps_rules queue_rules)
qed

section \<open>Keys\<close>

lemma queue_edit [queue_rules]:
  "keeps (\<lambda>_. True) (queue_is q) (edit f)" "keeps (\<lambda>_. True) (queue_is q) (browse g)" "keeps (\<lambda>_. True) (queue_is q) reset_history"
  unfolding edit_def browse_def reset_history_def by (rule queue_act queue_change, auto simp: bind_run_Ret_iff)+

lemma queue_redraw [queue_rules]: "keeps (\<lambda>_. True) (queue_is q) redraw_prompt_with_line"
  unfolding redraw_prompt_with_line_def by (intro keeps_rules queue_rules queue_change) simp

lemma queue_display [queue_rules]:
  "keeps (\<lambda>_. True) (queue_is q) complete_command" "keeps (\<lambda>_. True) (queue_is q) (edit_and_redraw f)" "keeps (\<lambda>_. True) (queue_is q) (edit_reset_redraw f)"
  "keeps (\<lambda>_. True) (queue_is q) (show_entry e)" "keeps (\<lambda>_. True) (queue_is q) toggle_overwrite"
  unfolding complete_command_def edit_and_redraw_def edit_reset_redraw_def show_entry_def toggle_overwrite_def
  by (intro keeps_rules queue_rules queue_change; simp)+

lemma queue_enter [queue_rules]: "keeps (\<lambda>_. True) (queue_is q) (enter_line E)"
  unfolding enter_line_def run_entered_line_def after_command_def
  by (intro keeps_rules queue_rules queue_change queue_act) (auto simp: bind_run_Ret_iff)

lemma queue_key [queue_rules]: "keeps (\<lambda>_. True) (queue_is q) (handle_key_event E code ev)"
  by (cases ev; simp only: handle_key_event.simps stay_def; intro keeps_rules queue_rules queue_change; simp)

lemma queue_event [queue_rules]: "keeps (\<lambda>_. True) (queue_is q) (on_event E code ev)"
  unfolding on_event_def leave_def by (intro keeps_rules queue_rules queue_change queue_act) (auto simp: bind_run_Ret_iff)

section \<open>The drain of the scancode queue\<close>

text \<open>One iteration takes one code from the queue and goes on, or finds it empty and ends the loop.\<close>

lemma then_ret_value: "then_mon m (ret_mon x) s = Ret (Done y, s') \<Longrightarrow> y = x"
  by (cases "m s") (auto simp: bind_mon_def ret_mon_def split: flow.splits)

lemma scancode_iteration_run:
  assumes inv: "scancode_inv (is_scancodes (mo_interrupts s))"
    and run: "scancode_iteration E s = Ret (r, s')"
  shows "scancode_inv (is_scancodes (mo_interrupts s'))"
    "scancode_contents (is_scancodes (mo_interrupts s')) = tl (scancode_contents (is_scancodes (mo_interrupts s)))"
    "r = Done goes \<Longrightarrow> goes \<longleftrightarrow> scancode_contents (is_scancodes (mo_interrupts s)) \<noteq> []"
proof -
  let ?q = "is_scancodes (mo_interrupts s)"
  have "scancode_inv (is_scancodes (mo_interrupts s')) \<and> scancode_contents (is_scancodes (mo_interrupts s')) = tl (scancode_contents ?q) \<and>
    (r = Done goes \<longrightarrow> (goes \<longleftrightarrow> scancode_contents ?q \<noteq> []))"
  proof (cases "scancode_contents ?q")
    case Nil
    with inv have "scancode_pop ?q = Ret (None, ?q)"
      by (simp add: scancode_pop_def scancode_contents_def)
    with run inv Nil show ?thesis
      by (auto simp: scancode_iteration_def pop_scancode_def bind_mon_def act_def ret_mon_def)
  next
    case (Cons x xs)
    then have "0 < sb_len ?q" using length_scancode_contents[of ?q] by (simp add: Cons del: length_scancode_contents)
    with Cons scancode_pop_first[OF inv] obtain q where
      q: "scancode_pop ?q = Ret (Some x, q)" "scancode_inv q" "scancode_contents q = xs" by auto
    obtain e d where d: "feed x (mo_decoder s) = (e, d)" by (cases "feed x (mo_decoder s)")
    define s1 where "s1 = s\<lparr>mo_interrupts := (mo_interrupts s)\<lparr>is_scancodes := q\<rparr>, mo_decoder := d\<rparr>"
    let ?body = "then_mon (case e of None \<Rightarrow> ret_mon () | Some event \<Rightarrow> on_event E x event) (ret_mon True)"
    have "scancode_iteration E s = ?body s1"
      using q(1) d by (simp add: scancode_iteration_def pop_scancode_def bind_mon_def act_def s1_def)
    moreover have "keeps (\<lambda>_. True) (queue_is q) ?body" by (intro keeps_rules queue_rules)
    moreover have "queue_is q s1" by (simp add: queue_is_def s1_def)
    ultimately have "queue_is q s'" using run by (auto dest: yieldsD)
    moreover have "goes" if "r = Done goes"
      using run that \<open>scancode_iteration E s = ?body s1\<close> by (auto dest: then_ret_value)
    ultimately show ?thesis using q Cons by (auto simp: queue_is_def)
  qed
  then show "scancode_inv (is_scancodes (mo_interrupts s'))"
    "scancode_contents (is_scancodes (mo_interrupts s')) = tl (scancode_contents ?q)"
    "r = Done goes \<Longrightarrow> goes \<longleftrightarrow> scancode_contents ?q \<noteq> []" by auto
qed

text \<open>The scancodes that arrive during a run, and the steps of the monitor in it.\<close>

fun scancodes_in :: "monitor_event list \<Rightarrow> u8 list" where
  "scancodes_in [] = []"
| "scancodes_in (KeyboardEvent sc # es) = sc # scancodes_in es"
| "scancodes_in (_ # es) = scancodes_in es"

fun steps_in :: "monitor_event list \<Rightarrow> nat" where
  "steps_in [] = 0"
| "steps_in (StepEvent polled # es) = Suc (steps_in es)"
| "steps_in (_ # es) = steps_in es"

abbreviation waiting :: "'m monitor \<Rightarrow> nat" where
  "waiting s \<equiv> sb_len (is_scancodes (mo_interrupts s))"

text \<open>Where the loop can be left for: to the serial port with nothing in the queue, to user mode, or for good.\<close>

definition drain_left :: "'m machine_state \<Rightarrow> bool" where
  "drain_left = (\<lambda>(ph, s). ph = SerialLoop \<and> scancode_contents (is_scancodes (mo_interrupts s)) = [] \<or>
     ph = InUserMode \<or> (\<exists>code. ph = Stopped code))"

lemma scancode_push_len: "scancode_push x b = Ret b' \<Longrightarrow> sb_len b' \<le> Suc (sb_len b)"
  by (auto simp: scancode_push_def scancode_repair_def bind_run_Ret_iff Let_def split: if_splits)

text \<open>An event leaves the loop, or the codes that wait grow by at most the one that arrives and a step takes one.\<close>

lemma drain_event:
  assumes inv: "scancode_inv (is_scancodes (mo_interrupts s))" and run: "machine_step E e (ScancodeLoop, s) = Ret (ph, s')"
  shows "drain_left (ph, s') \<or> ph = ScancodeLoop \<and> waiting s' + steps_in [e] \<le> waiting s + length (scancodes_in [e])"
proof (cases e)
  case TimerEvent
  with run show ?thesis by (auto simp: interrupt_def timer_interrupt_handler_def device_def)
next
  case (KeyboardEvent sc)
  with run show ?thesis
    by (auto simp: interrupt_def keyboard_interrupt_handler_def device_def bind_run_Ret_iff dest: scancode_push_len)
next
  case (UserExitEvent registers c)
  with run show ?thesis by (auto simp: user_exit_def)
next
  case (StepEvent polled)
  then obtain r where r: "scancode_iteration E s = Ret (r, s')" "(ph, s') = next_phase (\<lambda>goes. if goes then ScancodeLoop else SerialLoop) (r, s')"
    using run by (cases "scancode_iteration E s") (auto simp: monitor_step_def run_mon_def next_phase_def split: flow.splits)
  note step = scancode_iteration_run[OF inv r(1)]
  have len: "waiting s' = waiting s - 1" using arg_cong[OF step(2), of length] by simp
  show ?thesis
  proof (cases r)
    case (Done goes)
    have "waiting s = 0 \<longleftrightarrow> scancode_contents (is_scancodes (mo_interrupts s)) = []"
      by (metis length_0_conv length_scancode_contents)
    with Done r(2) step len StepEvent show ?thesis by (auto simp: next_phase_def drain_left_def)
  qed (use r(2) in \<open>auto simp: next_phase_def drain_left_def\<close>)
qed

lemma drain_ends:
  assumes "env_ok E"
  shows "monitor_ok E m (2 * length es) s \<Longrightarrow> waiting s + length (scancodes_in es) < steps_in es \<Longrightarrow>
    \<exists>es1 e es2 s1. es = es1 @ e # es2 \<and> machine_run E es1 (ScancodeLoop, s) = Ret (ScancodeLoop, s1) \<and>
      (case machine_step E e (ScancodeLoop, s1) of Ret st \<Rightarrow> drain_left st | Panic p \<Rightarrow> line_fails E s1 p)"
proof (induction es arbitrary: s)
  case (Cons e es)
  have safe: "steps_to (line_fails E s) (machine_step E e (ScancodeLoop, s)) (monitor_ok E m (2 * length es))"
    using machine_step_safe[OF assms, of m "2 * length es" s e ScancodeLoop] Cons.prems(1) by simp
  have inv: "scancode_inv (is_scancodes (mo_interrupts s))" using monitor_ok_parts(6)[OF Cons.prems(1)] .
  have count: "steps_in (e # es) = steps_in [e] + steps_in es" "scancodes_in (e # es) = scancodes_in [e] @ scancodes_in es"
    by (cases e; simp)+
  show ?case
  proof (cases "machine_step E e (ScancodeLoop, s)")
    case (Panic p)
    with safe show ?thesis by (intro exI[of _ "[]"] exI[of _ e] exI[of _ es] exI[of _ s]) (simp add: steps_to_def)
  next
    case (Ret st)
    obtain ph s1 where st: "st = (ph, s1)" by (cases st)
    from drain_event[OF inv Ret[unfolded st]] show ?thesis
    proof
      assume "drain_left (ph, s1)"
      with Ret st show ?thesis by (intro exI[of _ "[]"] exI[of _ e] exI[of _ es] exI[of _ s]) simp
    next
      assume goes: "ph = ScancodeLoop \<and> waiting s1 + steps_in [e] \<le> waiting s + length (scancodes_in [e])"
      moreover have "monitor_ok E m (2 * length es) s1" using safe Ret st by (simp add: steps_to_def)
      moreover have "waiting s1 + length (scancodes_in es) < steps_in es" using goes Cons.prems(2) count by simp
      ultimately obtain es1 e' es2 s2 where "es = es1 @ e' # es2" "machine_run E es1 (ScancodeLoop, s1) = Ret (ScancodeLoop, s2)"
        "case machine_step E e' (ScancodeLoop, s2) of Ret st \<Rightarrow> drain_left st | Panic p \<Rightarrow> line_fails E s2 p"
        using Cons.IH by blast
      with Ret st goes show ?thesis
        by (intro exI[of _ "e # es1"] exI[of _ e'] exI[of _ es2] exI[of _ s2]) simp
    qed
  qed
qed simp

text \<open>
  C38. The loop that drains the keyboard queue ends, also while interrupts keep coming: from any state with the invariant,
  and for any run of interrupts and steps in which the monitor takes more steps than scancodes wait in the queue
  or arrive during the run, some step of the run leaves the loop, for the serial port with the queue then empty, for user
  mode, or because the machine ends; or it does not return, and then the line in the buffer is one that fails in this
  way. (With no keyboard interrupt in between, 129 steps are enough, one for each scancode the queue can hold and one that finds it empty.)
\<close>

theorem scancode_drain_terminates:
  assumes "env_ok E" "monitor_ok E m (2 * length es) s"
    and "sb_len (is_scancodes (mo_interrupts s)) + length (scancodes_in es) < steps_in es"
  shows "\<exists>es1 e es2 s1. es = es1 @ e # es2 \<and> machine_run E es1 (ScancodeLoop, s) = Ret (ScancodeLoop, s1) \<and>
    (case machine_step E e (ScancodeLoop, s1) of
      Ret (ph, s') \<Rightarrow> ph = SerialLoop \<and> scancode_contents (is_scancodes (mo_interrupts s')) = [] \<or>
        ph = InUserMode \<or> (\<exists>code. ph = Stopped code)
    | Panic p \<Rightarrow> line_fails E s1 p)"
  using drain_ends[OF assms(1,2)] assms(3) by (fastforce simp: drain_left_def split: run.splits prod.splits)

text \<open>A key is pressed and, after the first step, released; two more steps and a tick follow.\<close>

theorem scancode_drain_terminates_witness:
  "\<exists>es1 e es2 s1. [KeyboardEvent 0x1e, StepEvent None, KeyboardEvent 0x9e, TimerEvent, StepEvent None, StepEvent None] = es1 @ e # es2 \<and>
    machine_run demo_env es1 (ScancodeLoop, demo_monitor) = Ret (ScancodeLoop, s1) \<and>
    (case machine_step demo_env e (ScancodeLoop, s1) of
      Ret (ph, s') \<Rightarrow> ph = SerialLoop \<and> scancode_contents (is_scancodes (mo_interrupts s')) = [] \<or>
        ph = InUserMode \<or> (\<exists>code. ph = Stopped code)
    | Panic p \<Rightarrow> line_fails demo_env s1 p)"
proof (rule scancode_drain_terminates[OF demo_env_ok demo_monitor_ok])
  have "is_scancodes (mo_interrupts demo_monitor) = scancode_buffer_new"
    by (simp add: demo_monitor_def interrupts_init_def interrupt_statics_def set_pit_hz_def device_def split_beta)
  then show "sb_len (is_scancodes (mo_interrupts demo_monitor)) +
      length (scancodes_in [KeyboardEvent 0x1e, StepEvent None, KeyboardEvent 0x9e, TimerEvent, StepEvent None, StepEvent None]) <
    steps_in [KeyboardEvent 0x1e, StepEvent None, KeyboardEvent 0x9e, TimerEvent, StepEvent None, StepEvent None]"
    by (simp add: scancode_buffer_new_def)
qed simp

section \<open>A monitor without input\<close>

text \<open>A timer tick wakes the loop, which finds no scancode and no serial byte.\<close>

definition idle_round :: "monitor_event list" where
  "idle_round = [TimerEvent, StepEvent None, StepEvent None]"

definition idle :: "'m monitor \<Rightarrow> bool" where
  "idle s \<longleftrightarrow> scancode_inv (is_scancodes (mo_interrupts s)) \<and> scancode_contents (is_scancodes (mo_interrupts s)) = [] \<and>
     \<not> am_enabled (mo_auto s)"

definition ticked :: "'m monitor \<Rightarrow> 'm monitor" where
  "ticked s = s\<lparr>mo_interrupts := timer_interrupt_handler (mo_interrupts s)\<rparr>"

lemma ticked_fields:
  "mo_ticks (ticked s) = mo_ticks s + 1" "mo_deadline (ticked s) = mo_deadline s" "mo_auto (ticked s) = mo_auto s"
  "is_scancodes (mo_interrupts (ticked s)) = is_scancodes (mo_interrupts s)" "mo_console (ticked s) = mo_console s"
  by (simp_all add: ticked_def timer_interrupt_handler_def mo_ticks_def device_def)

lemma idle_ticked: "idle (ticked s) = idle s"
  by (simp add: idle_def ticked_fields)

lemma idle_drain:
  assumes "idle s"
  shows "scancode_iteration E s = Ret (Done False, s)"
proof -
  have "scancode_pop (is_scancodes (mo_interrupts s)) = Ret (None, is_scancodes (mo_interrupts s))"
    using assms by (simp add: idle_def scancode_pop_def scancode_contents_def)
  then show ?thesis by (simp add: scancode_iteration_def pop_scancode_def bind_mon_def act_def ret_mon_def)
qed

definition farewell :: "'m monitor \<Rightarrow> 'm monitor" where
  "farewell s = (case keyboard_counters (mo_interrupts s) of (keyboard_irqs, dropped) \<Rightarrow>
     s\<lparr>mo_console := mo_console s @ [Out (''Input window ended: keyboard_irqs='' @ fmt_dec keyboard_irqs @ '', dropped='' @
       fmt_dec dropped @ '', decoded='' @ fmt_dec (mo_decoded_events s) @ NEWLINE)]\<rparr>)"

lemma loop_tail_idle:
  assumes "idle s"
  shows "loop_tail E s = Ret (if mo_deadline s \<le> mo_ticks s then (Exited Success, farewell s) else (Done (), s))"
  using assms by (simp add: loop_tail_def maybe_run_def leave_def exit_qemu_def mon_run idle_def farewell_def split: prod.split)

lemma idle_round_run:
  assumes "idle s"
  shows "machine_run E idle_round (AtHlt, s) = Ret (let s = ticked s in
    if mo_deadline s \<le> mo_ticks s then (Stopped Success, farewell s) else (AtHlt, s))"
proof -
  have "idle (ticked s)" using assms by (simp add: idle_ticked)
  note runs = idle_drain[OF this, of E] loop_tail_idle[OF this, of E]
  show ?thesis
    unfolding idle_round_def
    by (simp add: interrupt_def monitor_step_def run_mon_def next_phase_def runs serial_iteration_def bind_mon_def ret_mon_def
        ticked_def[symmetric] Let_def)
qed

abbreviation idle_rounds :: "nat \<Rightarrow> monitor_event list" where
  "idle_rounds k \<equiv> concat (replicate k idle_round)"

lemma idle_rounds_Suc:
  "machine_run E (idle_rounds (Suc k)) st = bind_run (machine_run E (idle_rounds k) st) (machine_run E idle_round)"
  by (simp only: replicate_Suc replicate_append_same[symmetric] concat_append machine_run_append concat.simps append_Nil2)

lemma idle_rounds_run:
  assumes "idle s" "unat (mo_ticks s) + k < unat (mo_deadline s)"
  shows "machine_run E (idle_rounds k) (AtHlt, s) = Ret (AtHlt, (ticked ^^ k) s) \<and> idle ((ticked ^^ k) s) \<and>
    unat (mo_ticks ((ticked ^^ k) s)) = unat (mo_ticks s) + k \<and> mo_deadline ((ticked ^^ k) s) = mo_deadline s"
  using assms(2)
proof (induction k)
  case 0
  with assms(1) show ?case by simp
next
  case (Suc k)
  define s1 where "s1 = (ticked ^^ k) s"
  have IH: "machine_run E (idle_rounds k) (AtHlt, s) = Ret (AtHlt, s1)" "idle s1"
    "unat (mo_ticks s1) = unat (mo_ticks s) + k" "mo_deadline s1 = mo_deadline s"
    using Suc by (simp_all add: s1_def)
  have "unat (mo_ticks s1 + 1) = unat (mo_ticks s) + Suc k"
    using IH(3) Suc.prems unat_less_2p[of "mo_deadline s"] by (simp add: unat_word_ariths)
  then have "unat (mo_ticks (ticked s1)) = unat (mo_ticks s) + Suc k" "\<not> mo_deadline (ticked s1) \<le> mo_ticks (ticked s1)"
    using IH(4) Suc.prems by (simp_all add: ticked_fields word_le_nat_alt)
  with IH idle_round_run[OF IH(2), of E] show ?case
    by (simp add: idle_rounds_Suc s1_def[symmetric] idle_ticked ticked_fields del: replicate.simps)
qed

text \<open>
  C12. A monitor without input ends on time: with an empty keyboard queue, nothing on the serial port and
  the automatic scheduler off, it stays at its \<open>hlt\<close> for every timer tick before the deadline, and at the
  tick that reaches it prints that the input window has ended and ends the machine with \<open>Success\<close>.
\<close>

theorem idle_monitor_exits:
  assumes "idle s" "mo_ticks s < mo_deadline s" and n: "n = unat (mo_deadline s) - unat (mo_ticks s)"
  shows "(\<forall>k < n. machine_run E (idle_rounds k) (AtHlt, s) = Ret (AtHlt, (ticked ^^ k) s)) \<and>
    machine_run E (idle_rounds n) (AtHlt, s) = Ret (Stopped Success, farewell ((ticked ^^ n) s))"
proof -
  have less: "unat (mo_ticks s) < unat (mo_deadline s)" using assms(2) by (simp add: word_less_nat_alt)
  then have "0 < n" and d: "unat (mo_deadline s) = unat (mo_ticks s) + n" using n by simp_all
  then obtain m where "n = Suc m" using gr0_conv_Suc by blast
  note m = this d
  define s1 where "s1 = (ticked ^^ m) s"
  have run: "machine_run E (idle_rounds m) (AtHlt, s) = Ret (AtHlt, s1)" "idle s1"
    "unat (mo_ticks s1) = unat (mo_ticks s) + m" "mo_deadline s1 = mo_deadline s"
    using idle_rounds_run[OF assms(1), of m E] m by (simp_all add: s1_def)
  have "unat (mo_ticks s1 + 1) = unat (mo_ticks s) + n"
    using run(3) m unat_less_2p[of "mo_deadline s"] by (simp add: unat_word_ariths)
  then have "mo_deadline (ticked s1) \<le> mo_ticks (ticked s1)"
    using run(4) m(2) by (simp add: ticked_fields word_le_nat_alt)
  with run idle_round_run[OF run(2), of E] have "machine_run E (idle_rounds n) (AtHlt, s) = Ret (Stopped Success, farewell (ticked s1))"
    by (simp add: m(1) idle_rounds_Suc del: replicate.simps)
  moreover have "\<forall>k < n. machine_run E (idle_rounds k) (AtHlt, s) = Ret (AtHlt, (ticked ^^ k) s)"
    using idle_rounds_run[OF assms(1)] m(2) by simp
  ultimately show ?thesis by (simp add: m(1) s1_def)
qed

theorem idle_monitor_exits_witness:
  "machine_run demo_env (idle_rounds 799) (AtHlt, demo_monitor) = Ret (AtHlt, (ticked ^^ 799) demo_monitor) \<and>
    machine_run demo_env (idle_rounds 800) (AtHlt, demo_monitor) = Ret (Stopped Success, farewell ((ticked ^^ 800) demo_monitor))"
proof -
  have "is_scancodes (mo_interrupts demo_monitor) = scancode_buffer_new" and ticks: "mo_ticks demo_monitor = 0" "mo_deadline demo_monitor = 800"
    by (simp_all add: demo_monitor_def mo_ticks_def interrupts_init_def interrupt_statics_def set_pit_hz_def device_def split_beta)
  then have "idle demo_monitor"
    by (simp add: idle_def scancode_contents_def) (simp add: scancode_buffer_new_def demo_monitor_def auto_new_def)
  from idle_monitor_exits[OF this, of 800 demo_env] show ?thesis by (simp add: ticks)
qed

end
