(* ===== verification/Boot.thy ===== *)
theory Boot
  imports Monitor_Progress
begin

text \<open>
  \<open>kernel_main\<close> of \<open>kernel/src/main.rs\<close>: the memory summary and frame allocator, the demo page, the heap
  and user memory when the boot loader has mapped the physical memory, the segments, the fast system call,
  the interrupts, the task table and the wait for the timer, up to the start of the monitor.

  The boot loader's information, the \<open>x86_64\<close> crate's descriptor table, the font and the addresses the linker chose
  are arguments, and so are two texts the crates format for debugging. The interrupts that come during the
  wait are given by iteration.
\<close>

section \<open>State and parameters\<close>

record boot_info =
  bi_memory_regions :: "MemoryRegion list"
  bi_physical_memory_offset :: "u64 option"
  bi_framebuffer :: "(u8 list \<times> FrameBufferInfo) option"
  bi_debug :: string

record 'g boot_hardware =
  bh_append :: "'g \<Rightarrow> descriptor \<Rightarrow> u16 \<times> 'g"
  bh_gdt :: 'g
  bh_tss :: u64
  bh_ring0_stack :: u64
  bh_fast :: fast_env
  bh_msrs :: fast_msrs
  bh_cpu :: cpu
  bh_debug_frames :: "u64 option list \<Rightarrow> string"
  bh_font :: font

text \<open>What boot does to the outside, in order: lines to the serial port, lines to the screen, the screen set up, segments loaded.\<close>

datatype boot_event =
    SerialLine string
  | ScreenLine string
  | ScreenInit "u8 list" FrameBufferInfo
  | SegmentLoads "segment_load list"

text \<open>A line to the screen goes through the framebuffer writer, which may panic.\<close>

type_synonym boot_output = "boot_event list \<times> FrameBufferWriter option"

fun show_event :: "font \<Rightarrow> boot_event \<Rightarrow> FrameBufferWriter option \<Rightarrow> FrameBufferWriter option run" where
  "show_event font (ScreenLine text) writer = fb_print font (text @ NEWLINE) writer"
| "show_event font (ScreenInit buffer info) writer = Ret (fb_init buffer info)"
| "show_event font (SerialLine text) writer = Ret writer"
| "show_event font (SegmentLoads loads) writer = Ret writer"

fun emit :: "font \<Rightarrow> boot_event list \<Rightarrow> boot_output \<Rightarrow> boot_output run" where
  "emit font [] out = Ret out"
| "emit font (e # es) (events, writer) =
     bind_run (show_event font e writer) (\<lambda>writer. emit font es (events @ [e], writer))"

type_synonym paging_probe = "((u64, string) result \<times> (u64 \<times> u64, string) result \<times> (unit, string) result) option"

section \<open>Memory\<close>

text \<open>The branch with the physical memory mapped: demo page, heap, user memory.\<close>

definition probe_memory ::
  "'m monitor_env \<Rightarrow> u64 \<Rightarrow> 'm machine \<Rightarrow> BootInfoFrameAllocator \<Rightarrow>
   (paging_probe \<times> 'm machine \<times> BootInfoFrameAllocator \<times> (u64 \<times> u64) option \<times> UsermodeState) run" where
  "probe_memory E offset mm fa =
     bind_run (va_new (me_x86_64 E) offset) (\<lambda>physical_memory_offset.
     bind_run (init_offset_page_table (me_x86_64 E) (me_mapper E) (me_cr3 E) physical_memory_offset) (\<lambda>m.
     bind_run (map_demo_page (me_x86_64 E) (me_mapper E) (mm\<lparr>mm_mapper := m\<rparr>) fa) (\<lambda>(paging_result, mm, fa).
     bind_run (init_heap (me_x86_64 E) (me_mapper E) (mm_mapper mm) fa None) (\<lambda>(r, m, fa, heap).
     let heap_result = (case r of Inl _ \<Rightarrow> Inl ''heap init mapping failed'' | Inr _ \<Rightarrow> Inr probe_allocations)
     in bind_run (init_memory (me_x86_64 E) (me_mapper E) (mm\<lparr>mm_mapper := m\<rparr>) fa usermode_statics)
       (\<lambda>(usermode_result, mm, fa, um).
       Ret (Some (paging_result, heap_result, usermode_result), mm, fa, heap, um))))))"

section \<open>Messages\<close>

definition memory_lines ::
  "'g boot_hardware \<Rightarrow> MemorySummary \<Rightarrow> u64 option list \<Rightarrow> nat \<Rightarrow> nat \<Rightarrow> u64 option \<Rightarrow> string list" where
  "memory_lines H summary first_frames allocated remaining offset =
     [''Memory: regions='' @ fmt_nat (ms_total_regions summary) @ '' usable_regions='' @ fmt_nat (ms_usable_regions summary) @
        '' usable_bytes='' @ fmt_dec (ms_usable_bytes summary) @ '' reserved_bytes='' @ fmt_dec (ms_reserved_bytes summary) @
        '' largest_usable='' @ fmt_dec (ms_largest_usable_region_bytes summary),
      ''Frame allocator: usable_frames='' @ fmt_dec (ms_usable_frames_4k summary) @ '' allocated='' @ fmt_nat allocated @
        '' remaining_est='' @ fmt_nat remaining @ '' first_frames='' @ bh_debug_frames H first_frames,
      ''Physical memory mapping offset = '' @ fmt_option offset]"

definition probe_lines :: "paging_probe \<Rightarrow> string list" where
  "probe_lines probe =
     (case probe of
        None \<Rightarrow> [''Paging probe skipped: no physical memory mapping'', ''Heap probe skipped: no physical memory mapping'',
          ''User mode memory init skipped: no physical memory mapping'']
      | Some (paging_result, heap_result, usermode_result) \<Rightarrow>
          [(case paging_result of Inr v \<Rightarrow> ''Paging probe: demo page mapped, value='' @ fmt_hex v
              | Inl error \<Rightarrow> ''Paging probe failed: '' @ error),
           (case heap_result of Inr (boxed_value, vector_sum) \<Rightarrow> ''Heap probe: Box='' @ fmt_hex boxed_value @ '', Vec sum='' @ fmt_dec vector_sum
              | Inl error \<Rightarrow> ''Heap probe failed: '' @ error),
           (case usermode_result of Inr _ \<Rightarrow> ''User mode memory initialized''
              | Inl error \<Rightarrow> ''User mode memory init failed: '' @ error)])"

definition screen_lines ::
  "'g boot_hardware \<Rightarrow> MemorySummary \<Rightarrow> u64 option list \<Rightarrow> nat \<Rightarrow> nat \<Rightarrow> u64 option \<Rightarrow> paging_probe \<Rightarrow> string list" where
  "screen_lines H summary first_frames allocated remaining offset probe =
     [''jingOS framebuffer console ready'',
      ''Memory: regions='' @ fmt_nat (ms_total_regions summary) @ '' usable='' @ fmt_nat (ms_usable_regions summary) @
        '' usable_bytes='' @ fmt_dec (ms_usable_bytes summary) @ '' reserved_bytes='' @ fmt_dec (ms_reserved_bytes summary),
      ''Frames: usable='' @ fmt_dec (ms_usable_frames_4k summary) @ '' allocated='' @ fmt_nat allocated @
        '' remaining~='' @ fmt_nat remaining @ '' first='' @ bh_debug_frames H first_frames,
      ''Phys mem offset = '' @ fmt_option offset] @
     (case probe of
        None \<Rightarrow> [''Paging probe skipped: no physical memory mapping'', ''Heap probe skipped: no physical memory mapping'',
          ''User mode memory init skipped: no physical memory mapping'']
      | Some (paging_result, heap_result, usermode_result) \<Rightarrow>
          [(case paging_result of Inr v \<Rightarrow> ''Paging probe ok: demo value='' @ fmt_hex v
              | Inl error \<Rightarrow> ''Paging probe failed: '' @ error),
           (case heap_result of Inr (boxed_value, vector_sum) \<Rightarrow> ''Heap probe ok: box='' @ fmt_hex boxed_value @ '', vec_sum='' @ fmt_dec vector_sum
              | Inl error \<Rightarrow> ''Heap probe failed: '' @ error),
           (case usermode_result of Inr _ \<Rightarrow> ''User mode memory initialized''
              | Inl error \<Rightarrow> ''User mode memory init failed: '' @ error)])"

section \<open>The wait for the timer\<close>

text \<open>Interrupts in the order they come: the timer, or the keyboard with a scancode.\<close>

fun deliver :: "u8 option list \<Rightarrow> InterruptState \<Rightarrow> InterruptState run" where
  "deliver [] st = Ret st"
| "deliver (None # irqs) st = deliver irqs (timer_interrupt_handler st)"
| "deliver (Some scancode # irqs) st = bind_run (keyboard_interrupt_handler scancode st) (deliver irqs)"

fun wait_for_ticks :: "u64 \<Rightarrow> nat \<Rightarrow> u8 option list list \<Rightarrow> InterruptState \<Rightarrow> (u64 option \<times> InterruptState) run" where
  "wait_for_ticks target 0 irqs st = Ret (None, st)"
| "wait_for_ticks target (Suc spins) irqs st =
     bind_run (deliver (case irqs of [] \<Rightarrow> [] | now # _ \<Rightarrow> now) st) (\<lambda>st.
     let ticks = is_ticks st
     in if target \<le> ticks then Ret (Some ticks, st) else wait_for_ticks target spins (drop 1 irqs) st)"

section \<open>The kernel's main function\<close>

definition set_monitor_context :: "MemoryRegion list \<Rightarrow> MemorySummary \<Rightarrow> u64 option \<Rightarrow> MonitorContext option" where
  "set_monitor_context memory_regions memory_summary physical_memory_offset =
     Some \<lparr>mc_memory_regions = memory_regions, mc_memory_summary = memory_summary,
       mc_physical_memory_offset = physical_memory_offset\<rparr>"

text \<open>The statics and arguments \<open>input_loop\<close> starts with; it sets its own variables.\<close>

definition first_state ::
  "boot_info \<Rightarrow> 'm machine \<Rightarrow> UsermodeState \<Rightarrow> cpu \<Rightarrow> InterruptState \<Rightarrow> TaskTable \<Rightarrow> 'm monitor" where
  "first_state info mm um c st tasks =
     (let summary = summarize_memory (bi_memory_regions info);
          saved = set_monitor_context (bi_memory_regions info) summary (bi_physical_memory_offset info)
      in \<lparr>mo_interrupts = st, mo_kernel_summary = set_kernel_memory_summary summary None, mo_monitor_context = saved,
          mo_tasks = tasks, mo_usermode = um, mo_machine = mm, mo_cpu = c, mo_console = [],
          mo_context = \<lparr>mc_memory_regions = bi_memory_regions info, mc_memory_summary = summary,
            mc_physical_memory_offset = bi_physical_memory_offset info\<rparr>,
          mo_decoder = decoder_new, mo_deadline = 0, mo_decoded_events = 0, mo_line = line_new, mo_history = history_new,
          mo_rendered_len = 0, mo_overwrite_mode = False, mo_auto = auto_new 0\<rparr>)"

record 'm booted =
  bo_env :: "'m monitor_env"
  bo_msrs :: fast_msrs
  bo_state :: "'m machine_state"
  bo_events :: "boot_event list"
  bo_writer :: "FrameBufferWriter option"

text \<open>From the segments on; the first argument holds the output so far, and the heap's range is part of the environment.\<close>

definition start_kernel ::
  "boot_output \<Rightarrow> 'm monitor_env \<Rightarrow> 'g boot_hardware \<Rightarrow> boot_info \<Rightarrow> u8 option list list \<Rightarrow> 'm machine \<Rightarrow> UsermodeState \<Rightarrow>
   'm booted run" where
  "start_kernel out E H info irqs mm um =
     bind_run (emit (bh_font H) [ScreenLine ''jingOS kernel started'', ScreenLine ''Hello from Rust kernel!''] out) (\<lambda>out.
     bind_run (tss_privilege_stack (va_add (me_x86_64 E)) (bh_ring0_stack H)) (\<lambda>rsp0.
     let selectors = snd (gdt_build (bh_append H) (bh_gdt H) (bh_tss H))
     in bind_run (emit (bh_font H) [SegmentLoads (gdt_init selectors), ScreenLine ''GDT + TSS initialized''] out) (\<lambda>out.
     bind_run (init_fast_syscall_scaffold (me_x86_64 E) (bh_fast H) selectors (bh_msrs H)) (\<lambda>(status, msrs).
     let E = E\<lparr>me_selectors := selectors, me_fast_status := status, me_tss_rsp0 := rsp0\<rparr>
     in bind_run (emit (bh_font H) [ScreenLine (''fast syscall scaffold: stage='' @ fast_syscall_stage_name (fs_stage status) @ '' cpu_support='' @
             fmt_bool (fs_cpu_support status) @ '' sce_enabled='' @ fmt_bool (fs_sce_enabled status)),
           ScreenLine ''Initializing IDT + PIC + PIT...''] out) (\<lambda>out.
     bind_run (ensure_bootstrap_task table_new) (\<lambda>tasks.
     bind_run (emit (bh_font H) [ScreenLine ''IRQ0(timer) and IRQ1(keyboard) enabled'',
           ScreenLine ''Keyboard input window started (press ESC to exit)''] out) (\<lambda>out.
     bind_run (wait_for_ticks 5 500000000 irqs (interrupts_init interrupt_statics)) (\<lambda>(seen, st).
     let s = first_state info mm um (bh_cpu H) st tasks;
         text = (case seen of Some ticks \<Rightarrow> ''Timer interrupts active, observed ticks = '' @ fmt_dec ticks
           | None \<Rightarrow> ''Timer interrupts not observed within timeout'')
     in bind_run (emit (bh_font H) [SerialLine text, ScreenLine text] out) (\<lambda>(events, writer).
        bind_run (case seen of Some ticks \<Rightarrow> run_mon (\<lambda>_. ScancodeLoop) start_loop s | None \<Rightarrow> Ret (Stopped Failed, s)) (\<lambda>state.
        Ret \<lparr>bo_env = E, bo_msrs = msrs, bo_state = state, bo_events = events, bo_writer = writer\<rparr>))))))))))"

text \<open>The lines on the serial port and, if there is a framebuffer, on the screen once memory has been set up.\<close>

definition boot_events ::
  "'g boot_hardware \<Rightarrow> boot_info \<Rightarrow> u64 option list \<Rightarrow> BootInfoFrameAllocator \<Rightarrow> nat \<Rightarrow> paging_probe \<Rightarrow> boot_event list" where
  "boot_events H info first_frames frame_allocator remaining_frames paging_probe =
     (let memory_summary = summarize_memory (bi_memory_regions info);
          physical_memory_offset = bi_physical_memory_offset info;
          allocated = allocated_frames frame_allocator;
          serial = [''jingOS kernel started: boot info = '' @ bi_debug info, ''Hello from Rust kernel!''] @
            memory_lines H memory_summary first_frames allocated remaining_frames physical_memory_offset @ probe_lines paging_probe;
          screen = (case bi_framebuffer info of
              None \<Rightarrow> []
            | Some (buffer, fb_info) \<Rightarrow> ScreenInit buffer fb_info #
                map ScreenLine (screen_lines H memory_summary first_frames allocated remaining_frames physical_memory_offset paging_probe))
      in map SerialLine serial @ screen)"

definition kernel_main ::
  "'m monitor_env \<Rightarrow> 'g boot_hardware \<Rightarrow> boot_info \<Rightarrow> u8 option list list \<Rightarrow> 'm machine \<Rightarrow> 'm booted run" where
  "kernel_main E H info irqs mm =
     (let frame_allocator = allocator_init (bi_memory_regions info);
          physical_memory_offset = bi_physical_memory_offset info
      in bind_run (allocate_frame (me_x86_64 E) frame_allocator) (\<lambda>(frame0, frame_allocator).
      bind_run (allocate_frame (me_x86_64 E) frame_allocator) (\<lambda>(frame1, frame_allocator).
      bind_run (allocate_frame (me_x86_64 E) frame_allocator) (\<lambda>(frame2, frame_allocator).
      bind_run (case physical_memory_offset of
          Some offset \<Rightarrow> probe_memory E offset mm frame_allocator
        | None \<Rightarrow> Ret (None, mm, frame_allocator, None, usermode_statics)) (\<lambda>(paging_probe, mm, frame_allocator, heap, um).
      bind_run (remaining_usable_frames_estimate (me_x86_64 E) frame_allocator) (\<lambda>remaining_frames.
      bind_run (emit (bh_font H) (boot_events H info [frame0, frame1, frame2] frame_allocator remaining_frames paging_probe) ([], None)) (\<lambda>out.
      start_kernel out (E\<lparr>me_heap := heap\<rparr>) H info irqs mm um)))))))"

section \<open>The memory functions return\<close>

context paging
begin

lemma map_page_returns:
  assumes "allocator_ready fa" "canonical_addr va"
  shows "\<exists>r mm' fa'. map_page_with_flags X M mm fa va flags = Ret (r, mm', fa') \<and> allocator_ready fa'"
proof (cases "mp_translate_addr M (mm_mapper mm) (page_of va)")
  case None
  note eval = map_page_with_flags_def va_new assms(2) page_of_start Let_def allocate_frame_pool(1)[OF assms(1)] None
  let ?fa = "fa\<lparr>fa_next := fa_next fa + 1\<rparr>"
  have ready: "allocator_ready ?fa" using assms(1) by simp
  show ?thesis
  proof (cases "pool_head (frame_pool fa)")
    case (Some frame)
    obtain r m1 k where r: "mp_map_to M (mm_mapper mm) (page_of va) frame flags ?fa = Ret (r, m1, ?fa\<lparr>fa_next := fa_next ?fa + k\<rparr>)"
      using map_to_returns[OF ready] by blast
    with Some assms(1) show ?thesis by (cases r) (simp_all add: eval)
  qed (use ready in \<open>simp add: eval\<close>)
qed (use assms in \<open>simp add: map_page_with_flags_def va_new page_of_start\<close>)

lemma map_demo_returns:
  assumes ready: "allocator_ready fa"
  shows "\<exists>r mm' fa'. map_demo_page X M mm fa = Ret (r, mm', fa') \<and> allocator_ready fa'"
proof -
  obtain r mm1 fa1 where m: "map_page_with_flags X M mm fa DEMO_PAGE_START (flag_PRESENT X OR flag_WRITABLE X) = Ret (r, mm1, fa1)"
    "allocator_ready fa1"
    using map_page_returns[OF ready demo_start_facts(1)] by blast
  show ?thesis
  proof (cases r)
    case (Inl e)
    with m show ?thesis by (simp add: map_demo_page_via)
  next
    case (Inr u)
    then obtain frame where "mapped_to M (mm_mapper mm1) DEMO_PAGE_START frame 4096"
      using map_page_ok[OF _ ready demo_start_facts(1), of mm "flag_PRESENT X OR flag_WRITABLE X" mm1 fa1] m(1)
      by (auto simp: demo_start_facts(2))
    then have p: "mapped_to M (mm_mapper mm1) DEMO_PAGE_START frame (length (to_le_bytes 8 DEMO_PAGE_VALUE))"
      by (simp add: mapped_to_def)
    note w = write_volatile_bytes_mapped[OF p] write_then_read[OF p]
    from w(1) w(2)[OF _ w(1)] m Inr show ?thesis
      by (simp add: map_demo_page_via va_new demo_start_facts page_of_start)
  qed
qed

lemma map_heap_returns:
  "allocator_ready fa \<Longrightarrow> \<exists>r m' fa'. map_heap_pages X M flags pages m fa = Ret (r, m', fa') \<and> allocator_ready fa'"
proof (induction pages arbitrary: m fa)
  case (Cons page pages)
  let ?fa = "fa\<lparr>fa_next := fa_next fa + 1\<rparr>"
  have ready: "allocator_ready ?fa" using Cons.prems by simp
  show ?case
  proof (cases "pool_head (frame_pool fa)")
    case None
    with ready show ?thesis by (simp add: allocate_frame_pool(1)[OF Cons.prems])
  next
    case (Some frame)
    obtain r m1 k where r: "mp_map_to M m page frame flags ?fa = Ret (r, m1, ?fa\<lparr>fa_next := fa_next ?fa + k\<rparr>)"
      using map_to_returns[OF ready] by blast
    have "allocator_ready (?fa\<lparr>fa_next := fa_next ?fa + k\<rparr>)" using Cons.prems by simp
    from Cons.IH[OF this, of m1] this r Some show ?thesis
      by (cases r) (simp_all add: allocate_frame_pool(1)[OF Cons.prems])
  qed
qed simp

lemma init_heap_returns:
  assumes "allocator_ready fa"
  shows "\<exists>r m' fa' heap'. init_heap X M m fa heap = Ret (r, m', fa', heap') \<and> allocator_ready fa'"
proof -
  obtain r m' fa' where "map_heap_pages X M (flag_PRESENT X OR flag_WRITABLE X) heap_pages m fa = Ret (r, m', fa')" "allocator_ready fa'"
    using map_heap_returns[OF assms] by blast
  then show ?thesis by (cases r) (simp_all add: init_heap_unfold[OF x86_64_documented_axioms])
qed

lemma init_memory_returns:
  assumes ready: "allocator_ready fa"
  shows "\<exists>r mm' fa' um'. init_memory X M mm fa um = Ret (r, mm', fa', um') \<and> allocator_ready fa'"
proof -
  let ?f = "flag_PRESENT X OR flag_WRITABLE X OR flag_USER_ACCESSIBLE X"
  obtain r1 mm1 fa1 where m1: "map_page_with_flags X M mm fa USER_CODE_START ?f = Ret (r1, mm1, fa1)" "allocator_ready fa1"
    using map_page_returns[OF ready user_pages_facts(1)] by blast
  obtain r2 mm2 fa2 where m2: "map_page_with_flags X M mm1 fa1 USER_STACK_START ?f = Ret (r2, mm2, fa2)" "allocator_ready fa2"
    using map_page_returns[OF m1(2) user_pages_facts(2)] by blast
  obtain r3 mm3 fa3 where m3: "map_page_with_flags X M mm2 fa2 (USER_STACK_START + 0x1000) ?f = Ret (r3, mm3, fa3)" "allocator_ready fa3"
    using map_page_returns[OF m2(2) user_pages_facts(3)] by blast
  show ?thesis
  proof (cases "r1 = Inr () \<and> r2 = Inr () \<and> r3 = Inr ()")
    case True
    then have ok: "map_page_with_flags X M mm fa USER_CODE_START ?f = Ret (Inr (), mm1, fa1)"
      "map_page_with_flags X M mm1 fa1 USER_STACK_START ?f = Ret (Inr (), mm2, fa2)"
      "map_page_with_flags X M mm2 fa2 (USER_STACK_START + 0x1000) ?f = Ret (Inr (), mm3, fa3)"
      using m1 m2 m3 by simp_all
    obtain p where "mapped_to M (mm_mapper mm1) USER_CODE_START p 4096"
      using map_page_ok[OF ok(1) ready user_pages_facts(1)] by (auto simp: user_pages_facts)
    moreover have "\<forall>a. page_of a \<noteq> USER_STACK_START \<longrightarrow> mp_translate_addr M (mm_mapper mm2) a = mp_translate_addr M (mm_mapper mm1) a"
      using map_page_ok[OF ok(2) m1(2) user_pages_facts(2)] by (auto simp: user_pages_facts)
    moreover have "\<forall>a. page_of a \<noteq> USER_STACK_START + 0x1000 \<longrightarrow> mp_translate_addr M (mm_mapper mm3) a = mp_translate_addr M (mm_mapper mm2) a"
      using map_page_ok[OF ok(3) m2(2) user_pages_facts(3)] by (auto simp: user_pages_facts)
    ultimately have "mapped_to M (mm_mapper mm3) USER_CODE_START p 4096"
      using mapped_to_keep[of "mm_mapper mm1" USER_CODE_START p "[USER_STACK_START, USER_STACK_START + 0x1000]" "mm_mapper mm3"]
      by (simp add: user_pages_facts)
    from write_demo_code_mapped[OF this, of USER_INT_DEMO_CODE] True m1 m2 m3 show ?thesis
      by (simp add: init_memory_def Let_def USER_INT_DEMO_CODE_def)
  next
    case False
    with m1 m2 m3 show ?thesis by (cases r1; cases r2; cases r3) (simp_all add: init_memory_def Let_def)
  qed
qed

end

section \<open>Boot establishes the invariant of the monitor\<close>

lemma probe_memory_returns:
  assumes env: "env_ok E" and M: "mapper_documented (me_mapper E)" and off: "direct_map (me_tables E) (me_cr3 E) offset" and ready: "allocator_ready fa"
  shows "\<exists>pr hr ur mm' fa' heap um. probe_memory E offset mm fa = Ret (Some (pr, hr, ur), mm', fa', heap, um) \<and> allocator_ready fa' \<and>
    (heap = None \<longleftrightarrow> hr = Inl ''heap init mapping failed'') \<and>
    (um_context um \<noteq> None \<longrightarrow> (\<exists>p. mapped_to (me_mapper E) (mm_mapper mm') USER_CODE_START p 4096))"
proof -
  let ?X = "me_x86_64 E" and ?M = "me_mapper E"
  have X: "x86_64_documented ?X" using env by (simp add: env_ok_def)
  have p: "paging ?X ?M" using X M by (simp add: paging_def)
  obtain m where m: "init_offset_page_table ?X ?M (me_cr3 E) offset = Ret m" "va_new ?X offset = Ret offset"
    using off by (simp add: init_offset_page_table_def active_level_4_table_def direct_map_def
        x86_64_documented.va_new[OF X] x86_64_documented.va_add[OF X])
  obtain pr mm1 fa1 where 1: "map_demo_page ?X ?M (mm\<lparr>mm_mapper := m\<rparr>) fa = Ret (pr, mm1, fa1)" "allocator_ready fa1"
    using paging.map_demo_returns[OF p ready] by blast
  obtain r m2 fa2 heap where 2: "init_heap ?X ?M (mm_mapper mm1) fa1 None = Ret (r, m2, fa2, heap)" "allocator_ready fa2"
    using paging.init_heap_returns[OF p 1(2)] by blast
  have heap: "heap = None \<longleftrightarrow> (\<exists>e. r = Inl e)"
  proof -
    obtain r' m' fa' where "map_heap_pages ?X ?M (flag_PRESENT ?X OR flag_WRITABLE ?X) heap_pages (mm_mapper mm1) fa1 = Ret (r', m', fa')"
      using paging.map_heap_returns[OF p 1(2)] by blast
    with 2(1) show ?thesis by (cases r') (auto simp: init_heap_unfold[OF X])
  qed
  obtain ur mm3 fa3 um where 3: "init_memory ?X ?M (mm1\<lparr>mm_mapper := m2\<rparr>) fa2 usermode_statics = Ret (ur, mm3, fa3, um)" "allocator_ready fa3"
    using paging.init_memory_returns[OF p 2(2)] by blast
  have user: "\<exists>p. mapped_to ?M (mm_mapper mm3) USER_CODE_START p 4096" if "um_context um \<noteq> None"
  proof (cases ur)
    case (Inl e)
    with 3(1) init_memory_error that show ?thesis by (fastforce simp: usermode_statics_def)
  next
    case (Inr u)
    with paging.init_memory_ok[OF p _ 2(2)] 3(1) show ?thesis by (fastforce simp: user_memory_ready_def)
  qed
  define hr where "hr = (case r of Inl _ \<Rightarrow> Inl ''heap init mapping failed'' | Inr _ \<Rightarrow> Inr probe_allocations)"
  have "probe_memory E offset mm fa = Ret (Some (pr, hr, ur), mm3, fa3, heap, um)"
    using m 1 2 3 by (simp add: probe_memory_def hr_def)
  moreover have "heap = None \<longleftrightarrow> hr = Inl ''heap init mapping failed''"
    using heap by (cases r) (auto simp: hr_def)
  ultimately show ?thesis using 3(2) user by blast
qed

text \<open>Interrupts before the monitor runs keep its invariant, too.\<close>

lemma deliver_safe:
  "monitor_ok E m (n + length irqs) (s\<lparr>mo_interrupts := st\<rparr>) \<Longrightarrow>
   \<exists>st'. deliver irqs st = Ret st' \<and> monitor_ok E m n (s\<lparr>mo_interrupts := st'\<rparr>) \<and>
     is_ticks st' = is_ticks st + of_nat (length (filter (\<lambda>i. i = None) irqs))"
proof (induction irqs arbitrary: st)
  case (Cons i irqs)
  show ?case
  proof (cases i)
    case None
    have "monitor_ok E m (n + length irqs) (s\<lparr>mo_interrupts := st\<rparr>)" using Cons.prems by (rule monitor_ok_less) simp
    from Cons.IH[of "timer_interrupt_handler st"] timer_interrupt_safe[OF this] None show ?thesis
      by (auto simp: timer_interrupt_handler_def device_def algebra_simps)
  next
    case (Some scancode)
    obtain st1 where "keyboard_interrupt_handler scancode st = Ret st1" "monitor_ok E m (n + length irqs) (s\<lparr>mo_interrupts := st1\<rparr>)"
      using keyboard_interrupt_safe[of E m "n + length irqs" "s\<lparr>mo_interrupts := st\<rparr>" scancode] Cons.prems by auto
    moreover from this(1) have "is_ticks st1 = is_ticks st"
      by (auto simp: keyboard_interrupt_handler_def bind_run_Ret_iff device_def)
    ultimately show ?thesis using Cons.IH[of st1] Some by auto
  qed
qed simp

abbreviation timer_irqs_in :: "u8 option list \<Rightarrow> nat" where
  "timer_irqs_in irqs \<equiv> length (filter (\<lambda>i. i = None) irqs)"

lemma wait_for_ticks_safe:
  assumes "monitor_ok E m (n + length (concat irqs)) (s\<lparr>mo_interrupts := st\<rparr>)" "is_ticks st < target"
    and "unat (is_ticks st) + length (concat irqs) < 2 ^ 64"
  shows "\<exists>seen st'. wait_for_ticks target spins irqs st = Ret (seen, st') \<and> monitor_ok E m n (s\<lparr>mo_interrupts := st'\<rparr>) \<and>
    (seen \<noteq> None \<longleftrightarrow> unat target \<le> unat (is_ticks st) + timer_irqs_in (concat (take spins irqs)))"
  using assms
proof (induction spins arbitrary: irqs st)
  case 0
  then show ?case using monitor_ok_less[of E m "n + length (concat irqs)"] by (auto simp: word_less_nat_alt)
next
  case (Suc spins)
  define now later where "now = (case irqs of [] \<Rightarrow> [] | now # _ \<Rightarrow> now)" and "later = drop 1 irqs"
  have split: "length (concat irqs) = length (concat later) + length now"
    "timer_irqs_in (concat (take (Suc spins) irqs)) = timer_irqs_in now + timer_irqs_in (concat (take spins later))"
    by (cases irqs; simp add: now_def later_def)+
  obtain st1 where st1: "deliver now st = Ret st1" "monitor_ok E m (n + length (concat later)) (s\<lparr>mo_interrupts := st1\<rparr>)"
    "is_ticks st1 = is_ticks st + of_nat (timer_irqs_in now)"
    using deliver_safe[where E = E and m = m and n = "n + length (concat later)" and irqs = now and s = s and st = st] Suc.prems(1) split(1) by (auto simp: add.assoc)
  have few: "timer_irqs_in now \<le> length now" by (rule length_filter_le)
  with Suc.prems(3) split(1) have "timer_irqs_in now < 2 ^ 64" "unat (is_ticks st) + timer_irqs_in now < 2 ^ 64" by linarith+
  then have ticks: "unat (is_ticks st1) = unat (is_ticks st) + timer_irqs_in now"
    by (simp add: st1(3) unat_word_ariths unat_of_nat take_bit_nat_eq_self)
  have room: "unat (is_ticks st1) + length (concat later) < 2 ^ 64" using few ticks Suc.prems(3) split(1) by linarith
  note step = wait_for_ticks.simps(2)[of target spins irqs st, folded now_def later_def]
  show ?case
  proof (cases "target \<le> is_ticks st1")
    case True
    then have "unat target \<le> unat (is_ticks st) + timer_irqs_in (concat (take (Suc spins) irqs))"
      using ticks split(2) by (simp add: word_le_nat_alt)
    with True st1 show ?thesis unfolding step by (auto intro: monitor_ok_less)
  next
    case False
    have "\<exists>seen st'. wait_for_ticks target spins later st1 = Ret (seen, st') \<and> monitor_ok E m n (s\<lparr>mo_interrupts := st'\<rparr>) \<and>
        (seen \<noteq> None \<longleftrightarrow> unat target \<le> unat (is_ticks st1) + timer_irqs_in (concat (take spins later)))"
      by (rule Suc.IH[OF st1(2) _ room]) (use False in simp)
    with False st1(1) ticks split(2) show ?thesis unfolding step by auto
  qed
qed

text \<open>The addresses the linker gives to the stacks, the entry stub and the per-CPU data are canonical.\<close>

definition link_ok :: "'g boot_hardware \<Rightarrow> bool" where
  "link_ok H \<longleftrightarrow> address_window (bh_ring0_stack H) RING0_STACK_SIZE \<and> canonical_addr (fe_entry (bh_fast H)) \<and>
     canonical_addr (fe_stack (bh_fast H)) \<and> address_window (fe_stack (bh_fast H)) FAST_SYSCALL_STACK_SIZE \<and>
     canonical_addr (fe_cpu_local (bh_fast H))"

lemma scaffold_returns:
  assumes "x86_64_documented X" "link_ok H"
  shows "\<exists>status msrs. init_fast_syscall_scaffold X (bh_fast H) sel (bh_msrs H) = Ret (status, msrs)"
  using assms(2) by (auto simp: init_fast_syscall_scaffold_def program_fast_syscall_msrs_def link_ok_def Let_def
      x86_64_documented.va_new[OF assms(1)] x86_64_documented.va_add[OF assms(1)])

lemma first_state_ok:
  assumes "\<forall>off. bi_physical_memory_offset info = Some off \<longrightarrow> direct_map (me_tables E) (me_cr3 E) off" "ensure_bootstrap_task table_new = Ret tasks" "n < 2 ^ 63"
    and "um_context um \<noteq> None \<longrightarrow> (\<exists>p. mapped_to (me_mapper E) (mm_mapper mm) USER_CODE_START p 4096)"
  shows "monitor_ok E (mm_mapper mm) n (first_state info mm um c (interrupts_init interrupt_statics) tasks)"
proof -
  have "pit_ok (interrupts_init interrupt_statics)" "is_scancodes (interrupts_init interrupt_statics) = scancode_buffer_new"
    using demo_services_pit by (simp_all add: demo_services_def interrupts_init_def interrupt_statics_def set_pit_hz_def device_def
        split: prod.split)
  moreover have "wf_table tasks" using assms(2) by (rule wf_boot_table)
  moreover have "tt_next_id tasks = 2" using assms(2) ensure_bootstrap_task_new by auto
  ultimately show ?thesis
    using assms(1,3,4) scancode_buffer_new_inv
    by (simp add: monitor_ok_def first_state_def context_ok_def line_new_ok history_new_ok scancode_buffer_new_def
        set_monitor_context_def Let_def)
qed

lemma env_ok_boot: "env_ok (E\<lparr>me_selectors := a, me_fast_status := b, me_tss_rsp0 := c\<rparr>) = env_ok E" "env_ok (E\<lparr>me_heap := d\<rparr>) = env_ok E"
  by (simp_all add: env_ok_def)

lemma monitor_ok_boot:
  "monitor_ok (E\<lparr>me_selectors := a, me_fast_status := b, me_tss_rsp0 := c\<rparr>) m n s = monitor_ok E m n s"
  by (simp add: monitor_ok_def context_ok_def)

text \<open>The phase boot ends in: the monitor runs if the timer has ticked five times within the wait.\<close>

definition boot_phase :: "u8 option list list \<Rightarrow> phase" where
  "boot_phase irqs = (if 5 \<le> timer_irqs_in (concat (take 500000000 irqs)) then ScancodeLoop else Stopped Failed)"

text \<open>Output during boot: the framebuffer the boot loader reports is one the writer can draw on.\<close>

definition framebuffer_ok :: "boot_info \<Rightarrow> bool" where
  "framebuffer_ok info \<longleftrightarrow> (case bi_framebuffer info of None \<Rightarrow> True | Some (buffer, fb_info) \<Rightarrow> drawable fb_info)"

definition event_ok :: "boot_event \<Rightarrow> bool" where
  "event_ok e \<longleftrightarrow> (case e of ScreenInit buffer fb_info \<Rightarrow> drawable fb_info | _ \<Rightarrow> True)"

lemma emit_console:
  "font_ok font \<Longrightarrow> list_all event_ok es \<Longrightarrow> console_ok (snd out) \<Longrightarrow>
   \<exists>out'. emit font es out = Ret out' \<and> console_ok (snd out')"
proof (induction font es out rule: emit.induct)
  case (2 font e es events writer)
  obtain w where "show_event font e writer = Ret w" "console_ok w"
  proof (cases e)
    case (ScreenLine t)
    with that fb_print_console[OF 2(2), of writer "t @ NEWLINE"] 2(4) show thesis by auto
  qed (use that 2(3,4) fb_init_console in \<open>auto simp: event_ok_def\<close>)
  with 2 show ?case by auto
qed simp

lemma boot_events_ok: "framebuffer_ok info \<Longrightarrow> list_all event_ok (boot_events H info first_frames fa remaining probe)"
  by (auto simp: boot_events_def framebuffer_ok_def event_ok_def list_all_iff Let_def split: option.splits prod.splits)

lemma start_kernel_safe:
  assumes font: "font_ok (bh_font H)" and out: "console_ok (snd out)" and env: "env_ok E" and link: "link_ok H"
    and off: "\<forall>off. bi_physical_memory_offset info = Some off \<longrightarrow> direct_map (me_tables E) (me_cr3 E) off"
    and um: "um_context um \<noteq> None \<longrightarrow> (\<exists>p. mapped_to (me_mapper E) (mm_mapper mm) USER_CODE_START p 4096)"
    and n: "n + length (concat irqs) < 2 ^ 63"
  shows "\<exists>b s. start_kernel out E H info irqs mm um = Ret b \<and> env_ok (bo_env b) \<and> me_heap (bo_env b) = me_heap E \<and>
    console_ok (bo_writer b) \<and> bo_state b = (boot_phase irqs, s) \<and> monitor_ok (bo_env b) (mm_mapper mm) n s"
proof -
  have X: "x86_64_documented (me_x86_64 E)" using env by (simp add: env_ok_def)
  obtain tasks where tasks: "ensure_bootstrap_task table_new = Ret tasks" using ensure_bootstrap_task_new by blast
  define sel where "sel = snd (gdt_build (bh_append H) (bh_gdt H) (bh_tss H))"
  obtain rsp0 where tss: "tss_privilege_stack (va_add (me_x86_64 E)) (bh_ring0_stack H) = Ret rsp0"
    using link by (simp add: tss_privilege_stack_def link_ok_def x86_64_documented.va_add[OF X])
  obtain status msrs where fast: "init_fast_syscall_scaffold (me_x86_64 E) (bh_fast H) sel (bh_msrs H) = Ret (status, msrs)"
    using scaffold_returns[OF X link] by blast
  let ?st = "interrupts_init interrupt_statics" and ?s = "\<lambda>st. first_state info mm um (bh_cpu H) st tasks"
  have upd: "(?s st0)\<lparr>mo_interrupts := st\<rparr> = ?s st" for st0 st by (simp add: first_state_def Let_def)
  define E' where "E' = E\<lparr>me_selectors := sel, me_fast_status := status, me_tss_rsp0 := rsp0\<rparr>"
  have ok: "monitor_ok E' (mm_mapper mm) (n + length (concat irqs)) (?s ?st)"
    using first_state_ok[OF off tasks n um] by (simp add: E'_def monitor_ok_boot)
  have zero: "is_ticks ?st = 0"
    by (simp add: interrupts_init_def interrupt_statics_def set_pit_hz_def device_def split: prod.split)
  have first: "is_ticks ?st < 5" "unat (is_ticks ?st) + length (concat irqs) < 2 ^ 64" using n by (simp_all add: zero)
  obtain seen st where wait: "wait_for_ticks 5 500000000 irqs ?st = Ret (seen, st)" "monitor_ok E' (mm_mapper mm) n (?s st)"
    "seen \<noteq> None \<longleftrightarrow> 5 \<le> timer_irqs_in (concat (take 500000000 irqs))"
    using wait_for_ticks_safe[where E = E' and m = "mm_mapper mm" and n = n and irqs = irqs and s = "?s ?st" and st = ?st and target = 5 and
        spins = 500000000, unfolded upd, OF ok first] by (auto simp: zero)
  obtain s1 where loop: "run_mon (\<lambda>_. ScancodeLoop) start_loop (?s st) = Ret (ScancodeLoop, s1)" "monitor_ok E' (mm_mapper mm) n s1"
    using run_mon_safe[OF keeps_start_loop[of "\<lambda>_. False" E' "mm_mapper mm" n] wait(2), of "\<lambda>_. ScancodeLoop"]
    by (auto simp: steps_to_def start_loop_def mon_run run_mon_def next_phase_def)
  have E': "env_ok E'" "me_heap E' = me_heap E" using env by (simp_all add: E'_def env_ok_boot)
  note prints = emit_console[OF font]
  obtain o1 where o1: "emit (bh_font H) [ScreenLine ''jingOS kernel started'', ScreenLine ''Hello from Rust kernel!''] out = Ret o1" "console_ok (snd o1)"
    using prints[OF _ out] by (force simp: event_ok_def)
  obtain o2 where o2: "emit (bh_font H) [SegmentLoads (gdt_init sel), ScreenLine ''GDT + TSS initialized''] o1 = Ret o2" "console_ok (snd o2)"
    using prints[OF _ o1(2)] by (force simp: event_ok_def)
  obtain o3 where o3: "emit (bh_font H) [ScreenLine (''fast syscall scaffold: stage='' @ fast_syscall_stage_name (fs_stage status) @ '' cpu_support='' @
             fmt_bool (fs_cpu_support status) @ '' sce_enabled='' @ fmt_bool (fs_sce_enabled status)),
           ScreenLine ''Initializing IDT + PIC + PIT...''] o2 = Ret o3" "console_ok (snd o3)"
    using prints[OF _ o2(2)] by (force simp: event_ok_def)
  obtain o4 where o4: "emit (bh_font H) [ScreenLine ''IRQ0(timer) and IRQ1(keyboard) enabled'',
           ScreenLine ''Keyboard input window started (press ESC to exit)''] o3 = Ret o4" "console_ok (snd o4)"
    using prints[OF _ o3(2)] by (force simp: event_ok_def)
  define t where "t = (case seen of Some ticks \<Rightarrow> ''Timer interrupts active, observed ticks = '' @ fmt_dec ticks
           | None \<Rightarrow> ''Timer interrupts not observed within timeout'')"
  obtain o5 where o5: "emit (bh_font H) [SerialLine t, ScreenLine t] o4 = Ret o5" "console_ok (snd o5)"
    using prints[OF _ o4(2)] by (force simp: event_ok_def)
  obtain events writer where out5: "o5 = (events, writer)" by (cases o5)
  have "start_kernel out E H info irqs mm um =
    bind_run (case seen of Some ticks \<Rightarrow> run_mon (\<lambda>_. ScancodeLoop) start_loop (?s st) | None \<Rightarrow> Ret (Stopped Failed, ?s st)) (\<lambda>state.
      Ret \<lparr>bo_env = E', bo_msrs = msrs, bo_state = state, bo_events = events, bo_writer = writer\<rparr>)"
    by (simp only: start_kernel_def Let_def bind_run.simps prod.case sel_def[symmetric] E'_def[symmetric] t_def[symmetric]
        o1(1) o2(1) o3(1) o4(1) o5(1) out5 tss fast tasks wait(1))
  with wait loop E' o5(2) out5 show ?thesis
    by (cases seen) (auto simp: boot_phase_def)
qed

lemma kernel_main_safe:
  assumes font: "font_ok (bh_font H)" and fb: "framebuffer_ok info" and env: "env_ok E" and M: "mapper_documented (me_mapper E)" and map: "memory_map_ok (bi_memory_regions info)" and link: "link_ok H"
    and off: "\<forall>off. bi_physical_memory_offset info = Some off \<longrightarrow> direct_map (me_tables E) (me_cr3 E) off"
    and n: "n + length (concat irqs) < 2 ^ 63"
  shows "\<exists>b s. kernel_main E H info irqs mm = Ret b \<and> env_ok (bo_env b) \<and> console_ok (bo_writer b) \<and> bo_state b = (boot_phase irqs, s) \<and>
    monitor_ok (bo_env b) (mm_mapper (mo_machine s)) n s"
proof -
  have X: "x86_64_documented (me_x86_64 E)" using env by (simp add: env_ok_def)
  have r0: "allocator_ready (allocator_init (bi_memory_regions info))"
    using map by (simp add: allocator_ready_def allocator_init_def)
  note frame = x86_64_documented.allocate_frame_pool(1)[OF X]
  obtain f0 fa0 where a0: "allocate_frame (me_x86_64 E) (allocator_init (bi_memory_regions info)) = Ret (f0, fa0)" "allocator_ready fa0"
    using frame[OF r0] r0 by simp
  obtain f1 fa1 where a1: "allocate_frame (me_x86_64 E) fa0 = Ret (f1, fa1)" "allocator_ready fa1"
    using frame[OF a0(2)] a0(2) by simp
  obtain f2 fa2 where a2: "allocate_frame (me_x86_64 E) fa1 = Ret (f2, fa2)" "allocator_ready fa2"
    using frame[OF a1(2)] a1(2) by simp
  obtain probe mm' fa' heap um where probe: "(case bi_physical_memory_offset info of
        Some offset \<Rightarrow> probe_memory E offset mm fa2 | None \<Rightarrow> Ret (None, mm, fa2, None, usermode_statics)) = Ret (probe, mm', fa', heap, um)"
    "allocator_ready fa'" "um_context um \<noteq> None \<longrightarrow> (\<exists>p. mapped_to (me_mapper E) (mm_mapper mm') USER_CODE_START p 4096)"
  proof (cases "bi_physical_memory_offset info")
    case None
    with a2(2) that[of None mm fa2 None usermode_statics] show thesis by (simp add: usermode_statics_def)
  next
    case (Some offset)
    with probe_memory_returns[OF env M _ a2(2), of offset mm] off that show thesis by fastforce
  qed
  obtain rem where rem: "remaining_usable_frames_estimate (me_x86_64 E) fa' = Ret rem"
    using x86_64_documented.consume_usable_frames[OF X probe(2), of "length (usable_frames (me_x86_64 E) fa')"]
    by (simp add: remaining_usable_frames_estimate_def)
  obtain events where events: "kernel_main E H info irqs mm = bind_run (emit (bh_font H) events ([], None)) (\<lambda>out.
      start_kernel out (E\<lparr>me_heap := heap\<rparr>) H info irqs mm' um)" "list_all event_ok events"
  proof (rule that)
    show "kernel_main E H info irqs mm = bind_run (emit (bh_font H) (boot_events H info [f0, f1, f2] fa' rem probe) ([], None)) (\<lambda>out.
      start_kernel out (E\<lparr>me_heap := heap\<rparr>) H info irqs mm' um)"
      unfolding kernel_main_def Let_def a0(1) a1(1) a2(1) probe(1) rem bind_run.simps prod.case by (rule refl)
  qed (rule boot_events_ok[OF fb])
  obtain out where out: "emit (bh_font H) events ([], None) = Ret out" "console_ok (snd out)"
    using emit_console[OF font events(2), of "([], None)"] by (auto simp: console_ok_def)
  have main: "kernel_main E H info irqs mm = start_kernel out (E\<lparr>me_heap := heap\<rparr>) H info irqs mm' um"
    by (simp add: events(1) out(1))
  have "env_ok (E\<lparr>me_heap := heap\<rparr>)" using env by (simp add: env_ok_boot)
  from start_kernel_safe[OF font out(2) this link _ _ n, of info um mm'] off probe(3) obtain b s where
    "start_kernel out (E\<lparr>me_heap := heap\<rparr>) H info irqs mm' um = Ret b" "env_ok (bo_env b)" "console_ok (bo_writer b)"
    "monitor_ok (bo_env b) (mm_mapper mm') n s" "bo_state b = (boot_phase irqs, s)" by auto
  moreover from this(4) have "mm_mapper (mo_machine s) = mm_mapper mm'" by (simp add: monitor_ok_def)
  ultimately show ?thesis unfolding main by auto
qed

section \<open>Properties\<close>

text \<open>
  C1. From power-on to the last command: on a well-formed memory map, with a canonical direct map if the
  boot loader provides one and, if it reports a framebuffer, one with at least one byte per pixel whose sizes fit a
  \<open>usize\<close>, boot itself never panics, neither in its own code nor in the framebuffer writer that shows its messages,
  whether or not the demo page, the heap and user
  memory can be set up and whatever interrupts come meanwhile; it starts the monitor exactly if the timer
  ticks five times during the wait and otherwise ends the machine with \<open>Failed\<close>. From there any
  interleaving of interrupts, input, monitor steps and user exits keeps the invariants of all modules,
  or a certain step of it does not return, and then the line in the buffer before exactly that step is one of the few that end
  the machine (\<open>line_panic\<close>), and the step fails in exactly the way this line does. Everything the monitor has printed
  up to there is shown by the framebuffer writer without a panic.
\<close>

theorem kernel_from_boot_safe:
  assumes "font_ok (bh_font H)" "framebuffer_ok info"
    and "env_ok E" "mapper_documented (me_mapper E)" "memory_map_ok (bi_memory_regions info)" "link_ok H"
    and "\<forall>off. bi_physical_memory_offset info = Some off \<longrightarrow> direct_map (me_tables E) (me_cr3 E) off"
    and "2 * length es + length (concat irqs) < 2 ^ 63"
  shows "\<exists>b. kernel_main E H info irqs mm = Ret b \<and> fst (bo_state b) = boot_phase irqs \<and>
    (case machine_run (bo_env b) es (bo_state b) of
      Ret (ph', s') \<Rightarrow> monitor_ok (bo_env b) (mm_mapper (mo_machine s')) 0 s' \<and>
        (\<exists>w. fb_replay (bh_font H) (mo_console s') (bo_writer b) = Ret w)
    | Panic p \<Rightarrow> \<exists>es1 e es2 ph1 s1. es = es1 @ e # es2 \<and> machine_run (bo_env b) es1 (bo_state b) = Ret (ph1, s1) \<and>
        machine_step (bo_env b) e (ph1, s1) = Panic p \<and> line_fails (bo_env b) s1 p \<and>
        (\<exists>w. fb_replay (bh_font H) (mo_console s1) (bo_writer b) = Ret w))"
proof -
  obtain b s where b: "kernel_main E H info irqs mm = Ret b" "env_ok (bo_env b)" "console_ok (bo_writer b)" "bo_state b = (boot_phase irqs, s)"
    "monitor_ok (bo_env b) (mm_mapper (mo_machine s)) (2 * length es) s"
    using kernel_main_safe[OF assms] by blast
  have "monitor_ok (bo_env b) (mm_mapper (mo_machine s')) 0 s'" if "monitor_ok (bo_env b) m 0 s'" for m s'
    using that by (simp add: monitor_ok_def)
  moreover have "\<exists>w. fb_replay (bh_font H) cs (bo_writer b) = Ret w" for cs
    using fb_replay_console[OF assms(1) b(3)] by blast
  ultimately show ?thesis
    using machine_run_safe[OF b(2,5), of "boot_phase irqs"] b(1,4) by (force split: run.splits)
qed

definition demo_hardware :: "nat boot_hardware" where
  "demo_hardware = \<lparr>bh_append = slot_append, bh_gdt = 1, bh_tss = 0x300000, bh_ring0_stack = 0x400000,
     bh_fast = \<lparr>fe_cpuid_eax = (\<lambda>_. 0x80000008), fe_cpuid_edx = (\<lambda>_. 0x800), fe_star_ok = (\<lambda>_ _ _ _. True),
       fe_set_sce = (\<lambda>msrs. msrs\<lparr>msr_efer_sce := True\<rparr>), fe_flag_interrupt = 0x200, fe_flag_trap = 0x100, fe_flag_direction = 0x400,
       fe_entry = 0x200000, fe_stack = 0x500000, fe_cpu_local = 0x600000\<rparr>,
     bh_msrs = \<lparr>msr_efer_sce = False, msr_star = None, msr_lstar = 0, msr_sfmask = 0, msr_kernel_gs_base = 0,
       msr_cpu_local = \<lparr>cl_kernel_rsp = 0, cl_user_rsp = 0\<rparr>, msr_writes = []\<rparr>,
     bh_cpu = demo_cpu, bh_debug_frames = (\<lambda>_. []), bh_font = (\<lambda>_. None)\<rparr>"

definition demo_boot_info :: boot_info where
  "demo_boot_info = \<lparr>bi_memory_regions = demo_regions, bi_physical_memory_offset = Some 0x40000000,
     bi_framebuffer = Some (replicate 1900 0, demo_info), bi_debug = []\<rparr>"

theorem kernel_from_boot_safe_witness:
  "\<exists>b. kernel_main demo_env demo_hardware demo_boot_info [[None, None], [Some 0x1e], [None, None, None]] demo_machine = Ret b \<and>
    fst (bo_state b) = ScancodeLoop \<and>
    (case machine_run (bo_env b) [StepEvent None, TimerEvent] (bo_state b) of
      Ret (ph', s') \<Rightarrow> monitor_ok (bo_env b) (mm_mapper (mo_machine s')) 0 s' \<and>
        (\<exists>w. fb_replay (bh_font demo_hardware) (mo_console s') (bo_writer b) = Ret w)
    | Panic p \<Rightarrow> \<exists>es1 e es2 ph1 s1. [StepEvent None, TimerEvent] = es1 @ e # es2 \<and>
        machine_run (bo_env b) es1 (bo_state b) = Ret (ph1, s1) \<and>
        machine_step (bo_env b) e (ph1, s1) = Panic p \<and> line_fails (bo_env b) s1 p \<and>
        (\<exists>w. fb_replay (bh_font demo_hardware) (mo_console s1) (bo_writer b) = Ret w))"
proof -
  let ?irqs = "[[None, None], [Some 0x1e], [None, None, None :: u8 option]]"
  have 1: "mapper_documented (me_mapper demo_env)" "link_ok demo_hardware"
    using page_map.mapper_documented_axioms by (simp_all add: demo_env_def link_ok_def demo_hardware_def address_window_def
        canonical_addr_def RING0_STACK_SIZE_def FAST_SYSCALL_STACK_SIZE_def)
  have 2: "font_ok (bh_font demo_hardware)" "framebuffer_ok demo_boot_info" "memory_map_ok (bi_memory_regions demo_boot_info)"
    using demo_regions_ok by (simp_all add: font_ok_def framebuffer_ok_def drawable_def addressable_def demo_hardware_def demo_boot_info_def
        demo_info_def CHAR_HEIGHT_def)
  have phase: "boot_phase ?irqs = ScancodeLoop" by (simp add: boot_phase_def)
  have 3: "\<forall>off. bi_physical_memory_offset demo_boot_info = Some off \<longrightarrow> direct_map (me_tables demo_env) (me_cr3 demo_env) off"
    using demo_direct_map by (simp add: demo_env_def demo_boot_info_def)
  show ?thesis
    using kernel_from_boot_safe[OF 2(1,2) demo_env_ok 1(1) 2(3) 1(2) 3, where es = "[StepEvent None, TimerEvent]" and irqs = ?irqs and
        mm = demo_machine]
    by (simp only: phase) simp
qed

end
