(* ===== verification/Launcher.thy ===== *)
theory Launcher
  imports Text_Format "HOL-Library.Sublist"
begin

text \<open>
  The host program \<open>src/main.rs\<close> that starts the kernel in QEMU: its options, the QEMU command line, the
  serial script and the thread that sends it, the thread that forwards the kernel's output and looks for
  the ready marker in it, and the exit code. What the operating system, QEMU and the OVMF package do is an
  argument. A text is its UTF-8 bytes, one character of \<open>string\<close> each.
\<close>

section \<open>Texts of the standard library\<close>

text \<open>The encodings of the characters with the Unicode property White_Space, which \<open>str::trim\<close> removes.\<close>

definition unicode_whitespace :: "string list" where
  "unicode_whitespace =
     [[CHR 0x09], [CHR 0x0A], [CHR 0x0B], [CHR 0x0C], [CHR 0x0D], [CHR 0x20],
      [CHR 0xC2, CHR 0x85], [CHR 0xC2, CHR 0xA0], [CHR 0xE1, CHR 0x9A, CHR 0x80]] @
     map (\<lambda>k. [CHR 0xE2, CHR 0x80, char_of (0x80 + k)]) [0..<11] @
     [[CHR 0xE2, CHR 0x80, CHR 0xA8], [CHR 0xE2, CHR 0x80, CHR 0xA9], [CHR 0xE2, CHR 0x80, CHR 0xAF],
      [CHR 0xE2, CHR 0x81, CHR 0x9F], [CHR 0xE3, CHR 0x80, CHR 0x80]]"

lemma unicode_whitespace_nonempty: "w \<in> set unicode_whitespace \<Longrightarrow> w \<noteq> []"
  by (auto simp: unicode_whitespace_def)

definition ends_with :: "string \<Rightarrow> string \<Rightarrow> bool" where
  "ends_with s p \<longleftrightarrow> length p \<le> length s \<and> drop (length s - length p) s = p"

function str_trim_start :: "string \<Rightarrow> string" where
  "str_trim_start s =
     (case find (starts_with s) unicode_whitespace of
        None \<Rightarrow> s
      | Some w \<Rightarrow> str_trim_start (drop (length w) s))"
  by pat_completeness auto
termination
proof (relation "measure length")
  fix s w
  assume "find (starts_with s) unicode_whitespace = Some w"
  then have "starts_with s w" "w \<noteq> []"
    using unicode_whitespace_nonempty by (auto simp: find_Some_iff)
  then show "(drop (length w) s, s) \<in> measure length"
    by (cases "s = []") (auto simp: starts_with_def)
qed simp

function str_trim_end :: "string \<Rightarrow> string" where
  "str_trim_end s =
     (case find (ends_with s) unicode_whitespace of
        None \<Rightarrow> s
      | Some w \<Rightarrow> str_trim_end (take (length s - length w) s))"
  by pat_completeness auto
termination
proof (relation "measure length")
  fix s w
  assume "find (ends_with s) unicode_whitespace = Some w"
  then have "ends_with s w" "w \<noteq> []"
    using unicode_whitespace_nonempty by (auto simp: find_Some_iff)
  then show "(take (length s - length w) s, s) \<in> measure length"
    by (cases "s = []") (auto simp: ends_with_def)
qed simp

definition str_trim :: "string \<Rightarrow> string" where
  "str_trim s = str_trim_end (str_trim_start s)"

text \<open>\<open>str::lines\<close>: a line ends at a line feed, with the carriage return before it; the last one may have neither.\<close>

definition strip_cr :: "string \<Rightarrow> string" where
  "strip_cr l = (if l \<noteq> [] \<and> last l = CHR 0x0D then butlast l else l)"

function str_lines :: "string \<Rightarrow> string list" where
  "str_lines s =
     (if s = [] then []
      else let l = takeWhile (\<lambda>c. c \<noteq> CHR 0x0A) s; rest = dropWhile (\<lambda>c. c \<noteq> CHR 0x0A) s
           in if rest = [] then [l] else strip_cr l # str_lines (tl rest))"
  by pat_completeness auto
termination
proof (relation "measure length")
  fix s :: string and l rest
  assume "s \<noteq> []" "rest = dropWhile (\<lambda>c. c \<noteq> CHR 0x0A) s"
  then show "(tl rest, s) \<in> measure length"
    using length_dropWhile_le[of "\<lambda>c. c \<noteq> CHR 0x0A" s] by (cases s) (auto simp: less_Suc_eq_le le_diff_conv intro: le_trans)
qed simp

declare str_trim_start.simps [simp del] str_trim_end.simps [simp del] str_lines.simps [simp del]

section \<open>Ending the process\<close>

text \<open>
  The exit code and what the program prints before it; a panic of a host program exits with 101, and of its
  message the text of the source is kept, without the error and the place that the library adds.
\<close>

record halted =
  ha_code :: nat
  ha_stdout :: "string list"
  ha_stderr :: "string list"

definition fails :: "string list \<Rightarrow> halted" where
  "fails messages = \<lparr>ha_code = 1, ha_stdout = [], ha_stderr = messages\<rparr>"

definition host_panics :: "string \<Rightarrow> halted" where
  "host_panics message = \<lparr>ha_code = 101, ha_stdout = [], ha_stderr = [message]\<rparr>"

section \<open>Options\<close>

definition DEFAULT_SERIAL_SCRIPT_DELAY_MS :: u64 where "DEFAULT_SERIAL_SCRIPT_DELAY_MS = 6000"
definition SERIAL_MONITOR_READY_MARKER :: string where "SERIAL_MONITOR_READY_MARKER = ''[[JINGOS_MONITOR_READY]]''"

record SerialScriptConfig =
  ss_path :: string
  ss_delay_ms :: u64

datatype SerialScriptAction = Send string | SleepMs u64

definition print_usage :: "string \<Rightarrow> string" where
  "print_usage program = ''Usage: '' @ program @
     '' [uefi|bios] [--show|--headless] [--serial-only] [--serial-script <file>] [--serial-delay-ms <ms>]''"

definition parse_u64_option :: "string \<Rightarrow> string \<Rightarrow> string \<Rightarrow> (u64, halted) result" where
  "parse_u64_option program option_name text =
     (case from_str_radix 10 text of
        Some parsed \<Rightarrow> Inr parsed
      | None \<Rightarrow> Inl (fails [''invalid value for '' @ option_name @ '': '' @ text, print_usage program]))"

record launch_options =
  lo_use_uefi :: "bool option"
  lo_show_display :: bool
  lo_serial_only :: bool
  lo_serial_script_path :: "string option"
  lo_serial_delay_ms :: "u64 option"

definition no_options :: launch_options where
  "no_options = \<lparr>lo_use_uefi = None, lo_show_display = False, lo_serial_only = False, lo_serial_script_path = None,
     lo_serial_delay_ms = None\<rparr>"

definition help_lines :: "string \<Rightarrow> string list" where
  "help_lines program =
     [print_usage program,
      ''  --show             enable QEMU window output'',
      ''  --headless         disable QEMU window output'',
      ''  --serial-only      disable QEMU monitor; stdin/stdout only for serial'',
      ''  --serial-script    send commands from script file to serial stdin'',
      ''  --serial-delay-ms  base wait for monitor-ready marker before fallback send (default '' @
        fmt_dec DEFAULT_SERIAL_SCRIPT_DELAY_MS @ '' ms)'',
      ''  script directives  sleep <ms> | sleep_ms <ms> | sleep_s <sec> | # comments'',
      ''  script comments    supports full-line '#' and inline ' ... # ...' comments'']"

fun parse_args :: "string \<Rightarrow> string list \<Rightarrow> launch_options \<Rightarrow> (launch_options, halted) result" where
  "parse_args program [] opts = Inr opts"
| "parse_args program (arg # args) opts =
     (if arg = ''uefi'' then
        if lo_use_uefi opts \<noteq> None then Inl (fails [print_usage program])
        else parse_args program args (opts\<lparr>lo_use_uefi := Some True\<rparr>)
      else if arg = ''bios'' then
        if lo_use_uefi opts \<noteq> None then Inl (fails [print_usage program])
        else parse_args program args (opts\<lparr>lo_use_uefi := Some False\<rparr>)
      else if arg = ''--show'' then parse_args program args (opts\<lparr>lo_show_display := True\<rparr>)
      else if arg = ''--headless'' then parse_args program args (opts\<lparr>lo_show_display := False\<rparr>)
      else if arg = ''--serial-only'' then parse_args program args (opts\<lparr>lo_serial_only := True\<rparr>)
      else if arg = ''--serial-script'' then
        (case args of
           [] \<Rightarrow> Inl (fails [''missing value for --serial-script'', print_usage program])
         | path # args \<Rightarrow> parse_args program args (opts\<lparr>lo_serial_script_path := Some path, lo_serial_only := True\<rparr>))
      else if arg = ''--serial-delay-ms'' then
        (case args of
           [] \<Rightarrow> Inl (fails [''missing value for --serial-delay-ms'', print_usage program])
         | text # args \<Rightarrow> (case parse_u64_option program ''--serial-delay-ms'' text of
             Inl h \<Rightarrow> Inl h
           | Inr ms \<Rightarrow> parse_args program args (opts\<lparr>lo_serial_delay_ms := Some ms\<rparr>)))
      else if arg = ''-h'' \<or> arg = ''--help'' then
        Inl \<lparr>ha_code = 0, ha_stdout = help_lines program, ha_stderr = []\<rparr>
      else Inl (fails [print_usage program]))"

definition serial_script :: "launch_options \<Rightarrow> SerialScriptConfig option" where
  "serial_script opts =
     map_option (\<lambda>path. \<lparr>ss_path = path, ss_delay_ms = (case lo_serial_delay_ms opts of
         Some ms \<Rightarrow> ms | None \<Rightarrow> DEFAULT_SERIAL_SCRIPT_DELAY_MS)\<rparr>)
       (lo_serial_script_path opts)"

section \<open>The QEMU command line\<close>

definition qemu_arguments :: "launch_options \<Rightarrow> string list" where
  "qemu_arguments opts =
     (if lo_serial_only opts then [''-serial'', ''stdio''] else [''-serial'', ''mon:stdio'']) @
     (if lo_show_display opts then [] else [''-display'', ''none'']) @
     [''-device'', ''isa-debug-exit,iobase=0xf4,iosize=0x04'']"

definition drive_arguments :: "bool \<Rightarrow> string \<Rightarrow> string \<Rightarrow> string \<times> string \<Rightarrow> string list" where
  "drive_arguments use_uefi uefi_path bios_path ovmf =
     (if use_uefi then
        [''-drive'', ''format=raw,file='' @ uefi_path,
         ''-drive'', ''if=pflash,format=raw,unit=0,file='' @ fst ovmf @ '',readonly=on'',
         ''-drive'', ''if=pflash,format=raw,unit=1,file='' @ snd ovmf @ '',snapshot=on'']
      else [''-drive'', ''format=raw,file='' @ bios_path])"

section \<open>The serial script\<close>

definition parse_sleep_directive :: "string \<Rightarrow> nat \<Rightarrow> string \<Rightarrow> string \<Rightarrow> u64 \<Rightarrow> (SerialScriptAction, halted) result" where
  "parse_sleep_directive path line_number directive text scale_ms =
     (case from_str_radix 10 text of
        None \<Rightarrow> Inl (fails [''invalid sleep value in `'' @ path @ ''` at line '' @ fmt_nat line_number @ '' for `'' @
          directive @ ''`: '' @ text])
      | Some parsed \<Rightarrow> Inr (SleepMs (saturating_mul parsed scale_ms)))"

text \<open>A \<open>#\<close> starts a comment at the beginning of the line and after white space; its byte is a character of its own.\<close>

fun comment_loop :: "string \<Rightarrow> nat list \<Rightarrow> string" where
  "comment_loop line [] = line"
| "comment_loop line (index # indices) =
     (if line ! index \<noteq> CHR ''#'' then comment_loop line indices
      else if index = 0 \<or> is_ascii_whitespace (line ! (index - 1)) then str_trim_end (take index line)
      else comment_loop line indices)"

definition strip_inline_comment :: "string \<Rightarrow> string" where
  "strip_inline_comment line = comment_loop line [0..<length line]"

definition normalize_raw_script_bytes :: "string \<Rightarrow> string" where
  "normalize_raw_script_bytes bytes =
     (if CHR 0x0D \<in> set bytes then bytes
      else map (\<lambda>byte. if byte = CHR 0x0A then CHR 0x0D else byte) bytes)"

text \<open>The body of the loop over the lines: the action of a line, if it has one.\<close>

definition script_line :: "string \<Rightarrow> nat \<Rightarrow> string \<Rightarrow> (SerialScriptAction option, halted) result" where
  "script_line path line_number raw_line =
     (let trimmed_line = str_trim raw_line in
      if trimmed_line = [] \<or> starts_with trimmed_line ''#'' then Inr None
      else let line = str_trim (strip_inline_comment trimmed_line) in
      if line = [] then Inr None
      else case strip_prefix ''sleep '' line of
        Some text \<Rightarrow> map_sum id Some (parse_sleep_directive path line_number ''sleep'' (str_trim text) 1)
      | None \<Rightarrow> (case strip_prefix ''sleep_ms '' line of
          Some text \<Rightarrow> map_sum id Some (parse_sleep_directive path line_number ''sleep_ms'' (str_trim text) 1)
        | None \<Rightarrow> (case strip_prefix ''sleep_s '' line of
            Some text \<Rightarrow> map_sum id Some (parse_sleep_directive path line_number ''sleep_s'' (str_trim text) 1000)
          | None \<Rightarrow> Inr (Some (Send (line @ [CHR 0x0D]))))))"

fun script_loop :: "string \<Rightarrow> nat \<Rightarrow> string list \<Rightarrow> SerialScriptAction list \<Rightarrow> (SerialScriptAction list, halted) result" where
  "script_loop path line_index [] actions = Inr actions"
| "script_loop path line_index (raw_line # lines) actions =
     (case script_line path (line_index + 1) raw_line of
        Inl h \<Rightarrow> Inl h
      | Inr None \<Rightarrow> script_loop path (line_index + 1) lines actions
      | Inr (Some action) \<Rightarrow> script_loop path (line_index + 1) lines (actions @ [action]))"

definition load_serial_script :: "(string \<Rightarrow> (string, string) result) \<Rightarrow> string \<Rightarrow> (SerialScriptAction list, halted) result" where
  "load_serial_script read_file path =
     (case read_file path of
        Inl error \<Rightarrow> Inl (fails [''failed to read serial script `'' @ path @ ''`: '' @ error])
      | Inr bytes \<Rightarrow>
          if \<not> utf8_valid bytes then Inr [Send (normalize_raw_script_bytes bytes)]
          else (case script_loop path 0 (str_lines bytes) [] of
              Inl h \<Rightarrow> Inl h
            | Inr actions \<Rightarrow>
                if actions = [] then Inl (fails [''serial script `'' @ path @ ''` has no executable actions''])
                else Inr actions))"

section \<open>The thread that forwards the output\<close>

text \<open>What a read from the child gives, and the thread's variables with what it has written.\<close>

datatype read_result = ReadOk string | ReadErr string

record forwarder =
  fw_marker_window :: string
  fw_ready_sent :: bool
  fw_signals :: nat
  fw_host_stdout :: string
  fw_stderr :: "string list"

definition forwarder_new :: forwarder where
  "forwarder_new = \<lparr>fw_marker_window = [], fw_ready_sent = False, fw_signals = 0, fw_host_stdout = [], fw_stderr = []\<rparr>"

fun scan_marker :: "string \<Rightarrow> string \<Rightarrow> string \<times> bool" where
  "scan_marker [] marker_window = (marker_window, False)"
| "scan_marker (byte # bytes) marker_window =
     (let window = (if length marker_window = length SERIAL_MONITOR_READY_MARKER then tl marker_window else marker_window) @ [byte]
      in if window = SERIAL_MONITOR_READY_MARKER then (window, True) else scan_marker bytes window)"

text \<open>Each read comes with the outcome of writing it on; the thread ends at the end of the input and on an error.\<close>

fun forward_output :: "(read_result \<times> string option) list \<Rightarrow> forwarder \<Rightarrow> forwarder" where
  "forward_output [] fw = fw"
| "forward_output ((ReadErr error, _) # reads) fw =
     fw\<lparr>fw_stderr := fw_stderr fw @ [''failed to read qemu serial output: '' @ error]\<rparr>"
| "forward_output ((ReadOk bytes, written) # reads) fw =
     (if bytes = [] then fw
      else case written of
        Some error \<Rightarrow> fw\<lparr>fw_stderr := fw_stderr fw @ [''failed to forward qemu serial output: '' @ error]\<rparr>
      | None \<Rightarrow>
          let fw = fw\<lparr>fw_host_stdout := fw_host_stdout fw @ bytes\<rparr>
          in if fw_ready_sent fw then forward_output reads fw
             else (case scan_marker bytes (fw_marker_window fw) of (window, found) \<Rightarrow>
               forward_output reads (fw\<lparr>fw_marker_window := window, fw_ready_sent := found,
                 fw_signals := fw_signals fw + (if found then 1 else 0)\<rparr>)))"

section \<open>The thread that sends the script\<close>

datatype ready_signal = Received | RecvTimeout | Disconnected

datatype host_event = ChildStdin string | Slept u64 | HostStderr string

definition marker_wait_ms :: "SerialScriptConfig \<Rightarrow> u64" where
  "marker_wait_ms config = saturating_mul (ss_delay_ms config) 5"

text \<open>The results of the writes and flushes, by their position; a failing write may have written a part.\<close>

fun send_actions :: "(nat \<Rightarrow> string option) \<Rightarrow> nat \<Rightarrow> SerialScriptAction list \<Rightarrow> host_event list" where
  "send_actions io k [] = []"
| "send_actions io k (Send bytes # actions) =
     (case io k of
        Some error \<Rightarrow> [HostStderr (''failed to write serial script action: '' @ error)]
      | None \<Rightarrow> ChildStdin bytes #
          (case io (k + 1) of
             Some error \<Rightarrow> [HostStderr (''failed to flush serial script action: '' @ error)]
           | None \<Rightarrow> send_actions io (k + 2) actions))"
| "send_actions io k (SleepMs milliseconds # actions) = Slept milliseconds # send_actions io k actions"

definition send_script ::
  "(nat \<Rightarrow> string option) \<Rightarrow> ready_signal \<Rightarrow> SerialScriptConfig \<Rightarrow> SerialScriptAction list \<Rightarrow> host_event list" where
  "send_script io ready config script_actions =
     (case ready of
        Received \<Rightarrow> []
      | RecvTimeout \<Rightarrow> [HostStderr (''monitor-ready marker not observed within '' @ fmt_dec (marker_wait_ms config) @
          '' ms; sending script anyway'')]
      | Disconnected \<Rightarrow> [HostStderr ''serial output stream closed before ready marker; sending script anyway'']) @
     send_actions io 0 script_actions"

section \<open>The main function\<close>

definition process_code :: "int option \<Rightarrow> nat" where
  "process_code status =
     (let code = (case status of Some c \<Rightarrow> c | None \<Rightarrow> 1)
      in if code = 0x10 \<or> code = 0x21 then 0 else if code = 0x11 \<or> code = 0x23 then 1 else 2)"

text \<open>
  What the program is built and run with: the disk images, the OVMF files (if the package can fetch
  them), the files, whether QEMU starts and with which pipes, and the status it ends with, if waiting for
  it works.
\<close>

record host =
  ho_uefi_path :: string
  ho_bios_path :: string
  ho_ovmf :: "(string \<times> string) option"
  ho_read_file :: "string \<Rightarrow> (string, string) result"
  ho_spawns :: "string list \<Rightarrow> bool"
  ho_child_stdin :: bool
  ho_child_stdout :: bool
  ho_wait :: "int option option"

text \<open>What the program starts before it ends: QEMU with its arguments, and the script for the sending thread.\<close>

record launched =
  la_qemu :: "string list option"
  la_script :: "(SerialScriptConfig \<times> SerialScriptAction list) option"

definition wait_for_child :: "host \<Rightarrow> halted" where
  "wait_for_child H =
     (case ho_wait H of
        None \<Rightarrow> host_panics ''failed to wait for qemu''
      | Some status \<Rightarrow> \<lparr>ha_code = process_code status, ha_stdout = [], ha_stderr = []\<rparr>)"

definition start_threads :: "host \<Rightarrow> SerialScriptConfig \<Rightarrow> string list \<Rightarrow> launched \<times> halted" where
  "start_threads H config arguments =
     (let started = \<lparr>la_qemu = Some arguments, la_script = None\<rparr> in
      if \<not> ho_child_stdout H then (started, fails [''serial script requested, but child stdout is unavailable''])
      else case load_serial_script (ho_read_file H) (ss_path config) of
        Inl h \<Rightarrow> (started, h)
      | Inr script_actions \<Rightarrow>
          if \<not> ho_child_stdin H then (started, fails [''serial script requested, but child stdin is unavailable''])
          else (started\<lparr>la_script := Some (config, script_actions)\<rparr>, wait_for_child H))"

definition launch :: "host \<Rightarrow> string list \<Rightarrow> launched \<times> halted" where
  "launch H args =
     (let nothing = \<lparr>la_qemu = None, la_script = None\<rparr> in
      case args of
        [] \<Rightarrow> (nothing, host_panics ''index out of bounds: the len is 0 but the index is 0'')
      | program # rest \<Rightarrow> (case parse_args program rest no_options of
          Inl h \<Rightarrow> (nothing, h)
        | Inr opts \<Rightarrow> (case lo_use_uefi opts of
            None \<Rightarrow> (nothing, fails [print_usage program])
          | Some use_uefi \<Rightarrow>
              if use_uefi \<and> ho_ovmf H = None then (nothing, host_panics ''failed to fetch OVMF images'')
              else
                let arguments = qemu_arguments opts @
                  drive_arguments use_uefi (ho_uefi_path H) (ho_bios_path H) (case ho_ovmf H of Some files \<Rightarrow> files | None \<Rightarrow> ([], []))
                in if \<not> ho_spawns H arguments then (nothing, host_panics ''failed to start qemu-system-x86_64'')
                   else (case serial_script opts of
                       None \<Rightarrow> (\<lparr>la_qemu = Some arguments, la_script = None\<rparr>, wait_for_child H)
                     | Some config \<Rightarrow> start_threads H config arguments))))"

section \<open>The ready marker\<close>

text \<open>The window holds the last bytes of the output, as many as the marker has.\<close>

definition window_of :: "string \<Rightarrow> string" where
  "window_of t = drop (length t - length SERIAL_MONITOR_READY_MARKER) t"

lemma window_of_step:
  "(if length (window_of t) = length SERIAL_MONITOR_READY_MARKER then tl (window_of t) else window_of t) @ [b] = window_of (t @ [b])"
proof (cases "length SERIAL_MONITOR_READY_MARKER \<le> length t")
  case True
  then have "length (window_of t) = length SERIAL_MONITOR_READY_MARKER" by (simp add: window_of_def)
  moreover have "Suc 0 - length SERIAL_MONITOR_READY_MARKER = 0" by (simp add: SERIAL_MONITOR_READY_MARKER_def)
  ultimately show ?thesis using True by (simp add: window_of_def tl_drop drop_Suc Suc_diff_le)
qed (simp add: window_of_def)

lemma window_of_marker: "window_of t = SERIAL_MONITOR_READY_MARKER \<longleftrightarrow> suffix SERIAL_MONITOR_READY_MARKER t"
  by (auto simp: window_of_def suffix_def) (metis append_take_drop_id)

lemma sublist_append_keeps: "sublist m t \<Longrightarrow> sublist m (t @ u)"
  using sublist_append by blast

lemma scan_marker_finds:
  assumes "\<not> sublist SERIAL_MONITOR_READY_MARKER t"
  shows "snd (scan_marker bs (window_of t)) \<longleftrightarrow> sublist SERIAL_MONITOR_READY_MARKER (t @ bs)"
    and "\<not> snd (scan_marker bs (window_of t)) \<Longrightarrow> fst (scan_marker bs (window_of t)) = window_of (t @ bs)"
proof -
  have "(snd (scan_marker bs (window_of t)) \<longleftrightarrow> sublist SERIAL_MONITOR_READY_MARKER (t @ bs)) \<and>
    (\<not> snd (scan_marker bs (window_of t)) \<longrightarrow> fst (scan_marker bs (window_of t)) = window_of (t @ bs))"
    using assms
  proof (induction bs arbitrary: t)
    case Nil
    then show ?case by simp
  next
    case (Cons b bs)
    show ?case
    proof (cases "suffix SERIAL_MONITOR_READY_MARKER (t @ [b])")
      case True
      then have "sublist SERIAL_MONITOR_READY_MARKER ((t @ [b]) @ bs)" by (intro sublist_append_keeps suffix_imp_sublist)
      with True show ?thesis by (simp add: Let_def window_of_step window_of_marker)
    next
      case False
      with Cons.prems have "\<not> sublist SERIAL_MONITOR_READY_MARKER (t @ [b])" by (simp add: sublist_snoc)
      from Cons.IH[OF this] False show ?thesis by (simp add: Let_def window_of_step window_of_marker del: suffix_snoc)
    qed
  qed
  then show "snd (scan_marker bs (window_of t)) \<longleftrightarrow> sublist SERIAL_MONITOR_READY_MARKER (t @ bs)"
    "\<not> snd (scan_marker bs (window_of t)) \<Longrightarrow> fst (scan_marker bs (window_of t)) = window_of (t @ bs)" by auto
qed

text \<open>The reads that arrive and are written on without an error.\<close>

abbreviation chunks_read :: "string list \<Rightarrow> (read_result \<times> string option) list" where
  "chunks_read chunks \<equiv> map (\<lambda>c. (ReadOk c, None)) chunks"

lemma forward_after_marker:
  "fw_ready_sent fw \<Longrightarrow> list_all (\<lambda>c. c \<noteq> []) chunks \<Longrightarrow>
   forward_output (chunks_read chunks) fw = fw\<lparr>fw_host_stdout := fw_host_stdout fw @ concat chunks\<rparr>"
  by (induction chunks arbitrary: fw) (simp_all add: Let_def)

lemma forward_before_marker:
  assumes "\<not> fw_ready_sent fw" "fw_marker_window fw = window_of t" "\<not> sublist SERIAL_MONITOR_READY_MARKER t" "list_all (\<lambda>c. c \<noteq> []) chunks"
  shows "\<exists>w. forward_output (chunks_read chunks) fw = fw\<lparr>fw_marker_window := w,
     fw_ready_sent := sublist SERIAL_MONITOR_READY_MARKER (t @ concat chunks),
     fw_signals := fw_signals fw + (if sublist SERIAL_MONITOR_READY_MARKER (t @ concat chunks) then 1 else 0),
     fw_host_stdout := fw_host_stdout fw @ concat chunks\<rparr>"
  using assms
proof (induction chunks arbitrary: t fw)
  case Nil
  then show ?case by (intro exI[of _ "fw_marker_window fw"]) simp
next
  case (Cons c chunks)
  obtain w found where scan: "scan_marker c (window_of t) = (w, found)" by (cases "scan_marker c (window_of t)")
  note found = scan_marker_finds[OF Cons.prems(3), of c, unfolded scan]
  define fw1 where "fw1 = fw\<lparr>fw_host_stdout := fw_host_stdout fw @ c, fw_marker_window := w, fw_ready_sent := found,
    fw_signals := fw_signals fw + (if found then 1 else 0)\<rparr>"
  have step: "forward_output (chunks_read (c # chunks)) fw = forward_output (chunks_read chunks) fw1"
    using Cons.prems scan by (simp add: Let_def fw1_def)
  show ?case
  proof (cases found)
    case True
    with found(1) sublist_append_keeps[of _ "t @ c" "concat chunks"]
    have "sublist SERIAL_MONITOR_READY_MARKER (t @ concat (c # chunks))" by simp
    with True forward_after_marker[of fw1 chunks] Cons.prems(4) show ?thesis
      unfolding step by (intro exI[of _ w]) (simp add: fw1_def)
  next
    case False
    then have "\<not> fw_ready_sent fw1" "fw_marker_window fw1 = window_of (t @ c)" "\<not> sublist SERIAL_MONITOR_READY_MARKER (t @ c)"
      using found by (simp_all add: fw1_def)
    from Cons.IH[OF this] Cons.prems(4) obtain w' where "forward_output (chunks_read chunks) fw1 = fw1\<lparr>fw_marker_window := w',
      fw_ready_sent := sublist SERIAL_MONITOR_READY_MARKER ((t @ c) @ concat chunks),
      fw_signals := fw_signals fw1 + (if sublist SERIAL_MONITOR_READY_MARKER ((t @ c) @ concat chunks) then 1 else 0),
      fw_host_stdout := fw_host_stdout fw1 @ concat chunks\<rparr>" by auto
    with False show ?thesis unfolding step by (intro exI[of _ w']) (simp add: fw1_def)
  qed
qed

text \<open>
  C13. The launcher notices the ready marker however the output is cut into reads: after any sequence of
  non-empty reads everything has been written on unchanged, and the signal to send the script has been
  given exactly once if the marker occurs in the output, across the boundaries of reads too, and not at
  all otherwise.
\<close>

theorem ready_marker_detected:
  assumes "list_all (\<lambda>c. c \<noteq> []) chunks"
  shows "fw_host_stdout (forward_output (chunks_read chunks) forwarder_new) = concat chunks \<and>
    fw_stderr (forward_output (chunks_read chunks) forwarder_new) = [] \<and>
    fw_signals (forward_output (chunks_read chunks) forwarder_new) =
      (if sublist SERIAL_MONITOR_READY_MARKER (concat chunks) then 1 else 0)"
proof -
  have "\<not> sublist SERIAL_MONITOR_READY_MARKER []" by (simp add: SERIAL_MONITOR_READY_MARKER_def)
  with forward_before_marker[of forwarder_new "[]" chunks] assms show ?thesis
    by (auto simp: forwarder_new_def window_of_def)
qed

theorem ready_marker_detected_witness:
  "fw_signals (forward_output (chunks_read [''boot [[JINGOS_'', ''MONITOR_READY]'', '']ok'']) forwarder_new) = 1"
proof -
  have "sublist SERIAL_MONITOR_READY_MARKER (concat [''boot [[JINGOS_'', ''MONITOR_READY]'', '']ok''])"
    by (simp add: SERIAL_MONITOR_READY_MARKER_def sublist_Cons_right)
  with ready_marker_detected[of "[''boot [[JINGOS_'', ''MONITOR_READY]'', '']ok'']"] show ?thesis by simp
qed

section \<open>Scripts of commands\<close>

text \<open>A printable ASCII line without blanks around it, without a comment and not a directive.\<close>

definition graphic :: "char \<Rightarrow> bool" where
  "graphic c \<longleftrightarrow> char_between 0x21 0x7E c"

definition command_line :: "string \<Rightarrow> bool" where
  "command_line c \<longleftrightarrow> c \<noteq> [] \<and> list_all (char_between 0x20 0x7E) c \<and> graphic (hd c) \<and> graphic (last c) \<and>
     (\<forall>i < length c. c ! i = CHR ''#'' \<longrightarrow> 0 < i \<and> c ! (i - 1) \<noteq> CHR 0x20) \<and>
     strip_prefix ''sleep '' c = None \<and> strip_prefix ''sleep_ms '' c = None \<and> strip_prefix ''sleep_s '' c = None"

lemma whitespace_ends:
  assumes "w \<in> set unicode_whitespace"
  shows "\<not> graphic (hd w)" "\<not> graphic (last w)"
proof -
  have "list_all (\<lambda>w. \<not> graphic (hd w) \<and> \<not> graphic (last w)) unicode_whitespace"
    by (simp add: unicode_whitespace_def graphic_def char_between_def upt_rec char_of_def)
  with assms show "\<not> graphic (hd w)" "\<not> graphic (last w)" by (auto simp: list_all_iff)
qed

lemma trim_start_graphic:
  assumes "c \<noteq> []" "graphic (hd c)"
  shows "str_trim_start c = c"
proof -
  have "\<not> starts_with c w" if "w \<in> set unicode_whitespace" for w
    using assms whitespace_ends(1)[OF that] unicode_whitespace_nonempty[OF that]
    by (cases w; cases c) (auto simp: starts_with_def)
  then have "find (starts_with c) unicode_whitespace = None" by (simp add: find_None_iff)
  then show ?thesis by (subst str_trim_start.simps) simp
qed

lemma trim_end_graphic:
  assumes "c \<noteq> []" "graphic (last c)"
  shows "str_trim_end c = c"
proof -
  have "\<not> ends_with c w" if "w \<in> set unicode_whitespace" for w
  proof
    assume "ends_with c w"
    then have "last (drop (length c - length w) c) = last w" "drop (length c - length w) c \<noteq> []"
      using unicode_whitespace_nonempty[OF that] by (auto simp: ends_with_def)
    then have "last c = last w" by simp
    with assms(2) whitespace_ends(2)[OF that] show False by simp
  qed
  then have "find (ends_with c) unicode_whitespace = None" by (simp add: find_None_iff)
  then show ?thesis by (subst str_trim_end.simps) simp
qed

lemma trim_command: "command_line c \<Longrightarrow> str_trim c = c"
  by (simp add: command_line_def str_trim_def trim_start_graphic trim_end_graphic)

lemma printable_whitespace:
  assumes "char_between 0x20 0x7E x" "is_ascii_whitespace x"
  shows "x = CHR 0x20"
proof -
  have "(of_char x :: nat) = 32" using assms by (auto simp: is_ascii_whitespace_def char_between_def)
  then have "x = char_of (32 :: nat)" by (metis char_of_char)
  moreover have "(char_of (32 :: nat) :: char) = CHR 0x20" by code_simp
  ultimately show ?thesis by simp
qed

lemma no_comment:
  assumes "command_line c" "set is \<subseteq> {..<length c}"
  shows "comment_loop c is = c"
  using assms(2)
proof (induction "is")
  case (Cons i "is")
  have "\<not> is_ascii_whitespace (c ! (i - 1))" if "c ! i = CHR ''#''"
  proof -
    have "0 < i" "c ! (i - 1) \<noteq> CHR 0x20" "char_between 0x20 0x7E (c ! (i - 1))" "i < length c"
      using assms(1) that Cons.prems by (auto simp: command_line_def list_all_length)
    then show ?thesis using printable_whitespace by blast
  qed
  with Cons assms(1) show ?case by (auto simp: command_line_def)
qed simp

lemma script_line_command:
  assumes "command_line c"
  shows "script_line path n c = Inr (Some (Send (c @ [CHR 0x0D])))"
proof -
  have "\<not> starts_with c ''#''"
    using assms by (cases c) (auto simp: starts_with_def command_line_def)
  moreover have "strip_inline_comment c = c"
    unfolding strip_inline_comment_def by (rule no_comment[OF assms]) auto
  ultimately show ?thesis
    using assms by (simp add: script_line_def Let_def trim_command) (simp add: command_line_def)
qed

lemma script_loop_commands:
  "list_all command_line cs \<Longrightarrow> script_loop path k cs as = Inr (as @ map (\<lambda>c. Send (c @ [CHR 0x0D])) cs)"
  by (induction cs arbitrary: k as) (simp_all add: script_line_command)

text \<open>The text of a script: its lines, each ended by a line feed, with or without a carriage return.\<close>

definition script_text :: "bool \<Rightarrow> string list \<Rightarrow> string" where
  "script_text cr cs = concat (map (\<lambda>c. c @ (if cr then [CHR 0x0D, CHR 0x0A] else [CHR 0x0A])) cs)"

lemma str_lines_step:
  assumes "CHR 0x0A \<notin> set l"
  shows "str_lines (l @ CHR 0x0A # rest) = strip_cr l # str_lines rest"
proof -
  have "takeWhile (\<lambda>c. c \<noteq> CHR 0x0A) (l @ CHR 0x0A # rest) = l" "dropWhile (\<lambda>c. c \<noteq> CHR 0x0A) (l @ CHR 0x0A # rest) = CHR 0x0A # rest"
    using assms by (induction l) auto
  then show ?thesis by (subst str_lines.simps) (simp add: Let_def)
qed

lemma command_chars:
  assumes "command_line c"
  shows "CHR 0x0A \<notin> set c" "strip_cr c = c" "list_all is_ascii c"
  using assms by (auto simp: command_line_def list_all_iff char_between_def strip_cr_def is_ascii_def graphic_def)

lemma str_lines_script: "list_all command_line cs \<Longrightarrow> str_lines (script_text cr cs) = cs"
proof (induction cs)
  case Nil
  then show ?case by (simp add: script_text_def str_lines.simps)
next
  case (Cons c cs)
  note chars = command_chars[of c]
  have "script_text cr (c # cs) = (c @ (if cr then [CHR 0x0D] else [])) @ CHR 0x0A # script_text cr cs"
    by (simp add: script_text_def)
  moreover have "strip_cr (c @ [CHR 0x0D]) = c" by (simp add: strip_cr_def)
  ultimately show ?case
    using Cons chars str_lines_step[of "c @ (if cr then [CHR 0x0D] else [])" "script_text cr cs"] by (auto split: if_splits)
qed

lemma load_command_script:
  assumes "cs \<noteq> []" "list_all command_line cs" "read_file path = Inr (script_text cr cs)"
  shows "load_serial_script read_file path = Inr (map (\<lambda>c. Send (c @ [CHR 0x0D])) cs)"
proof -
  have "list_all is_ascii (script_text cr cs)"
    using assms(2) command_chars(3) by (auto simp: script_text_def list_all_iff is_ascii_def split: if_splits)
  then show ?thesis
    using assms by (simp add: load_serial_script_def ascii_utf8 str_lines_script script_loop_commands)
qed

lemma send_all: "send_actions (\<lambda>_. None) k (map Send bs) = map ChildStdin bs"
  by (induction bs arbitrary: k) simp_all

section \<open>Options\<close>

definition render_options :: "launch_options \<Rightarrow> string list" where
  "render_options opts =
     (case lo_use_uefi opts of None \<Rightarrow> [] | Some uefi \<Rightarrow> [if uefi then ''uefi'' else ''bios'']) @
     (if lo_show_display opts then [''--show''] else [''--headless'']) @
     (if lo_serial_only opts then [''--serial-only''] else []) @
     (case lo_serial_script_path opts of None \<Rightarrow> [] | Some path \<Rightarrow> [''--serial-script'', path]) @
     (case lo_serial_delay_ms opts of None \<Rightarrow> [] | Some ms \<Rightarrow> [''--serial-delay-ms'', fmt_dec ms])"

lemma parse_dec_fmt: "from_str_radix 10 (fmt_dec w) = Some w"
proof -
  have "hd (fmt_radix 10 (unat w)) \<noteq> CHR ''+''"
    using fmt_radix_digits[of 10 "unat w"] by (cases "fmt_radix 10 (unat w)") (auto simp: to_digit_def char_between_def)
  then show ?thesis
    using unat_less_2p[of w] by (simp add: from_str_radix_bounded fmt_dec_def fmt_nat_def digits_value_fmt bounded_def)
qed

text \<open>
  Options written on the command line are the options the launcher works with: every combination of
  boot mode, display, serial mode, script file and delay that the program can represent (a script implies
  the serial-only mode) is parsed back from its command line.
\<close>

lemma options_round_trip:
  assumes "lo_serial_script_path opts \<noteq> None \<longrightarrow> lo_serial_only opts"
  shows "parse_args program (render_options opts) no_options = Inr opts"
  using assms
  by (cases "lo_use_uefi opts"; cases "lo_serial_script_path opts"; cases "lo_serial_delay_ms opts")
    (auto simp: render_options_def no_options_def parse_u64_option_def parse_dec_fmt)

end
