(* ===== verification/Keyboard_Typing.thy ===== *)
theory Keyboard_Typing
  imports Monitor_Progress
begin

text \<open>
  A line typed on the keyboard, from the interrupts to the command. The key strokes of a text and of Enter
  arrive as keyboard interrupts while the monitor runs its loop and the timer ticks, in any order:
  between two interrupts the monitor may take no step, empty its queue or go to sleep in \<open>hlt\<close>. The invariant
  relates the strokes delivered so far to what has been decoded and to what waits in the queue.
\<close>

section \<open>Strokes and events\<close>

definition line_strokes :: "string \<Rightarrow> u8 list" where
  "line_strokes text = concat (map type_char text) @ [0x1C, 0x9C]"

text \<open>Interrupts and steps of the monitor without input on the serial port.\<close>

fun keyboard_only :: "monitor_event \<Rightarrow> bool" where
  "keyboard_only (StepEvent polled) = (polled = None)"
| "keyboard_only (UserExitEvent registers c) = False"
| "keyboard_only _ = True"

fun ticks_in :: "monitor_event list \<Rightarrow> nat" where
  "ticks_in [] = 0"
| "ticks_in (TimerEvent # es) = Suc (ticks_in es)"
| "ticks_in (_ # es) = ticks_in es"

lemma scancodes_in_append [simp]: "scancodes_in (es @ fs) = scancodes_in es @ scancodes_in fs"
  by (induction es rule: scancodes_in.induct) simp_all

lemma ticks_in_append [simp]: "ticks_in (es @ fs) = ticks_in es + ticks_in fs"
  by (induction es rule: ticks_in.induct) simp_all

lemma enter_stroke: "feed_all [0x1C, 0x9C] decoder_new = ([Key_Enter], decoder_new)" "feed_all [0x1C] decoder_new = ([Key_Enter], decoder_new)"
  by code_simp+

lemma line_strokes_typed:
  assumes "list_all Keyboard.printable text"
  shows "feed_all (line_strokes text) decoder_new = (map Key_Char text @ [Key_Enter], decoder_new)"
  using printable_text_typed[OF assms] by (simp add: line_strokes_def feed_all_append enter_stroke del: feed_all.simps)

text \<open>Every key of the text has a press and a release.\<close>

lemma printable_chars_strokes: "list_all (\<lambda>c. 2 \<le> length (type_char c)) printable_chars"
  by code_simp

lemma line_strokes_length: "list_all Keyboard.printable cs \<Longrightarrow> 2 * length cs + 2 \<le> length (line_strokes cs)"
proof (induction cs)
  case (Cons c cs)
  then have "2 \<le> length (type_char c)" using of_char_in_range[of c] printable_chars_strokes by (simp add: list_all_iff)
  with Cons show ?case by (simp add: line_strokes_def)
qed (simp add: line_strokes_def)

lemma feed_all_prefix: "feed_all (xs @ ys) d = (es, d') \<Longrightarrow> \<exists>fs. es = fst (feed_all xs d) @ fs"
  by (auto simp: feed_all_append Let_def split_beta)

lemma feed_all_snoc:
  "feed_all (xs @ [sc]) d = (fst (feed_all xs d) @ (case fst (feed sc (snd (feed_all xs d))) of None \<Rightarrow> [] | Some e \<Rightarrow> [e]),
     snd (feed sc (snd (feed_all xs d))))"
  by (simp add: feed_all_append Let_def split_beta split: option.split)

section \<open>The state while a line is typed\<close>

definition keys_only :: "'m monitor \<Rightarrow> 'm monitor \<Rightarrow> bool" where
  "keys_only s s' \<longleftrightarrow> s' = s\<lparr>mo_interrupts := mo_interrupts s', mo_decoder := mo_decoder s', mo_console := mo_console s',
     mo_deadline := mo_deadline s', mo_decoded_events := mo_decoded_events s', mo_line := mo_line s',
     mo_history := mo_history s', mo_rendered_len := mo_rendered_len s'\<rparr>"

lemma keys_only_refl [simp]: "keys_only s s"
  by (simp add: keys_only_def)

lemma keys_only_trans:
  assumes "keys_only s s1" "keys_only s1 s2"
  shows "keys_only s s2"
proof -
  have "s2 = s1\<lparr>mo_interrupts := mo_interrupts s2, mo_decoder := mo_decoder s2, mo_console := mo_console s2,
     mo_deadline := mo_deadline s2, mo_decoded_events := mo_decoded_events s2, mo_line := mo_line s2,
     mo_history := mo_history s2, mo_rendered_len := mo_rendered_len s2\<rparr>"
    using assms(2) by (simp add: keys_only_def)
  also have "\<dots> = s\<lparr>mo_interrupts := mo_interrupts s2, mo_decoder := mo_decoder s2, mo_console := mo_console s2,
     mo_deadline := mo_deadline s2, mo_decoded_events := mo_decoded_events s2, mo_line := mo_line s2,
     mo_history := mo_history s2, mo_rendered_len := mo_rendered_len s2\<rparr>"
    by (subst assms(1)[unfolded keys_only_def]) simp
  finally show ?thesis by (simp add: keys_only_def)
qed

lemma keys_only_steps:
  "input_only s s' \<Longrightarrow> keys_only s s'" "keys_only s (s\<lparr>mo_interrupts := st\<rparr>)" "keys_only s (s\<lparr>mo_decoder := d\<rparr>)"
proof -
  show "input_only s s' \<Longrightarrow> keys_only s s'"
    unfolding input_only_def keys_only_def by (erule ssubst) simp
qed (simp_all add: keys_only_def)

lemma keys_only_keeps:
  assumes "keys_only s s'"
  shows "mo_overwrite_mode s' = mo_overwrite_mode s" "mo_context s' = mo_context s" "mo_auto s' = mo_auto s"
  by (subst assms[unfolded keys_only_def], simp)+

abbreviation queue :: "'m monitor \<Rightarrow> ScancodeBuffer" where
  "queue s \<equiv> is_scancodes (mo_interrupts s)"

text \<open>
  After \<open>k\<close> of at most \<open>n\<close> ticks the line holds \<open>t\<close>, the window is open for the ticks to come, and
  nothing but the input's own variables has changed.
\<close>

definition typed_so_far :: "'m monitor \<Rightarrow> nat \<Rightarrow> nat \<Rightarrow> string \<Rightarrow> 'm monitor \<Rightarrow> bool" where
  "typed_so_far s0 n k t s \<longleftrightarrow> keys_only s0 s \<and> scancode_inv (queue s) \<and> line_ok (mo_line s) \<and> line_view (mo_line s) = (t, []) \<and>
     hist_ok (mo_history s) \<and> fst (hist_view (mo_history s)) = fst (hist_view (mo_history s0)) \<and>
     unat (mo_decoded_events s) = unat (mo_decoded_events s0) + length t \<and>
     unat (mo_ticks s) = unat (mo_ticks s0) + k \<and> unat (mo_ticks s0) + n < unat (mo_deadline s)"

definition keyed :: "'m monitor \<Rightarrow> nat \<Rightarrow> nat \<Rightarrow> u8 list \<Rightarrow> 'm monitor \<Rightarrow> bool" where
  "keyed s0 n k codes s \<longleftrightarrow> (\<exists>consumed t. codes = consumed @ scancode_contents (queue s) \<and>
     feed_all consumed decoder_new = (map Key_Char t, mo_decoder s) \<and> typed_so_far s0 n k t s)"

lemma typed_timer:
  assumes "typed_so_far s0 n k t s" "k < n"
  shows "typed_so_far s0 n (Suc k) t (ticked s)"
proof -
  have "unat (mo_ticks s) + 1 < 2 ^ 64" using assms unat_less_2p[of "mo_deadline s"] by (simp add: typed_so_far_def)
  then have "unat (mo_ticks s + 1) = unat (mo_ticks s) + 1" by (simp add: unat_word_ariths)
  moreover have "keys_only s0 (ticked s)"
    using assms(1) keys_only_trans[OF _ keys_only_steps(2)] unfolding typed_so_far_def ticked_def by blast
  ultimately show ?thesis using assms(1) by (simp add: typed_so_far_def ticked_fields) (simp add: ticked_def)
qed

lemma typed_interrupts:
  assumes "typed_so_far s0 n k t s" "scancode_inv (is_scancodes st)" "is_ticks st = is_ticks (mo_interrupts s)"
  shows "typed_so_far s0 n k t (s\<lparr>mo_interrupts := st\<rparr>)"
  using assms keys_only_trans[OF _ keys_only_steps(2)] by (auto simp: typed_so_far_def mo_ticks_def)

lemma typed_decoder:
  "typed_so_far s0 n k t s \<Longrightarrow> typed_so_far s0 n k t (s\<lparr>mo_decoder := d\<rparr>)"
  using keys_only_trans[OF _ keys_only_steps(3)] by (auto simp: typed_so_far_def mo_ticks_def)

lemma typed_push:
  assumes "typed_so_far s0 n k t s" "sb_len (queue s) < SCANCODE_BUFFER_SIZE"
  shows "\<exists>st. keyboard_interrupt_handler sc (mo_interrupts s) = Ret st \<and> typed_so_far s0 n k t (s\<lparr>mo_interrupts := st\<rparr>) \<and>
    scancode_contents (is_scancodes st) = scancode_contents (queue s) @ [sc]"
proof -
  obtain b where b: "scancode_push sc (queue s) = Ret b" "scancode_inv b" "scancode_contents b = scancode_contents (queue s) @ [sc]"
    using scancode_push_room[OF _ assms(2)] assms(1) by (auto simp: typed_so_far_def)
  then show ?thesis
    using typed_interrupts[OF assms(1)] by (auto simp: keyboard_interrupt_handler_def device_def)
qed

lemma typed_pop:
  assumes "typed_so_far s0 n k t s" "scancode_contents (queue s) = sc # rest"
  shows "\<exists>st. pop_scancode (mo_interrupts s) = Ret (Some sc, st) \<and> typed_so_far s0 n k t (s\<lparr>mo_interrupts := st\<rparr>) \<and>
    scancode_contents (is_scancodes st) = rest"
proof -
  have "0 < sb_len (queue s)" using assms(2) length_scancode_contents[of "queue s"] by simp
  then obtain b where b: "scancode_pop (queue s) = Ret (Some sc, b)" "scancode_inv b" "scancode_contents b = rest"
    using scancode_pop_first[of "queue s"] assms by (auto simp: typed_so_far_def)
  then show ?thesis using typed_interrupts[OF assms(1)] by (auto simp: pop_scancode_def)
qed

lemma typed_char:
  assumes ty: "typed_so_far s0 n k t s" and "\<not> mo_overwrite_mode s0" "is_ascii c" "length t < INPUT_LINE_MAX"
    and "unat (mo_decoded_events s0) + length t + 1 < 2 ^ 64" "n < 800"
  shows "\<exists>s'. on_event E code (Key_Char c) s = Ret (Done (), s') \<and> typed_so_far s0 n k (t @ [c]) s' \<and>
    mo_interrupts s' = mo_interrupts s \<and> mo_decoder s' = mo_decoder s"
proof -
  have n: "unat (mo_decoded_events s) + 1 < 2 ^ 64" using ty assms(5) by (simp add: typed_so_far_def)
  have n': "unat (mo_decoded_events s + 1) = unat (mo_decoded_events s) + 1" using n by (simp add: unat_word_ariths)
  have "\<not> mo_overwrite_mode s" using ty assms(2) keys_only_keeps(1) by (auto simp: typed_so_far_def)
  then obtain s' where s': "handle_key_event E code (Key_Char c) (counted s) = Ret (Done False, s')" "input_only (counted s) s'"
    "line_ok (mo_line s')" "line_view (mo_line s') = (t @ [c], [])" "hist_ok (mo_history s')"
    "fst (hist_view (mo_history s')) = fst (hist_view (mo_history s))" "mo_decoded_events s' = mo_decoded_events s + 1"
    "mo_deadline s' = saturating_add (mo_ticks s) INPUT_WINDOW_TICKS"
    using char_key_run[of "counted s" t c E code] ty assms(3,4) by (auto simp: typed_so_far_def counted_def)
  have io: "input_only s s'" using input_only_counted s'(2) input_only_trans by metis
  have keep: "mo_interrupts s' = mo_interrupts s" by (rule input_only_keeps(3)[OF io])
  have "mo_decoder s' = mo_decoder s" by (subst io[unfolded input_only_def]) simp
  moreover have "unat (mo_ticks s0) + n < unat (mo_deadline s')"
    using ty assms(6) unat_less_2p[of "mo_deadline s"]
    by (simp add: s'(8) unat_saturating_add INPUT_WINDOW_TICKS_def typed_so_far_def)
  moreover have "keys_only s0 s'" using ty keys_only_trans[OF _ keys_only_steps(1)[OF io]] by (simp add: typed_so_far_def)
  ultimately show ?thesis
    using on_event_stays[OF n s'(1)] s'(3-7) ty keep n' by (auto simp: typed_so_far_def mo_ticks_def)
qed

lemma typed_tail:
  assumes "typed_so_far s0 n k t s" "k \<le> n" "\<not> am_enabled (mo_auto s0)"
  shows "loop_tail E s = Ret (Done (), s)"
proof -
  have "\<not> am_enabled (mo_auto s)" using assms keys_only_keeps(3)[of s0 s] by (simp add: typed_so_far_def)
  moreover have "\<not> mo_deadline s \<le> mo_ticks s" using assms by (simp add: typed_so_far_def word_le_nat_alt)
  ultimately show ?thesis by (simp add: loop_tail_def maybe_run_def mon_run)
qed

section \<open>One event\<close>

text \<open>What has been decoded is a part of the text, and what comes next is its next character or, after the last one, Enter.\<close>

lemma next_key:
  "map Key_Char cs @ [Key_Enter] = map Key_Char t @ e # fs \<Longrightarrow> t = cs \<and> e = Key_Enter \<or> (\<exists>c cs'. cs = t @ c # cs' \<and> e = Key_Char c)"
proof (induction t arbitrary: cs)
  case Nil
  then show ?case by (cases cs) auto
next
  case (Cons a t)
  then obtain cs1 where "cs = a # cs1" by (cases cs) auto
  with Cons show ?case by auto
qed

lemma next_event:
  assumes "line_strokes cs = xs @ sc # ys" "list_all Keyboard.printable cs" "feed_all xs decoder_new = (map Key_Char t, d)" "feed sc d = (Some e, d')"
  shows "t = cs \<and> e = Key_Enter \<or> (\<exists>c cs'. cs = t @ c # cs' \<and> e = Key_Char c)"
proof -
  have "fst (feed_all (xs @ [sc]) decoder_new) = map Key_Char t @ [e]" using assms(3,4) by (simp add: feed_all_snoc)
  then obtain fs where "map Key_Char cs @ [Key_Enter] = map Key_Char t @ e # fs"
    using feed_all_prefix[of "xs @ [sc]" ys decoder_new] line_strokes_typed[OF assms(2)] assms(1) by auto
  then show ?thesis by (rule next_key)
qed

lemma printable_ascii: "Keyboard.printable c \<Longrightarrow> is_ascii c"
  by (simp add: Keyboard.printable_def is_ascii_def)

lemma pop_run:
  assumes "pop_scancode (mo_interrupts s) = Ret (Some sc, st)" "feed sc (mo_decoder s) = (e, d)"
  shows "scancode_iteration E s = then_mon (case e of None \<Rightarrow> ret_mon () | Some event \<Rightarrow> on_event E sc event) (ret_mon True)
    (s\<lparr>mo_interrupts := st, mo_decoder := d\<rparr>)"
  using assms by (simp add: scancode_iteration_def bind_mon_def act_def)

text \<open>The conditions on the first state, on the text and on the number of ticks.\<close>

definition line_typable :: "'m monitor \<Rightarrow> nat \<Rightarrow> string \<Rightarrow> bool" where
  "line_typable s0 n cs \<longleftrightarrow> list_all Keyboard.printable cs \<and> length (line_strokes cs) \<le> SCANCODE_BUFFER_SIZE \<and> n < 800 \<and>
     \<not> mo_overwrite_mode s0 \<and> \<not> am_enabled (mo_auto s0) \<and> unat (mo_decoded_events s0) + length cs + 1 < 2 ^ 64"

definition enters :: "'m monitor_env \<Rightarrow> 'm monitor \<Rightarrow> string \<Rightarrow> 'm monitor \<Rightarrow> bool" where
  "enters E s0 cs s \<longleftrightarrow> (\<exists>s'. machine_step E (StepEvent None) (ScancodeLoop, s) = run_mon (\<lambda>_. ScancodeLoop) (run_line E (mo_context s0) cs) s' \<and>
     keys_only s0 s' \<and> fst (hist_view (mo_history s')) = fst (snd (spec_history (HistPush cs) (hist_view (mo_history s0)))))"

lemma run_mon_more: "run_mon (\<lambda>b. if b then ph else ph') (then_mon m (ret_mon True)) s = run_mon (\<lambda>_. ph) m s"
  by (cases "m s") (auto simp: run_mon_def bind_mon_def ret_mon_def next_phase_def split: flow.split)

lemma push_texts: "fst v = fst v' \<Longrightarrow> fst (snd (spec_history (HistPush t) v)) = fst (snd (spec_history (HistPush t) v'))"
  by (cases v; cases v') simp

lemma scancode_step:
  assumes key: "keyed s0 n k codes s" and cs: "line_typable s0 n cs" "line_strokes cs = codes @ rem"
  shows "(\<exists>ph s'. machine_step E (StepEvent None) (ScancodeLoop, s) = Ret (ph, s') \<and> ph \<in> {ScancodeLoop, SerialLoop} \<and> keyed s0 n k codes s') \<or>
    enters E s0 cs s"
proof -
  obtain consumed t where k: "codes = consumed @ scancode_contents (queue s)" "feed_all consumed decoder_new = (map Key_Char t, mo_decoder s)"
    "typed_so_far s0 n k t s" using key by (auto simp: keyed_def)
  show ?thesis
  proof (cases "scancode_contents (queue s)")
    case Nil
    then have "scancode_pop (queue s) = Ret (None, queue s)"
      using k(3) by (simp add: typed_so_far_def scancode_pop_def scancode_contents_def)
    then have "scancode_iteration E s = Ret (Done False, s)"
      by (simp add: scancode_iteration_def pop_scancode_def bind_mon_def act_def ret_mon_def)
    then show ?thesis using key by (simp add: monitor_step_def run_mon_def next_phase_def)
  next
    case (Cons sc rest)
    obtain st where st: "pop_scancode (mo_interrupts s) = Ret (Some sc, st)" "typed_so_far s0 n k t (s\<lparr>mo_interrupts := st\<rparr>)"
      "scancode_contents (is_scancodes st) = rest" using typed_pop[OF k(3) Cons] by blast
    obtain e d where feed: "feed sc (mo_decoder s) = (e, d)" by fastforce
    let ?s = "s\<lparr>mo_interrupts := st, mo_decoder := d\<rparr>"
    have ty: "typed_so_far s0 n k t ?s" using typed_decoder[OF st(2), of d] by simp
    have step: "machine_step E (StepEvent None) (ScancodeLoop, s) =
        run_mon (\<lambda>_. ScancodeLoop) (case e of None \<Rightarrow> ret_mon () | Some event \<Rightarrow> on_event E sc event) ?s"
      unfolding run_mon_more[where ph' = SerialLoop, symmetric] by (simp add: monitor_step_def run_mon_def pop_run[OF st(1) feed])
    have codes: "codes = (consumed @ [sc]) @ scancode_contents (is_scancodes st)" using k(1) Cons st(3) by simp
    have fed: "feed_all (consumed @ [sc]) decoder_new = (map Key_Char t @ (case e of None \<Rightarrow> [] | Some e \<Rightarrow> [e]), d)"
      using k(2) feed by (simp add: feed_all_snoc)
    show ?thesis
    proof (cases e)
      case None
      then have "keyed s0 n k codes ?s" using codes fed ty unfolding keyed_def by auto
      with None step show ?thesis by (simp add: run_mon_def ret_mon_def next_phase_def)
    next
      case (Some ev)
      have "line_strokes cs = consumed @ sc # (rest @ rem)" using cs(2) k(1) Cons by simp
      from next_event[OF this _ k(2), of ev d] feed Some cs(1) consider "t = cs" "ev = Key_Enter"
        | c cs' where "cs = t @ c # cs'" "ev = Key_Char c" by (auto simp: line_typable_def)
      then show ?thesis
      proof cases
        case 1
        have "unat (mo_decoded_events ?s) + 1 < 2 ^ 64" using ty cs(1) 1 by (simp add: typed_so_far_def line_typable_def)
        from enter_runs[where s = ?s and t = cs and E = E and code = sc, OF _ _ _ this] ty 1(1) obtain s' where
          s': "on_event E sc Key_Enter ?s = run_line E (mo_context ?s) cs s'" "input_only ?s s'"
          "fst (hist_view (mo_history s')) = fst (snd (spec_history (HistPush cs) (hist_view (mo_history ?s))))"
          by (auto simp: typed_so_far_def)
        have ctx: "mo_context ?s = mo_context s0" and io: "keys_only s0 s'"
          using ty keys_only_keeps(2)[of s0 ?s] keys_only_trans[OF _ keys_only_steps(1)[OF s'(2)]] by (simp_all add: typed_so_far_def)
        have "fst (hist_view (mo_history s')) = fst (snd (spec_history (HistPush cs) (hist_view (mo_history s0))))"
          unfolding s'(3) by (rule push_texts) (use ty in \<open>simp add: typed_so_far_def\<close>)
        with step Some 1(2) s'(1) io show ?thesis by (auto simp: enters_def run_mon_def ctx)
      next
        case 2
        have "is_ascii c" "length t < INPUT_LINE_MAX" "unat (mo_decoded_events s0) + length t + 1 < 2 ^ 64"
          using cs(1) 2(1) line_strokes_length[of cs] printable_ascii
          by (auto simp: line_typable_def SCANCODE_BUFFER_SIZE_def INPUT_LINE_MAX_def)
        with typed_char[OF ty, of c E sc] cs(1) obtain s' where s': "on_event E sc (Key_Char c) ?s = Ret (Done (), s')"
          "typed_so_far s0 n k (t @ [c]) s'" "mo_interrupts s' = st" "mo_decoder s' = d" by (auto simp: line_typable_def)
        then have "keyed s0 n k codes s'"
          using codes fed Some 2(2) unfolding keyed_def by (intro exI[of _ "consumed @ [sc]"] exI[of _ "t @ [c]"]) simp
        with step Some 2(2) s'(1) show ?thesis by (simp add: run_mon_def next_phase_def)
      qed
    qed
  qed
qed

abbreviation looping :: "phase \<Rightarrow> bool" where
  "looping ph \<equiv> ph \<in> {ScancodeLoop, SerialLoop, AtHlt}"

lemma keyed_timer:
  assumes "keyed s0 n k codes s" "k < n"
  shows "keyed s0 n (Suc k) codes (ticked s)"
proof -
  obtain consumed t where "codes = consumed @ scancode_contents (queue s)" "feed_all consumed decoder_new = (map Key_Char t, mo_decoder s)"
    "typed_so_far s0 n k t s" using assms(1) by (auto simp: keyed_def)
  with typed_timer[OF this(3) assms(2)] show ?thesis unfolding keyed_def ticked_fields by (auto simp: ticked_def)
qed

lemma keyed_push:
  assumes "keyed s0 n k codes s" "length codes < SCANCODE_BUFFER_SIZE"
  shows "\<exists>st. keyboard_interrupt_handler sc (mo_interrupts s) = Ret st \<and> keyed s0 n k (codes @ [sc]) (s\<lparr>mo_interrupts := st\<rparr>)"
proof -
  obtain consumed t where k: "codes = consumed @ scancode_contents (queue s)" "feed_all consumed decoder_new = (map Key_Char t, mo_decoder s)"
    "typed_so_far s0 n k t s" using assms(1) by (auto simp: keyed_def)
  have "sb_len (queue s) < SCANCODE_BUFFER_SIZE" using assms(2) k(1) by simp
  from typed_push[OF k(3) this, of sc] obtain st where "keyboard_interrupt_handler sc (mo_interrupts s) = Ret st"
    "typed_so_far s0 n k t (s\<lparr>mo_interrupts := st\<rparr>)" "scancode_contents (is_scancodes st) = scancode_contents (queue s) @ [sc]" by blast
  with k(1,2) show ?thesis unfolding keyed_def by auto
qed

lemma keyed_step:
  assumes key: "keyed s0 n k codes s" and cs: "line_typable s0 n cs" "line_strokes cs = codes @ scancodes_in [e] @ rem"
    and e: "keyboard_only e" "k + ticks_in [e] \<le> n" and ph: "looping ph"
  shows "(\<exists>ph' s'. machine_step E e (ph, s) = Ret (ph', s') \<and> looping ph' \<and> keyed s0 n (k + ticks_in [e]) (codes @ scancodes_in [e]) s') \<or>
    e = StepEvent None \<and> ph = ScancodeLoop \<and> enters E s0 cs s"
proof (cases e)
  case TimerEvent
  with keyed_timer[OF key] e(2) ph show ?thesis by (auto simp: interrupt_def ticked_def)
next
  case (KeyboardEvent sc)
  have "length codes < SCANCODE_BUFFER_SIZE" using cs KeyboardEvent by (simp add: line_typable_def)
  from keyed_push[OF key this, of sc] KeyboardEvent ph show ?thesis by (auto simp: interrupt_def)
next
  case (StepEvent polled)
  then have [simp]: "e = StepEvent None" using e(1) by simp
  consider "ph = ScancodeLoop" | "ph = SerialLoop" | "ph = AtHlt" using ph by auto
  then show ?thesis
  proof cases
    case 1
    with scancode_step[OF key cs(1), of rem E] cs(2) show ?thesis by auto
  next
    case 2
    have "loop_tail E s = Ret (Done (), s)" using key e(2) cs(1) typed_tail by (auto simp: keyed_def line_typable_def)
    with 2 key show ?thesis by (simp add: monitor_step_def run_mon_def next_phase_def serial_iteration_def bind_mon_def ret_mon_def)
  next
    case 3
    with key show ?thesis by (simp add: monitor_step_def)
  qed
qed (use e in simp)

section \<open>Any order of events\<close>

text \<open>A step of the run finds Enter: it executes the text.\<close>

definition executes_line :: "'m monitor_env \<Rightarrow> string \<Rightarrow> monitor_event list \<Rightarrow> 'm machine_state \<Rightarrow> bool" where
  "executes_line E cs es st \<longleftrightarrow> (\<exists>es1 es2 s. es = es1 @ StepEvent None # es2 \<and> machine_run E es1 st = Ret (ScancodeLoop, s) \<and>
     enters E (snd st) cs s)"

lemma keyed_run:
  assumes cs: "line_typable s0 n cs" and start: "keyed s0 n 0 [] s0" "looping ph"
  shows "\<lbrakk>line_strokes cs = scancodes_in es @ rem; list_all keyboard_only es; ticks_in es \<le> n\<rbrakk> \<Longrightarrow>
    executes_line E cs es (ph, s0) \<or>
    (\<exists>ph' s'. machine_run E es (ph, s0) = Ret (ph', s') \<and> looping ph' \<and> keyed s0 n (ticks_in es) (scancodes_in es) s')"
proof (induction es arbitrary: rem rule: rev_induct)
  case Nil
  with start show ?case by simp
next
  case (snoc e es)
  then consider "executes_line E cs es (ph, s0)"
    | ph' s' where "machine_run E es (ph, s0) = Ret (ph', s')" "looping ph'" "keyed s0 n (ticks_in es) (scancodes_in es) s'"
    using snoc.IH[of "scancodes_in [e] @ rem"] by auto
  then show ?case
  proof cases
    case 1
    then show ?thesis unfolding executes_line_def by fastforce
  next
    case 2
    have more: "line_strokes cs = scancodes_in es @ scancodes_in [e] @ rem" "keyboard_only e" "ticks_in es + ticks_in [e] \<le> n"
      using snoc.prems by simp_all
    from keyed_step[OF 2(3) cs more 2(2), of E] show ?thesis
    proof (elim disjE exE conjE)
      fix ph2 s2
      assume "machine_step E e (ph', s') = Ret (ph2, s2)" "looping ph2" "keyed s0 n (ticks_in es + ticks_in [e]) (scancodes_in es @ scancodes_in [e]) s2"
      then show ?thesis using 2(1) by (simp add: machine_run_append)
    next
      assume "e = StepEvent None" "ph' = ScancodeLoop" "enters E s0 cs s'"
      then show ?thesis using 2(1) unfolding executes_line_def by (intro disjI1 exI[of _ es] exI[of _ "[]"]) simp
    qed
  qed
qed

lemma enter_waits:
  assumes "keyed s0 n k (line_strokes cs) s" "list_all Keyboard.printable cs"
  shows "0x1C \<in> set (scancode_contents (queue s))"
proof (rule ccontr)
  assume no: "0x1C \<notin> set (scancode_contents (queue s))"
  obtain consumed t where k: "line_strokes cs = consumed @ scancode_contents (queue s)" "feed_all consumed decoder_new = (map Key_Char t, mo_decoder s)"
    using assms(1) by (auto simp: keyed_def)
  let ?A = "concat (map type_char cs) @ [0x1C]"
  have "line_strokes cs = ?A @ [0x9C]" by (simp add: line_strokes_def)
  then obtain us where "consumed = ?A @ us \<or> consumed @ us = ?A \<and> scancode_contents (queue s) = us @ [0x9C]"
    using k(1) append_eq_append_conv2[of consumed "scancode_contents (queue s)" ?A "[0x9C]"] by metis
  moreover have "us = []" if "consumed @ us = ?A" "scancode_contents (queue s) = us @ [0x9C]"
  proof (rule ccontr)
    assume "us \<noteq> []"
    with that(1) have "last us = 0x1C" by (metis last_appendR last_snoc)
    with \<open>us \<noteq> []\<close> that(2) no show False by (metis Un_iff last_in_set set_append)
  qed
  ultimately obtain us where "consumed = ?A @ us" by auto
  moreover have "feed_all ?A decoder_new = (map Key_Char cs @ [Key_Enter], decoder_new)"
    using printable_text_typed[OF assms(2)] by (simp add: feed_all_append enter_stroke del: feed_all.simps)
  ultimately obtain fs where "map Key_Char t = map Key_Char cs @ Key_Enter # fs"
    using feed_all_prefix[of ?A us decoder_new] k(2) by auto
  then have "Key_Enter \<in> Key_Char ` set t" by (metis in_set_conv_decomp set_map)
  then show False by auto
qed

section \<open>Properties\<close>

text \<open>
  C7. A line typed on the keyboard is the command that runs, in whatever order the interrupts come. Let the key
  strokes of a printable text and of Enter (at most as many as the queue holds) arrive as keyboard interrupts,
  interleaved in any way with timer interrupts that do not close the input window and with steps of the
  monitor, which starts anywhere in its loop on an empty line and an empty queue. Then nothing panics, no stroke is
  lost or reordered, and either some step of the run executes exactly the text as a command, with
  nothing but the input's own variables changed before it and the text as the latest line of the history, or Enter still
  waits in the queue at the end of the run.
\<close>

theorem typed_line_executed:
  assumes "looping ph" "line_typable s (ticks_in es) cs" "list_all keyboard_only es" "scancodes_in es = line_strokes cs"
    and "line_ok (mo_line s)" "line_view (mo_line s) = ([], [])" "hist_ok (mo_history s)" "mo_decoder s = decoder_new"
    and "scancode_inv (queue s)" "scancode_contents (queue s) = []" "unat (mo_ticks s) + ticks_in es < unat (mo_deadline s)"
  shows "executes_line E cs es (ph, s) \<or>
    (\<exists>ph' s'. machine_run E es (ph, s) = Ret (ph', s') \<and> looping ph' \<and> 0x1C \<in> set (scancode_contents (queue s')))"
proof -
  have "keyed s (ticks_in es) 0 [] s" using assms(5-11) by (auto simp: keyed_def typed_so_far_def)
  from keyed_run[OF assms(2) this assms(1), of es "[]" E] assms(3,4) enter_waits[of s _ _ cs] assms(2)
  show ?thesis by (auto simp: line_typable_def)
qed

text \<open>The strokes of \<open>Hi\<close> and Enter, with a tick and steps of the monitor in between.\<close>

definition demo_events :: "monitor_event list" where
  "demo_events = [KeyboardEvent 0x2A, KeyboardEvent 0x23, KeyboardEvent 0xA3, TimerEvent, StepEvent None, KeyboardEvent 0xAA,
     StepEvent None, KeyboardEvent 0x17, KeyboardEvent 0x97, StepEvent None, StepEvent None, KeyboardEvent 0x1C, KeyboardEvent 0x9C,
     StepEvent None, StepEvent None, StepEvent None]"

theorem typed_line_executed_witness:
  "executes_line demo_env ''Hi'' demo_events (ScancodeLoop, demo_monitor) \<or>
    (\<exists>ph' s'. machine_run demo_env demo_events (ScancodeLoop, demo_monitor) = Ret (ph', s') \<and> looping ph' \<and>
      0x1C \<in> set (scancode_contents (queue s')))"
proof (rule typed_line_executed)
  have strokes: "line_strokes ''Hi'' = [0x2A, 0x23, 0xA3, 0xAA, 0x17, 0x97, 0x1C, 0x9C]" by code_simp
  have ticks: "ticks_in demo_events = 1" by (simp add: demo_events_def)
  show "scancodes_in demo_events = line_strokes ''Hi''" by (simp add: strokes demo_events_def)
  show "line_typable demo_monitor (ticks_in demo_events) ''Hi''"
    by (simp add: line_typable_def ticks strokes Keyboard.printable_def SCANCODE_BUFFER_SIZE_def demo_monitor_def auto_new_def)
  have "is_scancodes (interrupts_init interrupt_statics) = scancode_buffer_new" "is_ticks (interrupts_init interrupt_statics) = 0"
    by (simp_all add: interrupts_init_def interrupt_statics_def set_pit_hz_def device_def split: prod.split)
  then show "scancode_inv (queue demo_monitor)" "scancode_contents (queue demo_monitor) = []"
    "unat (mo_ticks demo_monitor) + ticks_in demo_events < unat (mo_deadline demo_monitor)"
    by (simp_all add: demo_monitor_def scancode_buffer_new_inv mo_ticks_def ticks)
qed (simp_all add: demo_monitor_def demo_events_def line_new_ok history_new_ok)

end
