(* ===== verification/Serial_Port.thy ===== *)
theory Serial_Port
  imports Kernel_Prelude
begin

text \<open>
  The input side of the serial port: \<open>poll_serial_byte\<close> of \<open>kernel/src/main.rs\<close> reads the line status register
  and, when it announces a byte, the data register. The device behind the two ports is a parameter;
  the interface \<open>uart\<close> states what the kernel relies on.
\<close>

unbundle bit_operations_syntax

definition LINE_STATUS_PORT :: u16 where "LINE_STATUS_PORT = 0x3FD"
definition DATA_PORT :: u16 where "DATA_PORT = 0x3F8"

definition poll_serial_byte :: "(u16 \<Rightarrow> 'u \<Rightarrow> u8 \<times> 'u) \<Rightarrow> 'u \<Rightarrow> u8 option \<times> 'u" where
  "poll_serial_byte port_read u =
     (let (line_status, u) = port_read LINE_STATUS_PORT u
      in if line_status AND 0x01 = 0 then (None, u)
         else (let (data, u) = port_read DATA_PORT u in (Some data, u)))"

text \<open>Several polls in a row.\<close>

fun poll_many :: "(u16 \<Rightarrow> 'u \<Rightarrow> u8 \<times> 'u) \<Rightarrow> nat \<Rightarrow> 'u \<Rightarrow> u8 option list \<times> 'u" where
  "poll_many port_read 0 u = ([], u)"
| "poll_many port_read (Suc n) u =
     (let (b, u) = poll_serial_byte port_read u; (bs, u) = poll_many port_read n u in (b # bs, u))"

text \<open>
  A receiver with \<open>pending\<close> bytes: bit 0 of the line status says whether one waits, reading the status
  loses nothing, and reading the data register takes the first.
\<close>

locale uart =
  fixes port_read :: "u16 \<Rightarrow> 'u \<Rightarrow> u8 \<times> 'u" and pending :: "'u \<Rightarrow> u8 list"
  assumes status: "port_read LINE_STATUS_PORT u = (st, u') \<longrightarrow> pending u' = pending u \<and> (st AND 0x01 = 0 \<longleftrightarrow> pending u = [])"
    and data: "pending u = b # bs \<longrightarrow> (\<exists>u'. port_read DATA_PORT u = (b, u') \<and> pending u' = bs)"
begin

lemma poll_empty: "pending u = [] \<Longrightarrow> \<exists>u'. poll_serial_byte port_read u = (None, u') \<and> pending u' = []"
  using status[of u] by (cases "port_read LINE_STATUS_PORT u") (auto simp: poll_serial_byte_def)

lemma poll_byte:
  assumes "pending u = b # bs"
  shows "\<exists>u'. poll_serial_byte port_read u = (Some b, u') \<and> pending u' = bs"
proof -
  obtain st u1 where s: "port_read LINE_STATUS_PORT u = (st, u1)" by fastforce
  with status[of u] assms have "pending u1 = b # bs" "st AND 0x01 \<noteq> 0" by auto
  with data[of u1 b bs] s show ?thesis by (auto simp: poll_serial_byte_def)
qed

lemma poll_many_bytes: "pending u = bs @ rest \<Longrightarrow> \<exists>u'. poll_many port_read (length bs) u = (map Some bs, u') \<and> pending u' = rest"
proof (induction bs arbitrary: u)
  case (Cons b bs)
  obtain u1 where "poll_serial_byte port_read u = (Some b, u1)" "pending u1 = bs @ rest" using poll_byte[of u b] Cons.prems by auto
  with Cons.IH[of u1] show ?case by auto
qed simp

end

text \<open>A receiver that holds its bytes in order; the transmitter is always ready (bits 5 and 6 of the line status).\<close>

definition fifo_read :: "u16 \<Rightarrow> u8 list \<Rightarrow> u8 \<times> u8 list" where
  "fifo_read port bs =
     (if port = LINE_STATUS_PORT then (if bs = [] then 0x60 else 0x61, bs)
      else if port = DATA_PORT then (case bs of [] \<Rightarrow> (0, []) | b # bs \<Rightarrow> (b, bs))
      else (0xff, bs))"

interpretation fifo_uart: uart fifo_read "\<lambda>bs. bs"
  by unfold_locales (auto simp: fifo_read_def LINE_STATUS_PORT_def DATA_PORT_def split: if_splits)

end
