(* ===== verification/Spin_Locks.thy ===== *)
theory Spin_Locks
  imports Kernel_Prelude
begin

text \<open>
  The locking discipline of the kernel. Every static that the kernel mutates sits behind a
  \<open>spin::Mutex\<close>, and the kernel runs on one processor: code that asks for a lock that is held
  by the code it interrupted spins for ever. This theory has

  \<^item> the lock skeleton of every function that takes a lock: which guard lives over which calls,
    what runs inside \<open>without_interrupts\<close>, where interrupts are enabled, where the processor
    halts, where the kernel stack is left for user mode, and where the machine is ended;
  \<^item> a step relation of one processor that runs such code and takes timer and keyboard interrupts
    between any two actions while its interrupt flag is set;
  \<^item> the interface \<open>lock_discipline\<close> between the two: what code has to obey so that no run ever
    spins on a lock or halts with interrupts off, proved once and interpreted on the kernel;
  \<^item> the same question for the two handlers that end the machine, which print first.

  What the code does under a lock is the subject of the other theories; here only the locks count.
\<close>

section \<open>Locks and code\<close>

datatype kernel_lock =
    PICS
  | SCANCODE_BUFFER
  | WRITER
  | TASK_TABLE
  | MONITOR_CONTEXT
  | KERNEL_MEMORY_SUMMARY
  | FAST_SYSCALL_STATUS
  | USER_MODE_CONTEXT
  | PENDING_FAST_SYSCALL_KIND
  | LAST_FAST_SYSCALL_REPORT
  | ALLOCATOR

text \<open>
  A guard lives to the end of its scope, of the statement it is a temporary of, or of the function whose
  result it is read for. \<open>InterruptGate\<close> is the entry through the interrupt descriptor table.
\<close>

datatype code =
    Guard kernel_lock "code list"
  | WithoutInterrupts "code list"
  | EnableInterrupts
  | InterruptGate
  | Hlt
  | EnterUserMode
  | ExitQemu

datatype action =
    Lock kernel_lock
  | Unlock kernel_lock
  | SaveAndDisable
  | Restore
  | Enable
  | Gate
  | Halt
  | LeaveKernel
  | Exit

fun actions_of :: "code \<Rightarrow> action list" where
  "actions_of (Guard l body) = Lock l # concat (map actions_of body) @ [Unlock l]"
| "actions_of (WithoutInterrupts body) = SaveAndDisable # concat (map actions_of body) @ [Restore]"
| "actions_of EnableInterrupts = [Enable]"
| "actions_of InterruptGate = [Gate]"
| "actions_of Hlt = [Halt]"
| "actions_of EnterUserMode = [LeaveKernel]"
| "actions_of ExitQemu = [Exit]"

definition actions :: "code list \<Rightarrow> action list" where
  "actions body = concat (map actions_of body)"

section \<open>The processor\<close>

text \<open>
  A frame is code that was started and not finished: what is left of it, the interrupt flags saved by
  its open \<open>without_interrupts\<close> scopes, and the flag that the return from it restores. The first
  frame runs, the last is the kernel's main code.
\<close>

record frame =
  fr_code :: "action list"
  fr_saved :: "bool list"
  fr_flag :: bool

record lock_cpu =
  lc_frames :: "frame list"
  lc_if :: bool
  lc_held :: "kernel_lock list"
  lc_ended :: bool

text \<open>
  One action of the running frame, \<open>None\<close> if it waits for something that cannot happen: a lock that is
  held, or an interrupt while interrupts are off. Leaving for user mode abandons the code that follows.
\<close>

definition perform :: "action \<Rightarrow> action list \<Rightarrow> frame \<Rightarrow> frame list \<Rightarrow> lock_cpu \<Rightarrow> lock_cpu option" where
  "perform a rest f fs s =
     (let next = s\<lparr>lc_frames := f\<lparr>fr_code := rest\<rparr> # fs\<rparr>
      in case a of
        Lock l \<Rightarrow> if l \<in> set (lc_held s) then None else Some (next\<lparr>lc_held := l # lc_held s\<rparr>)
      | Unlock l \<Rightarrow> Some (next\<lparr>lc_held := remove1 l (lc_held s)\<rparr>)
      | SaveAndDisable \<Rightarrow>
          Some (s\<lparr>lc_frames := f\<lparr>fr_code := rest, fr_saved := lc_if s # fr_saved f\<rparr> # fs, lc_if := False\<rparr>)
      | Restore \<Rightarrow> (case fr_saved f of
            [] \<Rightarrow> None
          | b # bs \<Rightarrow> Some (s\<lparr>lc_frames := f\<lparr>fr_code := rest, fr_saved := bs\<rparr> # fs, lc_if := b \<or> lc_if s\<rparr>))
      | Enable \<Rightarrow> Some (next\<lparr>lc_if := True\<rparr>)
      | Gate \<Rightarrow> Some (next\<lparr>lc_if := False\<rparr>)
      | Halt \<Rightarrow> if lc_if s then Some next else None
      | LeaveKernel \<Rightarrow> Some (s\<lparr>lc_frames := f\<lparr>fr_code := []\<rparr> # fs\<rparr>)
      | Exit \<Rightarrow> Some (next\<lparr>lc_ended := True\<rparr>))"

definition execute :: "lock_cpu \<Rightarrow> lock_cpu option" where
  "execute s =
     (if lc_ended s then None
      else case lc_frames s of
        [] \<Rightarrow> None
      | f # fs \<Rightarrow> (case fr_code f of
            [] \<Rightarrow> if fs = [] then None else Some (s\<lparr>lc_frames := fs, lc_if := fr_flag f\<rparr>)
          | a # rest \<Rightarrow> perform a rest f fs s))"

text \<open>The main code has finished a call of its loop, or user code runs.\<close>

definition idle :: "lock_cpu \<Rightarrow> bool" where
  "idle s \<longleftrightarrow> \<not> lc_ended s \<and> (\<exists>f. lc_frames s = [f] \<and> fr_code f = [])"

definition interrupt :: "action list \<Rightarrow> lock_cpu \<Rightarrow> lock_cpu" where
  "interrupt handler s =
     s\<lparr>lc_frames := \<lparr>fr_code = handler, fr_saved = [], fr_flag = lc_if s\<rparr> # lc_frames s, lc_if := False\<rparr>"

definition start_call :: "action list \<Rightarrow> lock_cpu \<Rightarrow> lock_cpu" where
  "start_call call s = s\<lparr>lc_frames := map (\<lambda>f. f\<lparr>fr_code := call, fr_saved := []\<rparr>) (lc_frames s)\<rparr>"

definition power_on :: "action list \<Rightarrow> lock_cpu" where
  "power_on boot = \<lparr>lc_frames = [\<lparr>fr_code = boot, fr_saved = [], fr_flag = False\<rparr>], lc_if = False, lc_held = [], lc_ended = False\<rparr>"

inductive cpu_step :: "action list set \<Rightarrow> action list set \<Rightarrow> lock_cpu \<Rightarrow> lock_cpu \<Rightarrow> bool"
  for handlers :: "action list set" and calls :: "action list set" where
  step_execute: "execute s = Some s' \<Longrightarrow> cpu_step handlers calls s s'"
| step_interrupt: "\<lbrakk>\<not> lc_ended s; lc_if s; h \<in> handlers\<rbrakk> \<Longrightarrow> cpu_step handlers calls s (interrupt h s)"
| step_call: "\<lbrakk>idle s; c \<in> calls\<rbrakk> \<Longrightarrow> cpu_step handlers calls s (start_call c s)"

inductive_cases cpu_stepE: "cpu_step handlers calls s s'"

text \<open>Running on without further interrupts, and how much is left to run.\<close>

fun execute_n :: "nat \<Rightarrow> lock_cpu \<Rightarrow> lock_cpu option" where
  "execute_n 0 s = Some s"
| "execute_n (Suc n) s = (case execute s of None \<Rightarrow> None | Some s' \<Rightarrow> execute_n n s')"

definition work :: "lock_cpu \<Rightarrow> nat" where
  "work s = sum_list (map (\<lambda>f. Suc (length (fr_code f))) (lc_frames s))"

section \<open>The discipline\<close>

text \<open>
  Main code obeys the discipline when it never asks for a lock it holds, asks for the locks of the interrupt
  handlers only with interrupts off and turns them on only after giving those back, releases in
  reverse order, halts only with interrupts on, and leaves for user mode or finishes with no lock held
  and interrupts on. Handlers take only their own locks.
\<close>

fun disciplined :: "kernel_lock set \<Rightarrow> action list \<Rightarrow> bool \<Rightarrow> bool list \<Rightarrow> kernel_lock list \<Rightarrow> bool" where
  "disciplined L [] on saved held \<longleftrightarrow> on \<and> held = []"
| "disciplined L (Lock l # as) on saved held \<longleftrightarrow> l \<notin> set held \<and> (l \<in> L \<longrightarrow> \<not> on) \<and> disciplined L as on saved (l # held)"
| "disciplined L (Unlock l # as) on saved held \<longleftrightarrow> (case held of [] \<Rightarrow> False | h # hs \<Rightarrow> h = l \<and> disciplined L as on saved hs)"
| "disciplined L (SaveAndDisable # as) on saved held \<longleftrightarrow> disciplined L as False (on # saved) held"
| "disciplined L (Restore # as) on saved held \<longleftrightarrow>
     (case saved of [] \<Rightarrow> False | b # bs \<Rightarrow> (b \<longrightarrow> set held \<inter> L = {}) \<and> disciplined L as (b \<or> on) bs held)"
| "disciplined L (Enable # as) on saved held \<longleftrightarrow> set held \<inter> L = {} \<and> disciplined L as True saved held"
| "disciplined L (Gate # as) on saved held \<longleftrightarrow> disciplined L as False saved held"
| "disciplined L (Halt # as) on saved held \<longleftrightarrow> on \<and> disciplined L as on saved held"
| "disciplined L (LeaveKernel # as) on saved held \<longleftrightarrow> on \<and> held = []"
| "disciplined L (Exit # as) on saved held \<longleftrightarrow> True"

fun handler_disciplined :: "kernel_lock set \<Rightarrow> action list \<Rightarrow> kernel_lock list \<Rightarrow> bool" where
  "handler_disciplined L [] own \<longleftrightarrow> own = []"
| "handler_disciplined L (Lock l # as) own \<longleftrightarrow> l \<in> L \<and> l \<notin> set own \<and> handler_disciplined L as (l # own)"
| "handler_disciplined L (Unlock l # as) own \<longleftrightarrow> (case own of [] \<Rightarrow> False | h # hs \<Rightarrow> h = l \<and> handler_disciplined L as hs)"
| "handler_disciplined L (_ # as) own \<longleftrightarrow> False"

text \<open>Between two actions: the main code runs, or one handler does, on top of main code that has interrupts on.\<close>

definition main_ok :: "kernel_lock set \<Rightarrow> lock_cpu \<Rightarrow> bool" where
  "main_ok L s \<longleftrightarrow> (\<exists>f. lc_frames s = [f] \<and> disciplined L (fr_code f) (lc_if s) (fr_saved f) (lc_held s) \<and>
     (lc_if s \<longrightarrow> set (lc_held s) \<inter> L = {}) \<and> distinct (lc_held s))"

definition handler_ok :: "kernel_lock set \<Rightarrow> lock_cpu \<Rightarrow> bool" where
  "handler_ok L s \<longleftrightarrow> (\<exists>h f own main. lc_frames s = [h, f] \<and> \<not> lc_if s \<and> fr_flag h \<and> lc_held s = own @ main \<and> distinct (own @ main) \<and>
     handler_disciplined L (fr_code h) own \<and> set main \<inter> L = {} \<and> disciplined L (fr_code f) True (fr_saved f) main)"

definition lock_inv :: "kernel_lock set \<Rightarrow> lock_cpu \<Rightarrow> bool" where
  "lock_inv L s \<longleftrightarrow> lc_ended s \<or> main_ok L s \<or> handler_ok L s"

lemma handler_okI:
  "\<lbrakk>lc_frames s = [h, f]; \<not> lc_if s; fr_flag h; lc_held s = own @ main; distinct (own @ main); handler_disciplined L (fr_code h) own;
    set main \<inter> L = {}; disciplined L (fr_code f) True (fr_saved f) main\<rbrakk> \<Longrightarrow> handler_ok L s"
  unfolding handler_ok_def by blast

lemma work_execute: "execute s = Some s' \<Longrightarrow> work s' < work s"
  by (auto simp: execute_def perform_def work_def Let_def split: list.splits if_splits action.splits)

locale lock_discipline =
  fixes L :: "kernel_lock set" and handlers calls :: "action list set"
  assumes handler: "h \<in> handlers \<longrightarrow> handler_disciplined L h []"
    and call: "c \<in> calls \<longrightarrow> disciplined L c True [] []"
begin

lemma main_progress:
  assumes "main_ok L s" "\<not> lc_ended s"
  shows "idle s \<and> lc_if s \<and> lc_held s = [] \<or> (\<exists>s'. execute s = Some s' \<and> (lc_ended s' \<or> main_ok L s'))"
proof -
  obtain f where f: "lc_frames s = [f]" "disciplined L (fr_code f) (lc_if s) (fr_saved f) (lc_held s)"
    "lc_if s \<longrightarrow> set (lc_held s) \<inter> L = {}" "distinct (lc_held s)" using assms(1) by (auto simp: main_ok_def)
  show ?thesis
  proof (cases "fr_code f")
    case Nil
    with f assms(2) show ?thesis by (simp add: idle_def)
  next
    case (Cons a rest)
    with f assms(2) show ?thesis
      by (cases a) (auto simp: execute_def perform_def main_ok_def Let_def split: list.splits)
  qed
qed

lemma handler_progress:
  assumes "handler_ok L s" "\<not> lc_ended s"
  shows "\<exists>s'. execute s = Some s' \<and> (main_ok L s' \<or> handler_ok L s')"
proof -
  obtain h f own main where s: "lc_frames s = [h, f]" "\<not> lc_if s" "fr_flag h" "lc_held s = own @ main"
    "handler_disciplined L (fr_code h) own" "distinct (own @ main)" "set main \<inter> L = {}" "disciplined L (fr_code f) True (fr_saved f) main"
    using assms(1) by (auto simp: handler_ok_def)
  show ?thesis
  proof (cases "fr_code h")
    case Nil
    with s assms(2) show ?thesis by (simp add: execute_def main_ok_def)
  next
    case (Cons a rest)
    then show ?thesis
    proof (cases a)
      case (Lock l)
      with Cons s have "l \<notin> set (own @ main)" "handler_disciplined L rest (l # own)" by auto
      moreover have "l # lc_held s = (l # own) @ main" using s(4) by simp
      ultimately show ?thesis using Cons Lock s assms(2)
        by (auto simp: execute_def perform_def handler_ok_def Let_def)
    next
      case (Unlock l)
      with Cons s obtain hs where "own = l # hs" "handler_disciplined L rest hs" by (auto split: list.splits)
      then show ?thesis using Cons Unlock s assms(2)
        by (auto simp: execute_def perform_def handler_ok_def Let_def)
    qed (use Cons s in auto)
  qed
qed

lemma progress:
  assumes "lock_inv L s" "\<not> lc_ended s" "\<not> (idle s \<and> lc_if s \<and> lc_held s = [])"
  shows "\<exists>s'. execute s = Some s' \<and> lock_inv L s'"
  using assms main_progress handler_progress unfolding lock_inv_def by blast

lemma execute_inv: "lock_inv L s \<Longrightarrow> execute s = Some s' \<Longrightarrow> lock_inv L s'"
proof -
  assume inv: "lock_inv L s" and run: "execute s = Some s'"
  then have "\<not> lc_ended s" "\<not> idle s" by (auto simp: execute_def idle_def)
  with progress[OF inv] run show ?thesis by auto
qed

lemma interrupt_inv:
  assumes "lock_inv L s" "\<not> lc_ended s" "lc_if s" "h \<in> handlers"
  shows "lock_inv L (interrupt h s)"
proof -
  from assms obtain f where f: "lc_frames s = [f]" "disciplined L (fr_code f) True (fr_saved f) (lc_held s)" "set (lc_held s) \<inter> L = {}"
    "distinct (lc_held s)" by (auto simp: lock_inv_def main_ok_def handler_ok_def)
  with handler assms(3,4) have "handler_ok L (interrupt h s)"
    by (intro handler_okI[where own = "[]" and main = "lc_held s"]) (auto simp: interrupt_def)
  then show ?thesis by (simp add: lock_inv_def)
qed

lemma idle_inv: "lock_inv L s \<Longrightarrow> idle s \<Longrightarrow> lc_if s \<and> lc_held s = []"
  by (auto simp: lock_inv_def idle_def main_ok_def handler_ok_def)

lemma lock_inv_distinct: "lock_inv L s \<Longrightarrow> \<not> lc_ended s \<Longrightarrow> distinct (lc_held s) \<and> length (lc_frames s) \<le> 2"
  by (auto simp: lock_inv_def main_ok_def handler_ok_def)

lemma call_inv:
  assumes "lock_inv L s" "idle s" "c \<in> calls"
  shows "lock_inv L (start_call c s)"
proof -
  obtain f where "lc_frames s = [f]" using assms(2) by (auto simp: idle_def)
  with idle_inv[OF assms(1,2)] call assms(3) have "main_ok L (start_call c s)"
    by (simp add: main_ok_def start_call_def)
  then show ?thesis by (simp add: lock_inv_def)
qed

lemma step_inv: "cpu_step handlers calls s s' \<Longrightarrow> lock_inv L s \<Longrightarrow> lock_inv L s'"
  by (auto elim!: cpu_stepE intro: execute_inv interrupt_inv call_inv)

lemma steps_inv: "(cpu_step handlers calls)\<^sup>*\<^sup>* s s' \<Longrightarrow> lock_inv L s \<Longrightarrow> lock_inv L s'"
  by (induction rule: rtranclp_induct) (auto intro: step_inv)

lemma boot_inv: "disciplined L boot False [] [] \<Longrightarrow> lock_inv L (power_on boot)"
  by (simp add: lock_inv_def main_ok_def power_on_def)

lemma completes:
  "lock_inv L s \<Longrightarrow> \<exists>n s'. n \<le> work s \<and> execute_n n s = Some s' \<and> (lc_ended s' \<or> idle s' \<and> lc_if s' \<and> lc_held s' = [])"
proof (induction "work s" arbitrary: s rule: less_induct)
  case less
  show ?case
  proof (cases "lc_ended s \<or> idle s \<and> lc_if s \<and> lc_held s = []")
    case True
    then show ?thesis by (intro exI[of _ 0] exI[of _ s]) simp
  next
    case False
    then obtain s1 where s1: "execute s = Some s1" "lock_inv L s1" using progress[OF less.prems] by blast
    then obtain n s' where "n \<le> work s1" "execute_n n s1 = Some s'" "lc_ended s' \<or> idle s' \<and> lc_if s' \<and> lc_held s' = []"
      using less.hyps[OF work_execute] by blast
    with s1(1) work_execute[OF s1(1)] show ?thesis by (intro exI[of _ "Suc n"] exI[of _ s']) simp
  qed
qed

end

section \<open>The kernel's lock skeletons\<close>

subsection \<open>Interrupt handlers\<close>

definition timer_interrupt_handler_locks :: "code list" where
  "timer_interrupt_handler_locks = [Guard PICS []]"

definition keyboard_interrupt_handler_locks :: "code list" where
  "keyboard_interrupt_handler_locks = [Guard SCANCODE_BUFFER [], Guard PICS []]"

subsection \<open>Module functions\<close>

definition print_locks :: "code list" where
  "print_locks = [Guard WRITER []]"

definition clear_locks :: "code list" where
  "clear_locks = [Guard WRITER []]"

definition framebuffer_init_locks :: "code list" where
  "framebuffer_init_locks = [Guard WRITER []]"

definition set_pit_hz_locks :: "code list" where
  "set_pit_hz_locks = [WithoutInterrupts []]"

definition interrupts_init_locks :: "code list" where
  "interrupts_init_locks = WithoutInterrupts [Guard PICS []] # set_pit_hz_locks @ [EnableInterrupts]"

definition pop_scancode_locks :: "code list" where
  "pop_scancode_locks = [WithoutInterrupts [Guard SCANCODE_BUFFER []]]"

definition keyboard_counters_locks :: "code list" where
  "keyboard_counters_locks = [WithoutInterrupts [Guard SCANCODE_BUFFER []]]"

text \<open>All nine functions of the module \<open>task\<close> hold the table's guard over one operation of the table.\<close>

definition task_locks :: "code list" where
  "task_locks = [Guard TASK_TABLE []]"

definition kernel_memory_summary_locks :: "code list" where
  "kernel_memory_summary_locks = [Guard KERNEL_MEMORY_SUMMARY []]"

definition set_monitor_context_locks :: "code list" where
  "set_monitor_context_locks = [Guard MONITOR_CONTEXT []]"

definition init_fast_syscall_scaffold_locks :: "code list" where
  "init_fast_syscall_scaffold_locks = [Guard FAST_SYSCALL_STATUS []]"

definition fast_syscall_status_locks :: "code list" where
  "fast_syscall_status_locks = [Guard FAST_SYSCALL_STATUS []]"

definition take_last_fast_syscall_report_locks :: "code list" where
  "take_last_fast_syscall_report_locks = [Guard LAST_FAST_SYSCALL_REPORT []]"

definition init_heap_locks :: "bool \<Rightarrow> code list" where
  "init_heap_locks mapped = (if mapped then [Guard ALLOCATOR []] else [])"

definition init_memory_locks :: "bool \<Rightarrow> code list" where
  "init_memory_locks mapped = (if mapped then [Guard USER_MODE_CONTEXT []] else [])"

text \<open>User mode is entered only when its memory is set up; nothing after that returns.\<close>

definition run_demo_code_locks :: "bool \<Rightarrow> code list" where
  "run_demo_code_locks initialized =
     Guard USER_MODE_CONTEXT [] #
     (if initialized then [Guard PENDING_FAST_SYSCALL_KIND [], Guard LAST_FAST_SYSCALL_REPORT [], EnterUserMode] else [])"

subsection \<open>The monitor\<close>

text \<open>
  The return from user mode runs on in the exit interrupt's handler, with interrupts off until the greeting:
  \<open>found\<close> says whether the monitor's context is set, \<open>lines\<close> counts the lines of the report.
\<close>

definition input_loop_start_locks :: "code list" where
  "input_loop_start_locks = print_locks @ print_locks @ print_locks @ print_locks"

definition resume_monitor_locks :: "bool \<Rightarrow> nat \<Rightarrow> code list" where
  "resume_monitor_locks found lines =
     (if found
      then Guard MONITOR_CONTEXT [] # print_locks @ take_last_fast_syscall_report_locks @
        concat (replicate lines print_locks) @ EnableInterrupts # input_loop_start_locks
      else [Guard MONITOR_CONTEXT [ExitQemu]])"

definition exit_interrupt_locks :: "bool \<Rightarrow> nat \<Rightarrow> code list" where
  "exit_interrupt_locks found lines =
     [InterruptGate, Guard PENDING_FAST_SYSCALL_KIND [], Guard LAST_FAST_SYSCALL_REPORT []] @ resume_monitor_locks found lines"

text \<open>The two ways the monitor ends the machine: a command or the deadline.\<close>

definition monitor_end_locks :: "code list" where
  "monitor_end_locks = keyboard_counters_locks @ print_locks @ [ExitQemu]"

text \<open>
  Boot, by what it finds: a physical memory offset (with the heap and the user pages mapped or not), a
  framebuffer, and a timer that ticks.
\<close>

definition kernel_main_locks :: "(bool \<times> bool) option \<Rightarrow> bool \<Rightarrow> bool \<Rightarrow> code list" where
  "kernel_main_locks offset framebuffer ticking =
     kernel_memory_summary_locks @
     (case offset of None \<Rightarrow> [] | Some (heap, user) \<Rightarrow> init_heap_locks heap @ init_memory_locks user) @
     (if framebuffer then framebuffer_init_locks @ concat (replicate 7 print_locks) else []) @
     print_locks @ print_locks @ print_locks @
     init_fast_syscall_scaffold_locks @ fast_syscall_status_locks @ print_locks @ print_locks @
     interrupts_init_locks @ task_locks @ set_monitor_context_locks @ print_locks @ print_locks @
     (if ticking then print_locks @ input_loop_start_locks else print_locks @ [ExitQemu])"

text \<open>What the monitor's loop, its commands and the automatic scheduler do, in any order and number.\<close>

definition monitor_calls :: "action list set" where
  "monitor_calls = actions ` ({print_locks, clear_locks, set_pit_hz_locks, pop_scancode_locks, keyboard_counters_locks,
     task_locks, kernel_memory_summary_locks, fast_syscall_status_locks, monitor_end_locks, [Hlt]} \<union>
     range run_demo_code_locks \<union> {exit_interrupt_locks found lines | found lines. True})"

definition irq_handlers :: "action list set" where
  "irq_handlers = actions ` {timer_interrupt_handler_locks, keyboard_interrupt_handler_locks}"

definition IRQ_LOCKS :: "kernel_lock set" where
  "IRQ_LOCKS = {PICS, SCANCODE_BUFFER}"

lemmas lock_skeletons = timer_interrupt_handler_locks_def keyboard_interrupt_handler_locks_def print_locks_def clear_locks_def
  framebuffer_init_locks_def set_pit_hz_locks_def interrupts_init_locks_def pop_scancode_locks_def keyboard_counters_locks_def
  task_locks_def kernel_memory_summary_locks_def set_monitor_context_locks_def init_fast_syscall_scaffold_locks_def
  fast_syscall_status_locks_def take_last_fast_syscall_report_locks_def init_heap_locks_def init_memory_locks_def
  run_demo_code_locks_def input_loop_start_locks_def monitor_end_locks_def

lemma actions_simps [simp]: "actions [] = []" "actions (c # cs) = actions_of c @ actions cs" "actions (cs @ ds) = actions cs @ actions ds"
  by (simp_all add: actions_def)

lemma disciplined_prints:
  "WRITER \<notin> L \<Longrightarrow> disciplined L (actions (replicate n (Guard WRITER [])) @ as) on [] [] \<longleftrightarrow> disciplined L as on [] []"
  by (induction n) simp_all

lemma irq_locks_off: "WRITER \<notin> IRQ_LOCKS" "MONITOR_CONTEXT \<notin> IRQ_LOCKS" "PENDING_FAST_SYSCALL_KIND \<notin> IRQ_LOCKS"
  "LAST_FAST_SYSCALL_REPORT \<notin> IRQ_LOCKS"
  by (simp_all add: IRQ_LOCKS_def)

lemma exit_interrupt_disciplined: "disciplined IRQ_LOCKS (actions (exit_interrupt_locks found lines)) True [] []"
  by (simp add: exit_interrupt_locks_def resume_monitor_locks_def lock_skeletons disciplined_prints irq_locks_off)

lemma kernel_main_disciplined: "disciplined IRQ_LOCKS (actions (kernel_main_locks offset framebuffer ticking)) False [] []"
proof -
  have "disciplined IRQ_LOCKS (actions (kernel_main_locks offset framebuffer ticking)) False [] [] \<longleftrightarrow> True"
    by (auto simp: kernel_main_locks_def lock_skeletons IRQ_LOCKS_def numeral_eq_Suc split: option.split)
  then show ?thesis by simp
qed

interpretation kernel_locks: lock_discipline IRQ_LOCKS irq_handlers monitor_calls
proof
  fix h c
  show "h \<in> irq_handlers \<longrightarrow> handler_disciplined IRQ_LOCKS h []"
    by (auto simp: irq_handlers_def lock_skeletons IRQ_LOCKS_def)
  show "c \<in> monitor_calls \<longrightarrow> disciplined IRQ_LOCKS c True [] []"
    using exit_interrupt_disciplined by (auto simp: monitor_calls_def lock_skeletons IRQ_LOCKS_def)
qed

section \<open>The handlers that end the machine\<close>

text \<open>
  The panic handler and the page fault handler write to the serial port, which has no lock, then print on
  the screen, then end the machine. A panic is a call, a page fault comes through an interrupt gate.
\<close>

datatype fatal = KernelPanic | PageFaultException

definition panic_locks :: "code list" where
  "panic_locks = print_locks @ [ExitQemu]"

definition page_fault_handler_locks :: "code list" where
  "page_fault_handler_locks = print_locks @ [ExitQemu]"

definition raise :: "fatal \<Rightarrow> lock_cpu \<Rightarrow> lock_cpu" where
  "raise e s = (case e of
      KernelPanic \<Rightarrow> s\<lparr>lc_frames := \<lparr>fr_code = actions panic_locks, fr_saved = [], fr_flag = lc_if s\<rparr> # lc_frames s\<rparr>
    | PageFaultException \<Rightarrow> interrupt (actions page_fault_handler_locks) s)"

text \<open>A fatal handler that waits for a lock its own processor holds, below interrupt handlers that give back only their own.\<close>

definition only_irq_locks :: "frame \<Rightarrow> bool" where
  "only_irq_locks f \<longleftrightarrow> list_all (\<lambda>a. \<exists>l\<in>IRQ_LOCKS. a = Lock l \<or> a = Unlock l) (fr_code f)"

definition hung :: "lock_cpu \<Rightarrow> bool" where
  "hung s \<longleftrightarrow> \<not> lc_ended s \<and> WRITER \<in> set (lc_held s) \<and>
     (\<exists>irqs f fs. lc_frames s = irqs @ f # fs \<and> list_all only_irq_locks irqs \<and> fr_code f = [Lock WRITER, Unlock WRITER, Exit])"

lemma hungI:
  "\<lbrakk>\<not> lc_ended s; WRITER \<in> set (lc_held s); lc_frames s = irqs @ f # fs; list_all only_irq_locks irqs;
    fr_code f = [Lock WRITER, Unlock WRITER, Exit]\<rbrakk> \<Longrightarrow> hung s"
  by (auto simp: hung_def)

lemma hungE:
  assumes "hung s"
  obtains irqs f fs where "\<not> lc_ended s" "WRITER \<in> set (lc_held s)" "lc_frames s = irqs @ f # fs" "list_all only_irq_locks irqs"
    "fr_code f = [Lock WRITER, Unlock WRITER, Exit]"
  using assms by (auto simp: hung_def)

lemma raise_hung: "\<not> lc_ended s \<Longrightarrow> WRITER \<in> set (lc_held s) \<Longrightarrow> hung (raise e s)"
  by (cases e) (auto simp: raise_def interrupt_def panic_locks_def page_fault_handler_locks_def print_locks_def
      intro!: hungI[where irqs = "[]"])

lemma irq_handlers_own: "h \<in> irq_handlers \<Longrightarrow> only_irq_locks \<lparr>fr_code = h, fr_saved = a, fr_flag = b\<rparr>"
  by (auto simp: irq_handlers_def lock_skeletons only_irq_locks_def IRQ_LOCKS_def)

lemma execute_hung:
  assumes "hung s" "execute s = Some s'"
  shows "hung s'"
  using assms(1)
proof (rule hungE)
  fix irqs f fs
  assume s: "\<not> lc_ended s" "WRITER \<in> set (lc_held s)" "lc_frames s = irqs @ f # fs" "list_all only_irq_locks irqs"
    "fr_code f = [Lock WRITER, Unlock WRITER, Exit]"
  show ?thesis
  proof (cases irqs)
    case Nil
    with s assms(2) show ?thesis by (simp add: execute_def perform_def Let_def)
  next
    case (Cons h hs)
    show ?thesis
    proof (cases "fr_code h")
      case Nil
      with s Cons assms(2) show ?thesis by (auto simp: execute_def intro: hungI)
    next
      case code: (Cons a rest)
      with s(4) Cons have own: "list_all only_irq_locks (h\<lparr>fr_code := rest\<rparr> # hs)"
        and a: "\<exists>l\<in>IRQ_LOCKS. a = Lock l \<or> a = Unlock l" by (simp_all add: only_irq_locks_def)
      from a have "lc_frames s' = (h\<lparr>fr_code := rest\<rparr> # hs) @ f # fs" "\<not> lc_ended s'" "WRITER \<in> set (lc_held s')"
        using s assms(2) Cons code
        by (auto simp: execute_def perform_def Let_def in_set_remove1 IRQ_LOCKS_def split: if_splits)
      with own s(5) show ?thesis by (blast intro: hungI)
    qed
  qed
qed

lemma interrupt_hung:
  assumes "hung s" "h \<in> irq_handlers"
  shows "hung (interrupt h s)"
  using assms(1)
proof (rule hungE)
  fix irqs f fs
  assume "\<not> lc_ended s" "WRITER \<in> set (lc_held s)" "lc_frames s = irqs @ f # fs" "list_all only_irq_locks irqs"
    "fr_code f = [Lock WRITER, Unlock WRITER, Exit]"
  with irq_handlers_own[OF assms(2)] show ?thesis
    by (intro hungI[where irqs = "\<lparr>fr_code = h, fr_saved = [], fr_flag = lc_if s\<rparr> # irqs"]) (simp_all add: interrupt_def)
qed

lemma hung_not_idle: "hung s \<Longrightarrow> \<not> idle s"
  by (auto simp: idle_def Cons_eq_append_conv append_eq_Cons_conv elim!: hungE)

lemma step_hung: "cpu_step irq_handlers monitor_calls s s' \<Longrightarrow> hung s \<Longrightarrow> hung s'"
  using execute_hung interrupt_hung hung_not_idle by (auto elim!: cpu_stepE)

lemma steps_hung: "(cpu_step irq_handlers monitor_calls)\<^sup>*\<^sup>* s s' \<Longrightarrow> hung s \<Longrightarrow> hung s'"
  by (induction rule: rtranclp_induct) (auto intro: step_hung)

lemma raise_ends:
  assumes "\<not> lc_ended s" "WRITER \<notin> set (lc_held s)"
  shows "\<exists>s'. execute_n 3 (raise e s) = Some s' \<and> lc_ended s'"
  using assms by (cases e) (auto simp: raise_def interrupt_def panic_locks_def page_fault_handler_locks_def print_locks_def
      numeral_3_eq_3 execute_def perform_def Let_def)

section \<open>Properties\<close>

text \<open>
  C2. The kernel cannot deadlock against its interrupt handlers: from power-on, through any interleaving of boot,
  the monitor's calls, visits to user mode, and timer and keyboard interrupts between any two actions, whatever code is
  under way runs to its end in a bounded number of actions without waiting for a lock that is held and
  without halting while interrupts are off; when it is done, no lock is held and interrupts are on, also
  when the kernel stack is abandoned for user mode. A lock is never held twice, and at most one interrupt handler
  is under way.
\<close>

theorem kernel_never_deadlocks:
  assumes "(cpu_step irq_handlers monitor_calls)\<^sup>*\<^sup>* (power_on (actions (kernel_main_locks offset framebuffer ticking))) s"
  shows "(\<exists>n s'. n \<le> work s \<and> execute_n n s = Some s' \<and> (lc_ended s' \<or> idle s' \<and> lc_if s' \<and> lc_held s' = [])) \<and>
    (\<not> lc_ended s \<longrightarrow> distinct (lc_held s) \<and> length (lc_frames s) \<le> 2)"
proof -
  have inv: "lock_inv IRQ_LOCKS s"
    using kernel_locks.steps_inv[OF assms kernel_locks.boot_inv[OF kernel_main_disciplined]] .
  from kernel_locks.completes[OF inv] kernel_locks.lock_inv_distinct[OF inv] show ?thesis by simp
qed

text \<open>Running the machine's code is a sequence of steps.\<close>

lemma execute_n_steps: "execute_n n s = Some s' \<Longrightarrow> (cpu_step handlers calls)\<^sup>*\<^sup>* s s'"
  by (induction n arbitrary: s)
    (auto split: option.splits intro: converse_rtranclp_into_rtranclp step_execute)

text \<open>The timer interrupts the greeting of the monitor while it is printed.\<close>

definition interrupted_print :: lock_cpu where
  "interrupted_print = interrupt (actions timer_interrupt_handler_locks)
     \<lparr>lc_frames = [\<lparr>fr_code = Unlock WRITER # actions (print_locks @ print_locks @ print_locks), fr_saved = [], fr_flag = False\<rparr>],
      lc_if = True, lc_held = [WRITER], lc_ended = False\<rparr>"

lemma interrupted_print_reached:
  "(cpu_step irq_handlers monitor_calls)\<^sup>*\<^sup>* (power_on (actions (kernel_main_locks None False True))) interrupted_print"
proof -
  let ?s = "\<lparr>lc_frames = [\<lparr>fr_code = Unlock WRITER # actions (print_locks @ print_locks @ print_locks), fr_saved = [], fr_flag = False\<rparr>],
      lc_if = True, lc_held = [WRITER], lc_ended = False\<rparr>"
  have "execute_n 34 (power_on (actions (kernel_main_locks None False True))) = Some ?s"
    by (simp add: power_on_def kernel_main_locks_def lock_skeletons numeral_eq_Suc execute_def perform_def)
  moreover have "cpu_step irq_handlers monitor_calls ?s interrupted_print"
    unfolding interrupted_print_def by (rule step_interrupt) (simp_all add: irq_handlers_def)
  ultimately show ?thesis using execute_n_steps by (metis rtranclp.rtrancl_into_rtrancl)
qed

theorem kernel_never_deadlocks_witness:
  "(\<exists>n s'. n \<le> work interrupted_print \<and> execute_n n interrupted_print = Some s' \<and> (lc_ended s' \<or> idle s' \<and> lc_if s' \<and> lc_held s' = [])) \<and>
    lc_held interrupted_print = [WRITER] \<and> length (lc_frames interrupted_print) = 2"
  using kernel_never_deadlocks[OF interrupted_print_reached] by (simp add: interrupted_print_def interrupt_def)

text \<open>
  C15. A panic or a page fault ends the machine with \<open>Failed\<close> after its message exactly if the screen is not being
  written to: with the writer's lock free the handler ends the machine with its third action, and with the lock
  held (a panic inside the drawing code) the handler's own message waits for that lock
  for ever, so that the machine never ends, whatever interrupts come.
\<close>

theorem fatal_handler_ends_unless_printing:
  assumes "\<not> lc_ended s"
  shows "if WRITER \<in> set (lc_held s)
    then \<nexists>s'. (cpu_step irq_handlers monitor_calls)\<^sup>*\<^sup>* (raise e s) s' \<and> lc_ended s'
    else \<exists>s'. execute_n 3 (raise e s) = Some s' \<and> lc_ended s'"
proof (cases "WRITER \<in> set (lc_held s)")
  case True
  with steps_hung[OF _ raise_hung[OF assms True]] show ?thesis by (auto simp: hung_def)
next
  case False
  with assms raise_ends show ?thesis by simp
qed

theorem fatal_handler_ends_unless_printing_witness:
  "(\<nexists>s'. (cpu_step irq_handlers monitor_calls)\<^sup>*\<^sup>* (raise KernelPanic interrupted_print) s' \<and> lc_ended s') \<and>
    (\<exists>s'. execute_n 3 (raise PageFaultException (power_on [])) = Some s' \<and> lc_ended s')"
  using fatal_handler_ends_unless_printing[of interrupted_print KernelPanic] fatal_handler_ends_unless_printing[of "power_on []" PageFaultException]
  by (simp add: interrupted_print_def interrupt_def power_on_def)

end
