(* ===== verification/Spec2Isabelle.thy ===== *)
theory Spec2Isabelle
  imports Boot Build_Script Keyboard_Typing Serial_Port Spin_Locks
begin

text \<open>
  A verification library for jingOS, an operating system kernel in Rust (\<open>kernel/src\<close>) with the host
  program that starts it in QEMU (\<open>src/main.rs\<close>) and its build script (\<open>build.rs\<close>). Paths below are relative to the repository.

  \<^bold>\<open>The program.\<close> Boot (\<open>kernel_main\<close>) sums up the memory map, takes frames from it to map a demo page, the
  heap and user memory, loads the segments, programs the fast system call, the interrupt table, the
  interrupt controllers and the timer, creates the first task and starts the monitor. The monitor reads
  scancodes that the keyboard interrupt has queued and bytes from the serial port, edits a line, runs the
  command it holds, and runs tasks of the scheduler by hand or automatically; some commands leave for ring 3
  and come back through an interrupt. The host program builds the QEMU command line, may type a script
  into the serial port once the monitor reports that it is ready, and turns the way the machine ended into
  its own exit code.

  \<^bold>\<open>Conventions.\<close> A struct is a \<open>record\<close>, an enum a \<open>datatype\<close>, an integer a word of its width; a \<open>usize\<close>
  that counts or indexes is a \<open>nat\<close> with the checks of the source written out. Code that can panic or fault returns
  \<open>'a run\<close>, a \<open>Result\<close> is \<open>('a, 'e) result\<close>. Arithmetic panics on overflow as in a checked build. The
  statics behind locks are fields of the state; that the locks themselves never block is shown apart, in
  \<open>Spin_Locks\<close>. External crates are records of functions
  (\<open>x86_64_api\<close>, \<open>mapper_api\<close>, the descriptor table's \<open>append\<close>, the font), with their documented behaviour
  as the locales \<open>x86_64_documented\<close>, \<open>mapper_documented\<close> and \<open>gdt_documented\<close>, and the serial receiver as \<open>uart\<close>; each locale has an
  interpretation on executable functions. Definitions carry the names of the source.

  \<^bold>\<open>Theories.\<close>

  \<^item> \<open>Kernel_Prelude\<close>: words, panics, results, arrays, integer operations, shared lemmas.
  \<^item> \<open>Round_Robin\<close>, \<open>Task\<close> (\<open>kernel/src/task.rs\<close>): the task table. Reachable tables keep their invariant;
    a step follows the priority and round-robin policy and starves no task; sleeping holds; the operations
    by id refine a finite map.
  \<^item> \<open>Bounded_Queue\<close>, \<open>Interrupts\<close> (\<open>interrupts.rs\<close>): scancode buffer, timer programming, handlers, interrupt
    table. Any order of interrupts and calls behaves as a bounded queue with exact counters.
  \<^item> \<open>Keyboard\<close> (\<open>keyboard.rs\<close>): the decoder. Modifiers follow the strokes, every printable text can be typed.
  \<^item> \<open>Frame_Source\<close>, \<open>Memory\<close>, \<open>Page_Walk\<close>, \<open>Paging\<close> (\<open>memory.rs\<close>), \<open>Heap\<close> (\<open>heap.rs\<close>): the memory
    summary, the frame allocator as a source of distinct frames, mapping pages, the page table walk against
    the hardware's walk (the same but for the PAT bit of huge pages), the heap's pages.
  \<^item> \<open>Gdt\<close> (\<open>gdt.rs\<close>), \<open>Syscall\<close> (\<open>syscall.rs\<close>), \<open>Entry_Stubs\<close> (the assembly in \<open>interrupts.rs\<close> and
    \<open>syscall.rs\<close>): segments, dispatch, the status protocol, the instructions of the entry stubs one by one on
    a CPU with registers, stack and flags.
  \<^item> \<open>User_Code\<close>, \<open>Usermode\<close> (\<open>usermode.rs\<close>), \<open>User_Program\<close> (\<open>user_program.rs\<close>): the demo programs as
    bytes, a decoder that runs them in ring 3 against the stubs, the exit interrupt, the kernel-side demo.
    \<open>user_run\<close> has fuel: 3 steps end the plain demo and 15 the fast system call demos, as proved.
  \<^item> \<open>Refinement\<close>, \<open>Input_Line\<close>, \<open>Command_History\<close>, \<open>Text_Format\<close> (\<open>main.rs\<close>): the line buffer refines a
    text with a cursor, the history ring a list of the last sixteen lines; parsing and printing of numbers.
  \<^item> \<open>Framebuffer\<close> (\<open>framebuffer.rs\<close>): the writer down to the bytes of the buffer, with the overflow checks of its
    \<open>usize\<close> arithmetic; on a framebuffer of sizes that fit it never panics and refines a character grid.
  \<^item> \<open>Monitor_State\<close>, \<open>Commands\<close>, \<open>Monitor\<close> (\<open>main.rs\<close>): the state with all statics, the thirty commands with
    their output, key handling, completion, and the loop as a machine with one step per iteration, so that
    interrupts, serial bytes and user exits interleave with it (\<open>machine_step\<close>, \<open>machine_run\<close>).
  \<^item> \<open>Exceptions\<close> (\<open>interrupts.rs\<close>, \<open>main.rs\<close>): the breakpoint, page fault, panic and allocation error handlers, and
    which of them ends the machine after which failure.
  \<^item> \<open>Monitor_Safety\<close>: the invariant \<open>monitor_ok\<close>, kept by every command and step. Its budget \<open>n\<close> is how many
    events the 64-bit counters still have room for; two per event are enough. \<open>line_panic\<close> says exactly which
    command lines do not return and how each of them ends.
  \<^item> \<open>Monitor_Typing\<close>: the screen shows what is edited; a line typed is the command that runs.
  \<^item> \<open>Monitor_Progress\<close>: draining the keyboard queue ends, one step after the scancodes that wait or arrive, also under
    interrupts; an idle monitor exits on time.
  \<^item> \<open>Keyboard_Typing\<close>: a line typed on the keyboard is the command that runs, however keyboard interrupts, timer
    ticks and steps of the monitor interleave.
  \<^item> \<open>Serial_Port\<close> (\<open>poll_serial_byte\<close>): polling a receiver yields its bytes in order.
  \<^item> \<open>Spin_Locks\<close> (all kernel files): the lock skeleton of every function that takes a lock, one processor that runs
    them and takes interrupts between any two actions. Nothing ever waits for a lock that is held,
    and no lock is left held when the stack is abandoned for user mode; a panic ends the machine unless it
    comes while the screen is written.
  \<^item> \<open>Boot\<close> (\<open>kernel_main\<close>): boot, with its messages drawn by the framebuffer writer, does not panic on a
    framebuffer the writer can draw on, and establishes \<open>monitor_ok\<close>.
  \<^item> \<open>Launcher\<close> (\<open>src/main.rs\<close>): options, command line, script, both threads, exit code; the marker is found
    however the output is cut.
  \<^item> \<open>Build_Script\<close> (\<open>build.rs\<close>): the two disk images and their paths; QEMU is started on one made from the kernel.
  \<^item> this theory: properties that span host and kernel.

  \<^bold>\<open>Not modelled.\<close> The text of values that the crates and \<open>core\<close> format for debugging (parameters of the
  messages); segment registers other than the code segment in \<open>syscall\<close> and \<open>sysret\<close>; the initialisation of the
  UART by its crate; interrupts inside a step of the monitor (they come between steps; \<open>console_println!\<close> evaluates
  its arguments once for the serial port and once for the screen, so a tick in between can make the two differ);
  the contents of the heap allocator and the lock it takes inside an allocation;
  what QEMU does when the kernel writes nothing to the exit port (it still runs, or has taken an exception without a handler);
  the time QEMU and the host's threads take (the sending thread and the forwarding thread meet in one
  signal only).
\<close>

section \<open>From the script file to the command\<close>

text \<open>The bytes of a text on the serial line.\<close>

definition wire :: "string \<Rightarrow> u8 list" where
  "wire t = map (\<lambda>c. of_nat (of_char c)) t"

lemma wire_char: "(char_of (unat (of_nat (of_char (c :: char)) :: u8)) :: char) = c"
proof -
  have "(of_char c :: nat) < 256" by simp
  then have "unat (of_nat (of_char c) :: u8) = of_char c" by (simp add: unat_of_nat take_bit_nat_eq_self)
  then show ?thesis by simp
qed

lemma wire_text: "ascii_text (wire t) = t"
  by (induction t) (simp_all add: wire_def wire_char)

lemma wire_append: "wire (t @ [CHR 0x0D]) = wire t @ [0x0D]"
  by (simp add: wire_def)

lemma wire_printable: "list_all (char_between 0x20 0x7E) t \<Longrightarrow> list_all printable (wire t)"
  by (induction t) (auto simp: wire_def printable_def char_between_def word_le_nat_alt unat_of_nat take_bit_nat_eq_self)



section \<open>From the kernel back to the host\<close>

text \<open>What the kernel has sent to the serial port; the screen is cleared in the framebuffer only.\<close>

definition serial_text :: "console_event list \<Rightarrow> string" where
  "serial_text es = concat (map (\<lambda>e. case e of Out t \<Rightarrow> t | ClearScreen \<Rightarrow> []) es)"

text \<open>The greeting of the monitor is what the launcher waits for, whatever was printed before.\<close>

lemma greeting_signals:
  assumes "start_loop s = Ret (Done (), s')" "concat chunks = serial_text (mo_console s')" "list_all (\<lambda>c. c \<noteq> []) chunks"
  shows "fw_ready_sent (forward_output (chunks_read chunks) forwarder_new)"
proof -
  have "mo_console s' = mo_console s @ [Out NEWLINE] @ Out (MONITOR_READY_MARKER @ NEWLINE) #
      [Out (''jingos monitor ready. type 'help' for commands.'' @ NEWLINE), Out MONITOR_PROMPT]"
    using assms(1) by (auto simp: start_loop_def mon_run)
  moreover have "SERIAL_MONITOR_READY_MARKER = MONITOR_READY_MARKER"
    by (simp add: SERIAL_MONITOR_READY_MARKER_def MONITOR_READY_MARKER_def)
  ultimately have "sublist SERIAL_MONITOR_READY_MARKER (concat chunks)"
    unfolding assms(2) serial_text_def by (simp add: sublist_def) (metis append.assoc)
  moreover have "\<not> sublist SERIAL_MONITOR_READY_MARKER []" by (simp add: SERIAL_MONITOR_READY_MARKER_def)
  ultimately show ?thesis
    using forward_before_marker[of forwarder_new "[]" chunks] assms(3) by (auto simp: forwarder_new_def window_of_def)
qed

text \<open>
  QEMU's device \<open>isa-debug-exit\<close> ends the process with twice the value written to its port, plus one. The host sees
  the low byte of that, so this is stated for values below 0x80.
\<close>

definition isa_debug_exit :: "(u32 \<Rightarrow> int) \<Rightarrow> bool" where
  "isa_debug_exit status \<longleftrightarrow> (\<forall>v < 0x80. status v = 2 * int (unat v) + 1)"

lemma process_code_exit:
  "isa_debug_exit status \<Longrightarrow> process_code (Some (status (exit_code_value code))) = (case code of Success \<Rightarrow> 0 | Failed \<Rightarrow> 1)"
  by (cases code) (simp_all add: isa_debug_exit_def exit_code_value_def process_code_def)

lemma process_code_cases:
  "process_code ended = (if ended \<in> {Some 0x10, Some 0x21} then 0 else if ended \<in> {Some 0x11, Some 0x23} then 1 else 2)"
  by (cases ended) (auto simp: process_code_def)

text \<open>Every way the launcher ends after QEMU has started prints an error, unless it waited for QEMU.\<close>

lemma load_errors: "load_serial_script f path = Inl h \<Longrightarrow> ha_stderr h \<noteq> []"
proof -
  have line: "script_line path n l = Inl h \<Longrightarrow> ha_stderr h \<noteq> []" for n l
    by (auto simp: script_line_def parse_sleep_directive_def fails_def Let_def map_sum_def split: if_splits option.splits sum.splits)
  have "script_loop path n ls as = Inl h \<Longrightarrow> ha_stderr h \<noteq> []" for n ls as
    by (induction ls arbitrary: n as) (auto simp: line split: sum.splits option.splits)
  then show "load_serial_script f path = Inl h \<Longrightarrow> ha_stderr h \<noteq> []"
    by (auto simp: load_serial_script_def fails_def split: sum.splits if_splits)
qed

lemma launch_waits:
  assumes "launch H args = (started, h)" "la_qemu started \<noteq> None" "ha_stderr h = []"
  shows "h = wait_for_child H"
  using assms
  by (auto simp: launch_def start_threads_def Let_def fails_def host_panics_def dest: load_errors
      split: list.splits sum.splits option.splits if_splits)

text \<open>
  C40. The exit code of the launcher is the verdict on the kernel's run. Whenever it has started QEMU, printed no error of
  its own and waited for QEMU to end, its exit code is 0 for the statuses 0x10 and 0x21, 1 for 0x11 and 0x23, and 2 for every
  other status and for an end without one. So when a run of the kernel ends the machine through the exit port with \<open>Success\<close>,
  the launcher exits with 0; when it ends it with \<open>Failed\<close>, panics or takes a page fault, which all write \<open>Failed\<close> to the port,
  the launcher exits with 1. Nothing is said of runs in which the kernel writes nothing to the port: it still runs, or has taken an
  exception without a handler.
\<close>

theorem exit_code_reaches_host:
  assumes "isa_debug_exit status" "launch H args = (started, h)" "la_qemu started \<noteq> None" "ha_stderr h = []"
    and "ho_wait H = Some ended"
  shows "ha_code h = (if ended \<in> {Some 0x10, Some 0x21} then 0 else if ended \<in> {Some 0x11, Some 0x23} then 1 else 2) \<and>
    (case machine_run E es st of
      Ret (Stopped code, s') \<Rightarrow> exit_status (machine_run E es st) = Some code \<and>
        (ended = Some (status (exit_code_value code)) \<longrightarrow> ha_code h = (case code of Success \<Rightarrow> 0 | Failed \<Rightarrow> 1))
    | Panic p \<Rightarrow> p \<noteq> UnhandledException \<longrightarrow> exit_status (machine_run E es st) = Some Failed \<and>
        (ended = Some (status (exit_code_value Failed)) \<longrightarrow> ha_code h = 1)
    | _ \<Rightarrow> exit_status (machine_run E es st) = None)"
proof -
  have code: "ha_code h = process_code ended"
    using launch_waits[OF assms(2-4)] assms(5) by (simp add: wait_for_child_def)
  have "ha_code h = (case c of Success \<Rightarrow> 0 | Failed \<Rightarrow> 1)" if "ended = Some (status (exit_code_value c))" for c
    using process_code_exit[OF assms(1)] code that by simp
  with code process_code_cases[of ended] show ?thesis
    by (auto simp: exit_status_def fatal_exit_def split: run.split prod.split phase.split)
qed

theorem exit_code_reaches_host_witness:
  "(\<exists>started h. launch \<lparr>ho_uefi_path = ''u'', ho_bios_path = ''b'', ho_ovmf = None, ho_read_file = (\<lambda>_. Inl ''none''),
       ho_spawns = (\<lambda>_. True), ho_child_stdin = True, ho_child_stdout = True, ho_wait = Some (Some 0x23)\<rparr>
       [''jingos'', ''bios''] = (started, h) \<and> ha_code h = 1) \<and>
   machine_run demo_env [] (Stopped Failed, demo_monitor) = Ret (Stopped Failed, demo_monitor)"
proof -
  define status where "status = (\<lambda>v :: u32. 2 * int (unat v) + 1)"
  define H where "H = \<lparr>ho_uefi_path = ''u'', ho_bios_path = ''b'', ho_ovmf = None, ho_read_file = (\<lambda>_. Inl ''none''),
       ho_spawns = (\<lambda>_. True), ho_child_stdin = True, ho_child_stdout = True, ho_wait = Some (Some 0x23)\<rparr>"
  have run: "machine_run demo_env [] (Stopped Failed, demo_monitor) = Ret (Stopped Failed, demo_monitor)" by simp
  have 1: "isa_debug_exit status" "Some 0x23 = Some (status (exit_code_value Failed))"
    by (simp_all add: isa_debug_exit_def status_def exit_code_value_def)
  have 2: "ho_wait H = Some (Some 0x23)" by (simp add: H_def)
  obtain started h where 3: "launch H [''jingos'', ''bios''] = (started, h)" by fastforce
  then have 4: "la_qemu started \<noteq> None" "ha_stderr h = []"
    by (auto simp: launch_def H_def no_options_def serial_script_def wait_for_child_def)
  have "ha_code h = 1"
    using exit_code_reaches_host[OF 1(1) 3 4 2, of demo_env "[]" "(Stopped Failed, demo_monitor)"] 1(2) unfolding run by simp
  with 3 run show ?thesis unfolding H_def by simp
qed

section \<open>Deviations\<close>

text \<open>The command \<open>echo\<close> after blanks prints an empty line: the prefix is looked for in the untrimmed line.\<close>

lemma echo_after_blanks:
  "execute_command E C ''  echo hi'' s = Ret (Done False, s\<lparr>mo_console := mo_console s @ [Out NEWLINE]\<rparr>)"
proof -
  have words: "split_whitespace ''  echo hi'' = [''echo'', ''hi'']" by code_simp
  have "strip_prefix ''echo'' ''  echo hi'' = None" "trim_start '''' = ''''" by (simp_all add: strip_prefix_def trim_start_def)
  then show ?thesis by (simp add: execute_command_def words command_arms_def cmd_echo_def mon_run)
qed

text \<open>The command \<open>heap\<close> panics when the heap could not be set up at boot.\<close>

lemma heap_without_heap: "me_heap E = None \<Longrightarrow> execute_command E C ''heap'' s = Panic AllocationFailed"
proof -
  assume "me_heap E = None"
  moreover have "split_whitespace ''heap'' = [''heap'']" by code_simp
  ultimately show ?thesis by (simp add: execute_command_def command_arms_def cmd_heap_def mon_run)
qed

end
